(* ===== verification/Netip.thy ===== *)
theory Netip
  imports Prelude
begin

text \<open>
  The part of Go's \<open>net/netip\<close> the program uses: \<open>Addr\<close> with its order and its
  successor, \<open>ParseAddr\<close>, \<open>Addr.String\<close>, \<open>Prefix\<close> and \<open>ParsePrefix\<close>. The zero
  \<open>Addr\<close> is \<open>AddrNone\<close>; an IPv6 address carries its zone, empty for none.
  The locale \<open>addr_line\<close> is what the range algorithms rely on: the addresses of one
  family, without zones, form a line that \<open>Next\<close> and \<open>Prev\<close> walk in steps of one.
\<close>

section \<open>Addresses\<close>

datatype addr = AddrNone | Addr4 "32 word" | Addr6 "128 word" string

fun bit_len :: "addr \<Rightarrow> nat" where
  "bit_len AddrNone = 0"
| "bit_len (Addr4 _) = 32"
| "bit_len (Addr6 _ _) = 128"

fun addr_val :: "addr \<Rightarrow> nat" where
  "addr_val AddrNone = 0"
| "addr_val (Addr4 w) = unat w"
| "addr_val (Addr6 w _) = unat w"

fun addr_zone :: "addr \<Rightarrow> string" where
  "addr_zone (Addr6 _ z) = z"
| "addr_zone _ = []"

fun is4 :: "addr \<Rightarrow> bool" where
  "is4 (Addr4 _) = True"
| "is4 _ = False"

fun is6 :: "addr \<Rightarrow> bool" where
  "is6 (Addr6 _ _) = True"
| "is6 _ = False"

definition is_valid :: "addr \<Rightarrow> bool" where
  "is_valid a \<longleftrightarrow> a \<noteq> AddrNone"

text \<open>\<open>Addr.Compare\<close>: the bit length first, then the address, then the zone.\<close>

definition addr_compare :: "addr \<Rightarrow> addr \<Rightarrow> int" where
  "addr_compare a b =
     (if bit_len a < bit_len b then - 1 else if bit_len b < bit_len a then 1
      else if addr_val a < addr_val b then - 1 else if addr_val b < addr_val a then 1
      else if is6 a then
        (if addr_zone a < addr_zone b then - 1 else if addr_zone b < addr_zone a then 1 else 0)
      else 0)"

definition addr_less :: "addr \<Rightarrow> addr \<Rightarrow> bool" where
  "addr_less a b \<longleftrightarrow> addr_compare a b = - 1"

fun addr_next :: "addr \<Rightarrow> addr" where
  "addr_next AddrNone = AddrNone"
| "addr_next (Addr4 w) = (if w + 1 = 0 then AddrNone else Addr4 (w + 1))"
| "addr_next (Addr6 w z) = (if w + 1 = 0 then AddrNone else Addr6 (w + 1) z)"

fun addr_prev :: "addr \<Rightarrow> addr" where
  "addr_prev AddrNone = AddrNone"
| "addr_prev (Addr4 w) = (if w = 0 then AddrNone else Addr4 (w - 1))"
| "addr_prev (Addr6 w z) = (if w = 0 then AddrNone else Addr6 (w - 1) z)"

fun as_slice :: "addr \<Rightarrow> byte list" where
  "as_slice AddrNone = []"
| "as_slice (Addr4 w) = be_bytes 4 (unat w)"
| "as_slice (Addr6 w _) = be_bytes 16 (unat w)"

definition addr_from_slice :: "byte list \<Rightarrow> addr option" where
  "addr_from_slice bs =
     (if length bs = 4 then Some (Addr4 (of_nat (be_nat bs)))
      else if length bs = 16 then Some (Addr6 (of_nat (be_nat bs)) [])
      else None)"

subsection \<open>The order of Compare is a linear order\<close>

definition addr_key :: "addr \<Rightarrow> nat \<times> nat \<times> string" where
  "addr_key a = (bit_len a, addr_val a, addr_zone a)"

lemma addr_key_inj: "addr_key a = addr_key b \<Longrightarrow> a = b"
  by (cases a; cases b) (auto simp: addr_key_def)

instantiation addr :: linorder
begin

definition less_eq_addr :: "addr \<Rightarrow> addr \<Rightarrow> bool" where
  "less_eq_addr a b \<longleftrightarrow> addr_key a \<le> addr_key b"

definition less_addr :: "addr \<Rightarrow> addr \<Rightarrow> bool" where
  "less_addr a b \<longleftrightarrow> addr_key a < addr_key b"

instance
  by standard (auto simp: less_eq_addr_def less_addr_def intro: addr_key_inj)

end

lemma addr_compare_less: "addr_compare a b < 0 \<longleftrightarrow> a < b"
  by (cases a; cases b) (auto simp: addr_compare_def less_addr_def addr_key_def)

lemma addr_compare_eq: "addr_compare a b = 0 \<longleftrightarrow> a = b"
  by (cases a; cases b) (auto simp: addr_compare_def not_less)

lemma addr_compare_sign [simp]:
  "addr_compare a b < 0 \<longleftrightarrow> a < b"
  "addr_compare a b \<le> 0 \<longleftrightarrow> a \<le> b"
  "0 < addr_compare a b \<longleftrightarrow> b < a"
  using addr_compare_less [of a b] addr_compare_eq [of a b] by (auto simp: not_less)

lemma addr_less_iff [simp]: "addr_less a b \<longleftrightarrow> a < b"
proof -
  have "addr_compare a b = - 1 \<longleftrightarrow> addr_compare a b < 0"
    by (simp add: addr_compare_def del: addr_compare_sign)
  then show ?thesis by (simp add: addr_less_def)
qed

lemma addr_less_code [code]:
  "(a :: addr) < b \<longleftrightarrow> addr_compare a b < 0" "a \<le> b \<longleftrightarrow> addr_compare a b \<le> 0"
  by simp_all

lemma addr_order_simps [simp]:
  "Addr4 v \<le> Addr4 v' \<longleftrightarrow> v \<le> v'" "Addr4 v < Addr4 v' \<longleftrightarrow> v < v'"
  "Addr6 w z \<le> Addr6 w' z \<longleftrightarrow> w \<le> w'" "Addr6 w z < Addr6 w' z \<longleftrightarrow> w < w'"
  "Addr4 v < Addr6 w z" "\<not> Addr6 w z \<le> Addr4 v"
  by (auto simp: less_eq_addr_def less_addr_def addr_key_def word_le_nat_alt
      word_less_nat_alt le_less)

lemma addr_none_least [simp]: "AddrNone \<le> a" "\<not> a < AddrNone"
  by (cases a; simp add: less_eq_addr_def less_addr_def addr_key_def)+

lemma bit_len_mono: "a \<le> b \<Longrightarrow> bit_len a \<le> bit_len b"
  by (auto simp: less_eq_addr_def addr_key_def)


lemma unat_less32: "unat (w :: 32 word) < 4294967296"
  using unsigned_less [of w] by simp

lemma unat_less128: "unat (w :: 128 word) < 340282366920938463463374607431768211456"
  using unsigned_less [of w] by simp

section \<open>The line of one family\<close>

text \<open>
  The zone-free addresses of a family, and the interface \<open>addr_line\<close> the range
  algorithms are proved against: Compare agrees with the numeric value, Next and Prev
  move by one unless they leave the family, and then give the zero address.
\<close>

definition line4 :: "addr set" where
  "line4 = {a. is4 a}"

definition line6 :: "addr set" where
  "line6 = {a. is6 a \<and> addr_zone a = []}"

lemma mem_line4 [simp]: "a \<in> line4 \<longleftrightarrow> (\<exists>w. a = Addr4 w)"
  by (cases a) (auto simp: line4_def)

lemma mem_line6 [simp]: "a \<in> line6 \<longleftrightarrow> (\<exists>w. a = Addr6 w [])"
  by (cases a) (auto simp: line6_def)

definition plain :: "addr \<Rightarrow> bool" where
  "plain a \<longleftrightarrow> is_valid a \<and> addr_zone a = []"

locale addr_line =
  fixes line :: "addr set" and nxt prv :: "addr \<Rightarrow> addr"
  assumes less_val: "a \<in> line \<Longrightarrow> b \<in> line \<Longrightarrow> a < b \<longleftrightarrow> addr_val a < addr_val b"
    and le_val: "a \<in> line \<Longrightarrow> b \<in> line \<Longrightarrow> a \<le> b \<longleftrightarrow> addr_val a \<le> addr_val b"
    and eq_val: "a \<in> line \<Longrightarrow> b \<in> line \<Longrightarrow> a = b \<longleftrightarrow> addr_val a = addr_val b"
    and nxt_line: "a \<in> line \<Longrightarrow> b \<in> line \<Longrightarrow> a < b \<Longrightarrow> nxt a \<in> line"
    and nxt_val: "a \<in> line \<Longrightarrow> nxt a \<in> line \<Longrightarrow> addr_val (nxt a) = addr_val a + 1"
    and nxt_top: "a \<in> line \<Longrightarrow> nxt a \<notin> line \<Longrightarrow> nxt a = AddrNone"
    and prv_line: "a \<in> line \<Longrightarrow> b \<in> line \<Longrightarrow> b < a \<Longrightarrow> prv a \<in> line"
    and prv_val: "a \<in> line \<Longrightarrow> prv a \<in> line \<Longrightarrow> addr_val (prv a) + 1 = addr_val a"
    and prv_bot: "a \<in> line \<Longrightarrow> prv a \<notin> line \<Longrightarrow> prv a = AddrNone"
    and line_plain: "a \<in> line \<Longrightarrow> plain a"
    and line_convex: "a \<in> line \<Longrightarrow> b \<in> line \<Longrightarrow> plain c \<Longrightarrow> a \<le> c \<Longrightarrow> c \<le> b \<Longrightarrow> c \<in> line"
begin

lemma none_line: "AddrNone \<notin> line"
  using line_plain by (auto simp: plain_def is_valid_def)

lemmas line_vals = less_val le_val eq_val

lemma nxt_val_less:
  assumes "a \<in> line" "b \<in> line" "a < b"
  shows "addr_val (nxt a) = addr_val a + 1"
  using assms nxt_line nxt_val by blast

lemma prv_val_less:
  assumes "a \<in> line" "b \<in> line" "b < a"
  shows "addr_val (prv a) + 1 = addr_val a"
  using assms prv_line prv_val by blast

lemma eq_nxt_iff:
  assumes "a \<in> line" "b \<in> line"
  shows "b = nxt a \<longleftrightarrow> addr_val b = addr_val a + 1"
proof
  assume "b = nxt a"
  then show "addr_val b = addr_val a + 1" using assms nxt_val by simp
next
  assume eq: "addr_val b = addr_val a + 1"
  then have "a < b" using assms less_val by simp
  then have "nxt a \<in> line" "addr_val (nxt a) = addr_val a + 1"
    using assms nxt_line nxt_val by blast+
  then show "b = nxt a" using assms eq eq_val by simp
qed

lemma prv_nxt: "a \<in> line \<Longrightarrow> nxt a \<in> line \<Longrightarrow> prv (nxt a) = a"
  by (metis Suc_eq_plus1 add_right_cancel eq_val less_val lessI nxt_val prv_line prv_val)

lemma finite_bounds: "a \<in> line \<Longrightarrow> nxt a \<notin> line \<Longrightarrow> b \<in> line \<Longrightarrow> b \<le> a"
  using nxt_line not_le by blast

end

lemma word_top: "(w :: 'a::len word) + 1 = 0 \<Longrightarrow> \<not> unat w < unat (v :: 'a::len word)"
proof -
  assume "w + 1 = 0"
  then have "w = - 1" by (simp add: eq_neg_iff_add_eq_0)
  then show ?thesis using word_n1_ge [of v] by (simp add: word_le_nat_alt not_less)
qed

text \<open>
  The byte form of a line: \<open>AsSlice\<close> reads the value back, and \<open>AddrFromSlice\<close> gives
  every value between two addresses of the line.
\<close>

locale addr_bytes = addr_line +
  assumes slice_val: "a \<in> line \<Longrightarrow> be_nat (as_slice a) = addr_val a"
    and slice_fits: "a \<in> line \<Longrightarrow> addr_val a < 256 ^ (bit_len a div 8)"
    and slice_len: "a \<in> line \<Longrightarrow> length (as_slice a) = bit_len a div 8"
    and slice_inv: "a \<in> line \<Longrightarrow> length bs = bit_len a div 8 \<Longrightarrow>
      \<exists>c \<in> line. addr_from_slice bs = Some c \<and> addr_val c = be_nat bs"
    and line_len_iff: "a \<in> line \<Longrightarrow> plain b \<Longrightarrow> b \<in> line \<longleftrightarrow> bit_len b = bit_len a"
begin

lemma line_len: "a \<in> line \<Longrightarrow> b \<in> line \<Longrightarrow> bit_len a = bit_len b"
  using line_len_iff line_plain by metis

end

lemma plain_cases: "plain a \<longleftrightarrow> a \<in> line4 \<or> a \<in> line6"
  by (cases a) (auto simp: plain_def is_valid_def)

lemma plain_convex:
  "plain c \<Longrightarrow> Addr4 v \<le> c \<Longrightarrow> c \<le> Addr4 w \<Longrightarrow> c \<in> line4"
  "plain c \<Longrightarrow> Addr6 x [] \<le> c \<Longrightarrow> c \<in> line6"
  by (cases c; simp add: plain_def is_valid_def)+

interpretation line4: addr_bytes line4 addr_next addr_prev
proof unfold_locales
  show "a \<in> line4 \<Longrightarrow> b \<in> line4 \<Longrightarrow> plain c \<Longrightarrow> a \<le> c \<Longrightarrow> c \<le> b \<Longrightarrow> c \<in> line4" for a b c
    using plain_convex(1) by auto
  show "a \<in> line4 \<Longrightarrow> plain b \<Longrightarrow> b \<in> line4 \<longleftrightarrow> bit_len b = bit_len a" for a b
    by (cases b) (auto simp: plain_def is_valid_def)
  show "\<exists>c \<in> line4. addr_from_slice bs = Some c \<and> addr_val c = be_nat bs"
    if "a \<in> line4" "length bs = bit_len a div 8" for a bs
    using that be_nat_bound [of bs] by (auto simp: addr_from_slice_def unat_of_nat)
qed (auto simp: word_less_nat_alt word_le_nat_alt unat_plus_one unat_minus_one unat_gt_0 plain_cases
      unat_less32 dest: word_top split: if_splits)

interpretation line6: addr_bytes line6 addr_next addr_prev
proof unfold_locales
  show "a \<in> line6 \<Longrightarrow> b \<in> line6 \<Longrightarrow> plain c \<Longrightarrow> a \<le> c \<Longrightarrow> c \<le> b \<Longrightarrow> c \<in> line6" for a b c
    using plain_convex(2) by auto
  show "a \<in> line6 \<Longrightarrow> plain b \<Longrightarrow> b \<in> line6 \<longleftrightarrow> bit_len b = bit_len a" for a b
    by (cases b) (auto simp: plain_def is_valid_def)
  show "\<exists>c \<in> line6. addr_from_slice bs = Some c \<and> addr_val c = be_nat bs"
    if "a \<in> line6" "length bs = bit_len a div 8" for a bs
    using that be_nat_bound [of bs] by (auto simp: addr_from_slice_def unat_of_nat)
qed (auto simp: word_less_nat_alt word_le_nat_alt unat_plus_one unat_minus_one unat_gt_0 plain_cases
      unat_less128 dest: word_top split: if_splits)

end
