(* ===== verification/Netip_Text.thy ===== *)
theory Netip_Text
  imports Netip
begin

text \<open>
  The text forms of \<open>net/netip\<close>: \<open>ParseAddr\<close> (dotted decimal, the colon form with
  \<open>::\<close>, an embedded IPv4 tail and a zone), \<open>Addr.String\<close>, and the prefixes
  (\<open>ParsePrefix\<close>, \<open>Masked\<close>, \<open>Contains\<close>). An error of the library is \<open>None\<close>: the
  program only tests for it and passes its text on.
\<close>

section \<open>ParseAddr\<close>

text \<open>
  \<open>parseIPv4Fields\<close> at one character: whether the last character was a dot (or none),
  the value and the digits of the open field, and the finished fields.
\<close>

fun v4_fields :: "bool \<Rightarrow> nat \<Rightarrow> nat \<Rightarrow> nat list \<Rightarrow> string \<Rightarrow> nat list option" where
  "v4_fields dot v n fs [] = (if length fs < 3 then None else Some (fs @ [v]))"
| "v4_fields dot v n fs (c # s) =
     (case digit_val c of
        Some d \<Rightarrow>
          if n = 1 \<and> v = 0 then None
          else if 255 < v * 10 + d then None
          else v4_fields False (v * 10 + d) (n + 1) fs s
      | None \<Rightarrow>
          if c \<noteq> CHR ''.'' then None
          else if dot \<or> s = [] then None
          else if length fs = 3 then None
          else v4_fields True 0 0 (fs @ [v]) s)"

definition parse_v4_fields :: "string \<Rightarrow> nat list option" where
  "parse_v4_fields s = v4_fields True 0 0 [] s"

definition parse_ipv4 :: "string \<Rightarrow> addr option" where
  "parse_ipv4 s = (case parse_v4_fields s of
     Some fs \<Rightarrow> Some (Addr4 (of_nat (be_nat (map of_nat fs)))) | None \<Rightarrow> None)"

text \<open>One hexadecimal field: the number of digits, the value and the rest.\<close>

fun take_hex :: "nat \<Rightarrow> nat \<Rightarrow> string \<Rightarrow> (nat \<times> nat \<times> string) option" where
  "take_hex off acc [] = Some (off, acc, [])"
| "take_hex off acc (c # s) =
     (case hex_val c of
        None \<Rightarrow> Some (off, acc, c # s)
      | Some d \<Rightarrow>
          if 3 < off then None
          else if 65535 < acc * 16 + d then None
          else take_hex (off + 1) (acc * 16 + d) s)"

text \<open>
  The loop of \<open>parseIPv6\<close>: the 16-bit groups so far, the position of the ellipsis and
  the rest of the text.
\<close>

function v6_loop :: "nat list \<Rightarrow> nat option \<Rightarrow> string \<Rightarrow>
    (nat list \<times> nat option \<times> string) option" where
  "v6_loop gs el s =
     (if \<not> length gs < 8 then Some (gs, el, s)
      else case take_hex 0 0 s of
        None \<Rightarrow> None
      | Some (off, acc, r) \<Rightarrow>
          if off = 0 then None
          else (case r of
            [] \<Rightarrow> Some (gs @ [acc], el, [])
          | c # t \<Rightarrow>
              if c = CHR ''.'' then
                (if el = None \<and> length gs \<noteq> 6 then None
                 else if 8 < length gs + 2 then None
                 else case parse_v4_fields s of
                   Some [a, b, x, y] \<Rightarrow> Some (gs @ [a * 256 + b, x * 256 + y], el, [])
                 | _ \<Rightarrow> None)
              else if c \<noteq> CHR '':'' then None
              else (case t of
                [] \<Rightarrow> None
              | c' # t' \<Rightarrow>
                  if c' \<noteq> CHR '':'' then v6_loop (gs @ [acc]) el t
                  else if el \<noteq> None then None
                  else if t' = [] then Some (gs @ [acc], Some (length gs + 1), [])
                  else v6_loop (gs @ [acc]) (Some (length gs + 1)) t')))"
  by pat_completeness auto
termination
  by (relation "measure (\<lambda>(gs, el, s). 8 - length gs)") auto

declare v6_loop.simps [simp del]

definition groups_val :: "nat list \<Rightarrow> nat" where
  "groups_val gs = foldl (\<lambda>v g. v * 65536 + g) 0 gs"

definition v6_finish :: "string \<Rightarrow> nat list \<times> nat option \<times> string \<Rightarrow> addr option" where
  "v6_finish zone r = (case r of (gs, el, rest) \<Rightarrow>
     if rest \<noteq> [] then None
     else if length gs < 8 then
       (case el of
          None \<Rightarrow> None
        | Some e \<Rightarrow> Some (Addr6 (of_nat (groups_val
            (take e gs @ replicate (8 - length gs) 0 @ drop e gs))) zone))
     else if el \<noteq> None then None
     else Some (Addr6 (of_nat (groups_val gs)) zone))"

definition parse_ipv6 :: "string \<Rightarrow> addr option" where
  "parse_ipv6 inp =
     (let s = cut_before (CHR ''%'') inp; zone = cut_after (CHR ''%'') inp in
      if CHR ''%'' \<in> set inp \<and> zone = [] then None
      else if has_prefix ''::'' s then
        (if drop 2 s = [] then Some (Addr6 0 zone)
         else Option.bind (v6_loop [] (Some 0) (drop 2 s)) (v6_finish zone))
      else Option.bind (v6_loop [] None s) (v6_finish zone))"

text \<open>The first dot, colon or percent sign decides.\<close>

definition parse_addr :: "string \<Rightarrow> addr option" where
  "parse_addr s =
     (case dropWhile (\<lambda>c. c \<noteq> CHR ''.'' \<and> c \<noteq> CHR '':'' \<and> c \<noteq> CHR ''%'') s of
        [] \<Rightarrow> None
      | c # _ \<Rightarrow> if c = CHR ''.'' then parse_ipv4 s
                 else if c = CHR '':'' then parse_ipv6 s else None)"

section \<open>Addr.String\<close>

definition v4_string :: "nat \<Rightarrow> string" where
  "v4_string n = str_join ''.''
     [dec (n div 16777216), dec (n div 65536 mod 256), dec (n div 256 mod 256), dec (n mod 256)]"

definition v6_groups :: "nat \<Rightarrow> nat list" where
  "v6_groups n = map (\<lambda>i. n div 65536 ^ i mod 65536) [7, 6, 5, 4, 3, 2, 1, 0]"

definition zero_run :: "nat list \<Rightarrow> nat \<Rightarrow> nat" where
  "zero_run gs i = length (takeWhile (\<lambda>g. g = 0) (drop i gs))"

text \<open>The first longest run of at least two zero groups, \<open>(8, 8)\<close> for none.\<close>

definition best_run :: "nat list \<Rightarrow> nat \<times> nat" where
  "best_run gs = foldl (\<lambda>(zs, ze) i.
     if 2 \<le> zero_run gs i \<and> ze - zs < zero_run gs i then (i, i + zero_run gs i) else (zs, ze))
     (8, 8) [0..<8]"

definition v6_string :: "nat list \<Rightarrow> string" where
  "v6_string gs = (case best_run gs of (zs, ze) \<Rightarrow>
     if zs = 8 then str_join '':'' (map hex gs)
     else str_join '':'' (map hex (take zs gs)) @ ''::'' @ str_join '':'' (map hex (drop ze gs)))"

definition zone_suffix :: "string \<Rightarrow> string" where
  "zone_suffix z = (if z = [] then [] else CHR ''%'' # z)"

fun addr_string :: "addr \<Rightarrow> string" where
  "addr_string AddrNone = ''invalid IP''"
| "addr_string (Addr4 w) = v4_string (unat w)"
| "addr_string (Addr6 w z) =
     (if unat w div 2 ^ 32 = 65535
      then ''::ffff:'' @ v4_string (unat w mod 2 ^ 32) @ zone_suffix z
      else v6_string (v6_groups (unat w)) @ zone_suffix z)"

section \<open>Prefixes\<close>

datatype prefix = Prefix (prefix_addr: addr) (prefix_bits: nat)

definition host_bits :: "prefix \<Rightarrow> nat" where
  "host_bits p = bit_len (prefix_addr p) - prefix_bits p"

text \<open>\<open>strconv.Atoi\<close> after the check that a longer text starts with 1 to 9.\<close>

definition parse_bits :: "string \<Rightarrow> nat option" where
  "parse_bits s =
     (if s = [] then None
      else if 1 < length s \<and> hd s = CHR ''0'' then None
      else dec_val 0 s)"

text \<open>The text is cut at its last slash.\<close>

definition parse_prefix :: "string \<Rightarrow> prefix option" where
  "parse_prefix s =
     (let r = rev s; ip_text = rev (cut_after (CHR ''/'') r); bits_text = rev (cut_before (CHR ''/'') r) in
      if CHR ''/'' \<notin> set s then None
      else case parse_addr ip_text of
        None \<Rightarrow> None
      | Some ip \<Rightarrow>
          if is6 ip \<and> addr_zone ip \<noteq> [] then None
          else case parse_bits bits_text of
            None \<Rightarrow> None
          | Some bits \<Rightarrow> if bits \<le> bit_len ip then Some (Prefix ip bits) else None)"

fun masked_addr :: "nat \<Rightarrow> addr \<Rightarrow> addr" where
  "masked_addr h AddrNone = AddrNone"
| "masked_addr h (Addr4 w) = Addr4 (push_bit h (drop_bit h w))"
| "masked_addr h (Addr6 w z) = Addr6 (push_bit h (drop_bit h w)) []"

text \<open>\<open>Prefix.Masked().Addr()\<close>, \<open>Prefix.IsValid\<close> and \<open>Prefix.Contains\<close>.\<close>

definition prefix_masked :: "prefix \<Rightarrow> addr" where
  "prefix_masked p = masked_addr (host_bits p) (prefix_addr p)"

definition prefix_valid :: "prefix \<Rightarrow> bool" where
  "prefix_valid p \<longleftrightarrow> is_valid (prefix_addr p) \<and> prefix_bits p \<le> bit_len (prefix_addr p)"

definition prefix_contains :: "prefix \<Rightarrow> addr \<Rightarrow> bool" where
  "prefix_contains p a \<longleftrightarrow>
     prefix_valid p \<and> addr_zone a = [] \<and> is_valid a \<and>
     bit_len (prefix_addr p) = bit_len a \<and>
     addr_val (prefix_addr p) div 2 ^ host_bits p = addr_val a div 2 ^ host_bits p"

end
