(* ===== verification/IP_Range.thy ===== *)
theory IP_Range
  imports Netip_Text
begin

text \<open>
  \<open>internal/core/ip_range.go\<close> and \<open>ip_family.go\<close>: a range of addresses with its parser
  (single address, \<open>a-b\<close>, CIDR, each with a leading \<open>!\<close> for an exclusion), membership,
  overlap, count and the iterator that starts at a hash-dependent offset and wraps around.
\<close>

unbundle bit_operations_syntax

section \<open>Families and ranges\<close>

type_synonym ip_family = string

definition IPv4 :: ip_family where "IPv4 = ''IPv4''"
definition IPv6 :: ip_family where "IPv6 = ''IPv6''"

definition get_ip_family :: "addr \<Rightarrow> ip_family" where
  "get_ip_family ip = (if is4 ip then IPv4 else if is6 ip then IPv6 else '''')"

record ip_range =
  rstart :: addr
  rend :: addr

datatype range_error =
    MixedFamilies addr addr
  | EndBeforeStart addr addr
  | AddrSyntax string
  | PrefixSyntax string
  | InvalidCidrEnd
  | NoUsableAddresses

type_synonym 'a range_result = "range_error + 'a"

definition new_ip_range :: "addr \<Rightarrow> addr \<Rightarrow> ip_range range_result" where
  "new_ip_range s e =
     (if bit_len s \<noteq> bit_len e then Inl (MixedFamilies s e)
      else if addr_less e s then Inl (EndBeforeStart e s)
      else Inr \<lparr>rstart = s, rend = e\<rparr>)"

section \<open>Parsing\<close>

text \<open>
  The loop that sets the host bits of the CIDR end address, from the last byte: \<open>count\<close>
  bits are left and \<open>j\<close> is the index of the byte.
\<close>

fun fill_host :: "nat \<Rightarrow> int \<Rightarrow> byte list \<Rightarrow> byte list" where
  "fill_host count j bs =
     (if 0 < count \<and> 0 \<le> j then
        (if 8 \<le> count then fill_host (count - 8) (j - 1) (bs[nat j := 255])
         else bs[nat j := bs ! nat j OR drop_bit (8 - count) 255])
      else bs)"

declare fill_host.simps [simp del]

definition cidr_range :: "prefix \<Rightarrow> bool \<Rightarrow> ip_range range_result" where
  "cidr_range p exclude_edges =
     (let start = prefix_masked p;
          count = bit_len start - prefix_bits p;
          endS = fill_host count (int (bit_len start div 8) - 1) (as_slice start)
      in case addr_from_slice endS of
           None \<Rightarrow> Inl InvalidCidrEnd
         | Some e \<Rightarrow>
             if exclude_edges then
               (let start' = addr_next start; e' = addr_prev e in
                if \<not> is_valid start' \<or> \<not> is_valid e' \<or> addr_less e' start'
                then Inl NoUsableAddresses
                else new_ip_range start' e')
             else new_ip_range start e)"

definition parse_addr_res :: "string \<Rightarrow> addr range_result" where
  "parse_addr_res s = (case parse_addr s of None \<Rightarrow> Inl (AddrSyntax s) | Some a \<Rightarrow> Inr a)"

text \<open>The body of \<open>ParseIPRange\<close> after the trim and the exclusion mark.\<close>

definition parse_range_body :: "string \<Rightarrow> bool \<Rightarrow> ip_range range_result" where
  "parse_range_body s exclude_edges =
     (if str_contains ''-'' s then
        (case parse_addr_res (trim_space (cut_before (CHR ''-'') s)) of
           Inl err \<Rightarrow> Inl err
         | Inr start \<Rightarrow>
             (case parse_addr_res (trim_space (cut_after (CHR ''-'') s)) of
                Inl err \<Rightarrow> Inl err
              | Inr e \<Rightarrow> new_ip_range start e))
      else if str_contains ''/'' s then
        (case parse_prefix s of
           None \<Rightarrow> Inl (PrefixSyntax s)
         | Some p \<Rightarrow> cidr_range p exclude_edges)
      else
        (case parse_addr_res s of Inl err \<Rightarrow> Inl err | Inr ip \<Rightarrow> new_ip_range ip ip))"

definition parse_ip_range :: "string \<Rightarrow> bool \<Rightarrow> (ip_range \<times> bool) range_result" where
  "parse_ip_range s0 exclude_edges =
     (let s1 = trim_space s0;
          excluded = has_prefix ''!'' s1;
          s = (if excluded then trim_space (trim_prefix ''!'' s1) else s1)
      in case parse_range_body s exclude_edges of
           Inl err \<Rightarrow> Inl err
         | Inr r \<Rightarrow> Inr (r, excluded))"

section \<open>Queries\<close>

definition range_family :: "ip_range \<Rightarrow> ip_family" where
  "range_family r = get_ip_family (rstart r)"

definition range_contains :: "ip_range \<Rightarrow> addr \<Rightarrow> bool" where
  "range_contains r a \<longleftrightarrow>
     addr_less (addr_prev (rstart r)) a \<and> addr_less a (addr_next (rend r))"

definition range_overlaps :: "ip_range \<Rightarrow> ip_range \<Rightarrow> bool" where
  "range_overlaps r other \<longleftrightarrow>
     range_family r = range_family other \<and>
     addr_compare (rstart r) (rend other) \<le> 0 \<and> addr_compare (rstart other) (rend r) \<le> 0"

definition range_string :: "ip_range \<Rightarrow> string" where
  "range_string r =
     (if rstart r = rend r then addr_string (rstart r)
      else addr_string (rstart r) @ ''-'' @ addr_string (rend r))"

definition range_count :: "ip_range \<Rightarrow> int" where
  "range_count r = int (be_nat (as_slice (rend r))) - int (be_nat (as_slice (rstart r))) + 1"

section \<open>Iteration\<close>

text \<open>
  The start address after the hash offset. \<open>None\<close> is a panic: a zero count in
  \<open>big.Int.Mod\<close>, a value too large for \<open>FillBytes\<close>, or no address of that length.
\<close>

definition iter_start :: "ip_range \<Rightarrow> byte list \<Rightarrow> addr option" where
  "iter_start r h =
     (if be_nat h = 0 then Some (rstart r)
      else if range_count r = 0 then None
      else (let offset = nat (int (be_nat h) mod \<bar>range_count r\<bar>);
                v = be_nat (as_slice (rstart r)) + offset;
                len = bit_len (rstart r) div 8
            in if v < 256 ^ len then addr_from_slice (be_bytes len v) else None))"

text \<open>
  The loop of the returned iterator: \<open>yield\<close> threads the state of the loop body and says
  whether to go on. \<open>None\<close> is a loop that does not end.
\<close>

partial_function (option) iter_loop ::
  "ip_range \<Rightarrow> addr \<Rightarrow> ('s \<Rightarrow> addr \<Rightarrow> bool \<times> 's) \<Rightarrow> addr \<Rightarrow> addr \<Rightarrow> 's \<Rightarrow> 's option" where
  "iter_loop r start yield a e s =
     (if \<not> fst (yield s a) then Some (snd (yield s a))
      else if a = e then
        (if start = rstart r \<or> e \<noteq> rend r then Some (snd (yield s a))
         else iter_loop r start yield (rstart r) (addr_prev start) (snd (yield s a)))
      else iter_loop r start yield (addr_next a) e (snd (yield s a)))"

declare iter_loop.simps [code]

definition range_iter ::
  "ip_range \<Rightarrow> byte list \<Rightarrow> ('s \<Rightarrow> addr \<Rightarrow> bool \<times> 's) \<Rightarrow> 's \<Rightarrow> 's option" where
  "range_iter r h yield s =
     (case iter_start r h of
        None \<Rightarrow> None
      | Some start \<Rightarrow> iter_loop r start yield start (rend r) s)"

section \<open>What a range stands for\<close>

definition range_in :: "addr set \<Rightarrow> ip_range \<Rightarrow> bool" where
  "range_in L r \<longleftrightarrow> rstart r \<in> L \<and> rend r \<in> L \<and> rstart r \<le> rend r"

definition wf_range :: "ip_range \<Rightarrow> bool" where
  "wf_range r \<longleftrightarrow> range_in line4 r \<or> range_in line6 r"

definition range_addrs :: "ip_range \<Rightarrow> addr set" where
  "range_addrs r = {a. plain a \<and> rstart r \<le> a \<and> a \<le> rend r}"

lemma wf_range_iff:
  "wf_range r \<longleftrightarrow> plain (rstart r) \<and> plain (rend r) \<and>
     bit_len (rstart r) = bit_len (rend r) \<and> rstart r \<le> rend r"
  by (cases "rstart r"; cases "rend r")
    (auto simp: wf_range_def range_in_def plain_def is_valid_def)

lemma new_ip_range_Inr:
  "new_ip_range s e = Inr r \<longleftrightarrow>
     bit_len s = bit_len e \<and> s \<le> e \<and> r = \<lparr>rstart = s, rend = e\<rparr>"
  by (auto simp: new_ip_range_def)

context addr_line begin

lemma range_addrs_line:
  assumes "range_in line r"
  shows "range_addrs r = {a \<in> line. rstart r \<le> a \<and> a \<le> rend r}"
  using assms line_convex line_plain by (auto simp: range_addrs_def range_in_def)

lemma range_addrs_vals:
  assumes "range_in line r"
  shows "range_addrs r = {a \<in> line. addr_val (rstart r) \<le> addr_val a \<and> addr_val a \<le> addr_val (rend r)}"
  using assms le_val by (auto simp: range_addrs_line range_in_def)

lemma range_addrs_nonempty: "range_in line r \<Longrightarrow> rstart r \<in> range_addrs r"
  by (simp add: range_addrs_line) (simp add: range_in_def)

end

section \<open>Iteration, in order\<close>

fun addr_seq :: "nat \<Rightarrow> addr \<Rightarrow> addr list" where
  "addr_seq 0 a = []"
| "addr_seq (Suc n) a = a # addr_seq n (addr_next a)"

text \<open>Running a loop body over a list of addresses, then a continuation.\<close>

fun yield_then ::
  "('s \<Rightarrow> addr \<Rightarrow> bool \<times> 's) \<Rightarrow> addr list \<Rightarrow> ('s \<Rightarrow> 's option) \<Rightarrow> 's \<Rightarrow> 's option" where
  "yield_then y [] k s = k s"
| "yield_then y (a # as) k s =
     (if fst (y s a) then yield_then y as k (snd (y s a)) else Some (snd (y s a)))"

lemma yield_then_append:
  "yield_then y (as @ bs) k s = yield_then y as (yield_then y bs k) s"
  by (induction as arbitrary: s) auto

lemma yield_then_cong: "(\<And>s. k s = k' s) \<Longrightarrow> yield_then y as k s = yield_then y as k' s"
  by (induction as arbitrary: s) auto

lemma yield_then_total: "(\<And>s. \<exists>t. k s = Some t) \<Longrightarrow> \<exists>t. yield_then y as k s = Some t"
  by (induction as arbitrary: s) auto

definition seq_from_to :: "addr \<Rightarrow> addr \<Rightarrow> addr list" where
  "seq_from_to a e = addr_seq (addr_val e + 1 - addr_val a) a"

text \<open>The order of the iterator: from its start to the end, then the part before the start.\<close>

definition iter_order :: "ip_range \<Rightarrow> addr \<Rightarrow> addr list" where
  "iter_order r st =
     (if st = rstart r then seq_from_to (rstart r) (rend r)
      else seq_from_to st (rend r) @ seq_from_to (rstart r) (addr_prev st))"

locale addr_walk = addr_bytes line addr_next addr_prev for line
begin

lemma addr_seq_step:
  assumes "a \<in> line" "e \<in> line" "a < e"
  shows "seq_from_to a e = a # seq_from_to (addr_next a) e"
proof -
  have "addr_val a < addr_val e" using assms less_val by simp
  then have "addr_val e + 1 - addr_val a = Suc (addr_val e - addr_val a)" by simp
  then show ?thesis using nxt_val_less [OF assms] by (simp add: seq_from_to_def)
qed

lemma seq_single: "a \<in> line \<Longrightarrow> seq_from_to a a = [a]"
  by (simp add: seq_from_to_def)

lemma seq_vals:
  assumes "a \<in> line" "e \<in> line" "a \<le> e"
  shows "set (seq_from_to a e) \<subseteq> line \<and>
    map addr_val (seq_from_to a e) = [addr_val a ..< addr_val e + 1]"
  using assms
proof (induction "addr_val e - addr_val a" arbitrary: a)
  case 0
  then have "a = e" using le_val eq_val by simp
  then show ?case using 0 by (simp add: seq_single)
next
  case (Suc n)
  then have less: "a < e" using less_val by simp
  then have nx: "addr_next a \<in> line" "addr_val (addr_next a) = addr_val a + 1"
    using Suc.prems nxt_line nxt_val_less by blast+
  moreover have "n = addr_val e - addr_val (addr_next a)" "addr_next a \<le> e"
    using Suc nx le_val by simp_all
  ultimately have "set (seq_from_to (addr_next a) e) \<subseteq> line \<and>
      map addr_val (seq_from_to (addr_next a) e) = [addr_val a + 1 ..< addr_val e + 1]"
    using Suc.hyps(1) Suc.prems by metis
  then show ?case
    using Suc.prems less nx less_val upt_conv_Cons [of "addr_val a" "addr_val e + 1"]
    by (simp add: addr_seq_step)
qed

lemma set_seq:
  assumes "a \<in> line" "e \<in> line" "a \<le> e"
  shows "set (seq_from_to a e) = {c \<in> line. addr_val a \<le> addr_val c \<and> addr_val c \<le> addr_val e}"
proof (intro set_eqI iffI)
  fix c assume c: "c \<in> set (seq_from_to a e)"
  then have "addr_val c \<in> set (map addr_val (seq_from_to a e))" by simp
  then show "c \<in> {c \<in> line. addr_val a \<le> addr_val c \<and> addr_val c \<le> addr_val e}"
    using seq_vals [OF assms] c by auto
next
  fix c assume c: "c \<in> {c \<in> line. addr_val a \<le> addr_val c \<and> addr_val c \<le> addr_val e}"
  then have "addr_val c \<in> set (map addr_val (seq_from_to a e))"
    using seq_vals [OF assms] by auto
  then obtain d where "d \<in> set (seq_from_to a e)" "addr_val d = addr_val c" by auto
  then show "c \<in> set (seq_from_to a e)" using c seq_vals [OF assms] eq_val by blast
qed

lemma distinct_seq:
  "a \<in> line \<Longrightarrow> e \<in> line \<Longrightarrow> a \<le> e \<Longrightarrow> distinct (seq_from_to a e)"
  using seq_vals by (metis distinct_map distinct_upt)

text \<open>One run of the loop up to its end address, with what follows as the continuation.\<close>

lemma iter_loop_segment:
  assumes "a \<in> line" "e \<in> line" "a \<le> e"
  shows "iter_loop r st y a e s =
    yield_then y (seq_from_to a e)
      (\<lambda>t. if st = rstart r \<or> e \<noteq> rend r then Some t
           else iter_loop r st y (rstart r) (addr_prev st) t) s"
  using assms
proof (induction "addr_val e - addr_val a" arbitrary: a s)
  case 0
  then have "a = e" using le_val eq_val by simp
  then show ?case using 0 by (simp add: seq_single iter_loop.simps [of r st y e e s])
next
  case (Suc n)
  then have less: "a < e" using less_val by simp
  then have nx: "addr_next a \<in> line" "addr_val (addr_next a) = addr_val a + 1"
    using Suc.prems nxt_line nxt_val_less by blast+
  moreover have "n = addr_val e - addr_val (addr_next a)" "addr_next a \<le> e"
    using Suc nx le_val by simp_all
  ultimately have IH: "iter_loop r st y (addr_next a) e t =
    yield_then y (seq_from_to (addr_next a) e)
      (\<lambda>t. if st = rstart r \<or> e \<noteq> rend r then Some t
           else iter_loop r st y (rstart r) (addr_prev st) t) t" for t
    using Suc.hyps(1) [of "addr_next a"] Suc.prems(2) by blast
  have "seq_from_to a e = a # seq_from_to (addr_next a) e" "a \<noteq> e"
    using Suc.prems less addr_seq_step by auto
  then show ?case by (simp add: IH iter_loop.simps [of r st y a e s])
qed

lemma range_addrs_seq:
  assumes "range_in line r"
  shows "range_addrs r = set (seq_from_to (rstart r) (rend r))"
  using assms set_seq by (simp add: range_addrs_vals range_in_def)

lemma range_count_card:
  assumes "range_in line r"
  shows "range_count r = int (card (range_addrs r))" "0 < card (range_addrs r)"
proof -
  have r: "rstart r \<in> line" "rend r \<in> line" "rstart r \<le> rend r"
    using assms by (simp_all add: range_in_def)
  have "card (range_addrs r) = length (map addr_val (seq_from_to (rstart r) (rend r)))"
    using range_addrs_seq [OF assms] distinct_seq [OF r] distinct_card by simp
  also have "\<dots> = addr_val (rend r) + 1 - addr_val (rstart r)"
    using seq_vals [OF r] by auto
  finally have c: "card (range_addrs r) = addr_val (rend r) + 1 - addr_val (rstart r)" .
  have "addr_val (rstart r) \<le> addr_val (rend r)" using r le_val by simp
  then show "range_count r = int (card (range_addrs r))" "0 < card (range_addrs r)"
    using r c slice_val by (simp_all add: range_count_def)
qed

lemma iter_start_line:
  assumes "range_in line r"
  shows "\<exists>st \<in> range_addrs r. iter_start r h = Some st \<and>
    addr_val st = addr_val (rstart r) + be_nat h mod card (range_addrs r)"
proof (cases "be_nat h = 0")
  case True
  then show ?thesis
    using range_addrs_nonempty [OF assms] by (simp add: iter_start_def)
next
  case False
  let ?n = "card (range_addrs r)" and ?v = "addr_val (rstart r) + be_nat h mod card (range_addrs r)"
  have r: "rstart r \<in> line" "rend r \<in> line" "rstart r \<le> rend r"
    using assms by (simp_all add: range_in_def)
  note c = range_count_card [OF assms]
  have "int ?n = int (addr_val (rend r)) - int (addr_val (rstart r)) + 1"
    using c r slice_val by (simp add: range_count_def)
  moreover have "be_nat h mod ?n < ?n" using c(2) by simp
  ultimately have le: "?v \<le> addr_val (rend r)" by linarith
  then have fits: "?v < 256 ^ (bit_len (rstart r) div 8)"
    using r slice_fits [of "rend r"] line_len [of "rend r" "rstart r"] by simp
  then obtain st where st: "st \<in> line"
      "addr_from_slice (be_bytes (bit_len (rstart r) div 8) ?v) = Some st" "addr_val st = ?v"
    using r slice_inv [of "rstart r" "be_bytes (bit_len (rstart r) div 8) ?v"] by auto
  have "nat (int (be_nat h) mod \<bar>range_count r\<bar>) = be_nat h mod ?n"
    using c by (simp add: nat_mod_distrib)
  then have "iter_start r h = Some st"
    using False c r fits st slice_val by (simp add: iter_start_def)
  moreover have "st \<in> range_addrs r" using range_addrs_vals [OF assms] st le by simp
  ultimately show ?thesis using st by blast
qed

lemma range_iter_order:
  assumes "range_in line r" "iter_start r h = Some st" "st \<in> range_addrs r"
  shows "range_iter r h y s = yield_then y (iter_order r st) Some s"
proof -
  have r: "rstart r \<in> line" "rend r \<in> line" "rstart r \<le> rend r"
    and st: "st \<in> line" "rstart r \<le> st" "st \<le> rend r"
    using assms range_addrs_line by (auto simp: range_in_def)
  show ?thesis
  proof (cases "st = rstart r")
    case True
    then show ?thesis
      using assms st r by (simp add: range_iter_def iter_order_def iter_loop_segment)
  next
    case False
    then have less: "rstart r < st" using st by simp
    then have p: "addr_prev st \<in> line" "addr_val (addr_prev st) + 1 = addr_val st"
      using r st prv_line prv_val_less by blast+
    have "rstart r \<le> addr_prev st" "addr_prev st \<noteq> rend r"
      using p r st less line_vals by auto
    then have "iter_loop r st y (rstart r) (addr_prev st) t =
        yield_then y (seq_from_to (rstart r) (addr_prev st)) Some t" for t
      using r p by (simp add: iter_loop_segment)
    then show ?thesis
      using assms False st r
      by (simp add: range_iter_def iter_order_def iter_loop_segment [of st] yield_then_append)
  qed
qed

lemma iter_order_once:
  assumes "range_in line r" "st \<in> range_addrs r"
  shows "distinct (iter_order r st) \<and> set (iter_order r st) = range_addrs r \<and>
    hd (iter_order r st) = st"
proof -
  have r: "rstart r \<in> line" "rend r \<in> line" "rstart r \<le> rend r"
    and st: "st \<in> line" "rstart r \<le> st" "st \<le> rend r"
    using assms range_addrs_line by (auto simp: range_in_def)
  have hd: "hd (seq_from_to st (rend r)) = st \<and> seq_from_to st (rend r) \<noteq> []"
    using st r by (cases "st = rend r") (simp_all add: seq_single addr_seq_step)
  show ?thesis
  proof (cases "st = rstart r")
    case True
    then show ?thesis
      using r hd range_addrs_seq [OF assms(1)] distinct_seq by (simp add: iter_order_def)
  next
    case False
    then have less: "rstart r < st" using st by simp
    then have p: "addr_prev st \<in> line" "addr_val (addr_prev st) + 1 = addr_val st"
      using r st prv_line prv_val_less by blast+
    then have le: "rstart r \<le> addr_prev st" "addr_val (rstart r) < addr_val st"
      using r st less line_vals by auto
    have "addr_val st \<le> addr_val (rend r)" using st r le_val by simp
    then show ?thesis
      using False r st p le hd set_seq distinct_seq range_addrs_vals [OF assms(1)]
      by (auto simp: iter_order_def)
  qed
qed

lemma range_contains_line:
  assumes "range_in line r" "a \<in> line"
  shows "range_contains r a \<longleftrightarrow> a \<in> range_addrs r \<and> addr_next (rend r) \<noteq> AddrNone"
proof -
  have r: "rstart r \<in> line" "rend r \<in> line" "rstart r \<le> rend r"
    using assms by (simp_all add: range_in_def)
  have none: "AddrNone < a" using assms none_line addr_none_least [of a] by (auto simp: le_less)
  have lower: "addr_prev (rstart r) < a \<longleftrightarrow> rstart r \<le> a"
  proof (cases "addr_prev (rstart r) \<in> line")
    case True
    then show ?thesis using r assms(2) prv_val [OF r(1)] line_vals by auto
  next
    case False
    then show ?thesis using r assms(2) none prv_line [of "rstart r" a] prv_bot [OF r(1)] by force
  qed
  have upper: "a < addr_next (rend r) \<longleftrightarrow> a \<le> rend r \<and> addr_next (rend r) \<noteq> AddrNone"
  proof (cases "addr_next (rend r) \<in> line")
    case True
    then show ?thesis using r assms(2) nxt_val [OF r(2)] line_vals none_line by auto
  next
    case False
    then show ?thesis using nxt_top [OF r(2)] none by auto
  qed
  show ?thesis
    using lower upper assms range_addrs_line by (auto simp: range_contains_def)
qed

end

interpretation walk4: addr_walk line4 by unfold_locales
interpretation walk6: addr_walk line6 by unfold_locales

end
