(* ===== verification/IP_Range_Props.thy ===== *)
theory IP_Range_Props
  imports IP_Range
begin

text \<open>
  What \<open>internal/core/ip_range.go\<close> promises: a CIDR block stands for exactly the
  addresses of its prefix, the edges are the two excluded addresses, membership and count
  agree with that set, the iterator visits each address once, and printing a range gives
  a text that parses back.
\<close>

section \<open>The host bits of a CIDR block\<close>

lemma unat_mask_host:
  "unat (push_bit h (drop_bit h (w :: 'a::len word))) = unat w div 2 ^ h * 2 ^ h"
proof -
  have unat_lt: "unat w < 2 ^ LENGTH('a)" by (rule unsigned_less)
  have "unat w div 2 ^ h * 2 ^ h \<le> unat w" by (simp add: div_times_less_eq_dividend)
  then have "unat w div 2 ^ h * 2 ^ h < 2 ^ LENGTH('a)"
    using unat_lt by (rule le_less_trans)
  moreover have "unat (push_bit h (drop_bit h w)) = take_bit LENGTH('a) (push_bit h (drop_bit h (unat w)))"
    by (simp add: unsigned_push_bit_eq unsigned_drop_bit_eq take_bit_nat_eq_self [OF unat_lt])
  ultimately show ?thesis
    by (simp add: push_bit_eq_mult drop_bit_eq_div take_bit_eq_mod)
qed

lemma byte_fill:
  assumes "c < 8" "unat (b :: byte) mod 2 ^ c = 0"
  shows "unat (b OR drop_bit (8 - c) 255) = unat b + (2 ^ c - 1)"
proof -
  have m: "unat (drop_bit (8 - c) 255 :: byte) = mask c"
  proof -
    have "c \<in> {0, 1, 2, 3, 4, 5, 6, 7}" using assms(1) by auto
    then show ?thesis by (auto simp: mask_eq_exp_minus_1)
  qed
  have "unat b AND mask c = 0" using assms(2) by (simp add: take_bit_eq_mask [symmetric] take_bit_eq_mod)
  then have "unat b OR mask c = unat b + mask c" by (rule disjunctive_add_eq_or [symmetric])
  then show ?thesis by (simp only: unsigned_or_eq m) (simp add: mask_eq_exp_minus_1)
qed

lemma fill_host_append:
  "fill_host c (int (length xs) - 1) (xs @ ys) = fill_host c (int (length xs) - 1) xs @ ys"
proof (induction xs arbitrary: c ys rule: rev_induct)
  case Nil
  then show ?case by (simp add: fill_host.simps)
next
  case (snoc x xs)
  show ?case
    using snoc [of "c - 8" "255 # ys"] snoc [of "c - 8" "[255]"]
    by (simp add: fill_host.simps [of c] list_update_append nth_append)
qed

lemma length_fill_host [simp]: "length (fill_host c j bs) = length bs"
  by (induction c j bs rule: fill_host.induct) (simp add: fill_host.simps)

lemma be_nat_fill_host:
  assumes "be_nat bs mod 2 ^ c = 0" "c \<le> 8 * length bs"
  shows "be_nat (fill_host c (int (length bs) - 1) bs) = be_nat bs + (2 ^ c - 1)"
  using assms
proof (induction bs arbitrary: c rule: rev_induct)
  case Nil
  then show ?case by (simp add: fill_host.simps)
next
  case (snoc b bs)
  have v: "be_nat (bs @ [b]) = be_nat bs * 256 + unat b" by (simp add: be_nat_append)
  have ub: "unat b < 256" using unsigned_less [of b] by simp
  show ?case
  proof (cases "8 \<le> c")
    case True
    then have p: "(2::nat) ^ c = 2 ^ (c - 8) * 256" using power_add [of "2::nat" "c - 8" 8] by simp
    then have "256 dvd be_nat (bs @ [b])" using snoc.prems by (metis dvd_trans dvd_triv_right mod_0_imp_dvd)
    then have b0: "unat b = 0" using v ub by (metis dvd_add_right_iff dvd_triv_right nat_dvd_not_less neq0_conv)
    then have "be_nat bs mod 2 ^ (c - 8) = 0" using snoc.prems v p by simp
    then have "be_nat (fill_host (c - 8) (int (length bs) - 1) bs) = be_nat bs + (2 ^ (c - 8) - 1)"
      using snoc.IH snoc.prems True by simp
    then have "be_nat (fill_host (c - 8) (int (length bs) - 1) (bs @ [255]))
        = (be_nat bs + (2 ^ (c - 8) - 1)) * 256 + 255"
      by (simp add: fill_host_append be_nat_append)
    also have "\<dots> = be_nat bs * 256 + (2 ^ c - 1)"
    proof -
      obtain k where "(2::nat) ^ (c - 8) = Suc k" by (cases "(2::nat) ^ (c - 8)") auto
      then show ?thesis unfolding p by simp
    qed
    finally show ?thesis using True v b0
      by (simp add: fill_host.simps [of c] list_update_append)
  next
    case False
    then have "be_nat (bs @ [b]) mod 2 ^ c = unat b mod 2 ^ c"
    proof -
      have "(2::nat) ^ c dvd 256" using le_imp_power_dvd [of c 8 "2::nat"] False by simp
      then show ?thesis using v by (metis dvd_mult mod_add_eq add_0 dvd_imp_mod_0 mod_mod_trivial)
    qed
    then have "unat (b OR drop_bit (8 - c) 255) = unat b + (2 ^ c - 1)"
      using byte_fill False snoc.prems by simp
    moreover obtain k where "(2::nat) ^ c = Suc k" by (cases "(2::nat) ^ c") auto
    ultimately show ?thesis using False v
      by (cases "c = 0")
        (simp_all add: fill_host.simps [of c] fill_host.simps [of 0] be_nat_append nth_append)
  qed
qed


lemma block_bounds:
  "q * 2 ^ h \<le> v \<and> v \<le> q * 2 ^ h + (2 ^ h - 1) \<longleftrightarrow> v div 2 ^ h = (q :: nat)"
proof -
  obtain k where k: "(2::nat) ^ h = Suc k" by (cases "(2::nat) ^ h") auto
  have "v div Suc k = q \<longleftrightarrow> q * Suc k \<le> v \<and> v < Suc q * Suc k"
    by (metis div_nat_eqI div_times_less_eq_dividend dividend_less_div_times lessI mult.commute
        zero_less_Suc add.commute mult_Suc)
  then show ?thesis unfolding k by auto
qed

context addr_bytes begin

text \<open>The end address of a CIDR block: the first address with the host bits set.\<close>

lemma cidr_end:
  assumes "m \<in> line" "addr_val m = q * 2 ^ h" "h \<le> bit_len m" "8 * (bit_len m div 8) = bit_len m"
    "length (as_slice m) = bit_len m div 8"
  shows "\<exists>e \<in> line. addr_from_slice (fill_host h (int (bit_len m div 8) - 1) (as_slice m)) = Some e \<and>
    addr_val e = q * 2 ^ h + (2 ^ h - 1)"
proof -
  let ?bs = "fill_host h (int (bit_len m div 8) - 1) (as_slice m)"
  have v: "be_nat ?bs = q * 2 ^ h + (2 ^ h - 1)"
    using be_nat_fill_host [of "as_slice m" h] assms slice_val by simp
  then show ?thesis
    using slice_inv [of m ?bs] assms by simp
qed

lemma cidr_range_line:
  assumes m: "prefix_masked p \<in> line" "addr_val (prefix_masked p) = q * 2 ^ host_bits p"
    and len: "bit_len (prefix_masked p) = bit_len (prefix_addr p)"
      "8 * (bit_len (prefix_addr p) div 8) = bit_len (prefix_addr p)"
  shows "\<exists>e \<in> line. addr_val e = q * 2 ^ host_bits p + (2 ^ host_bits p - 1) \<and>
    prefix_masked p \<le> e \<and>
    cidr_range p False = Inr \<lparr>rstart = prefix_masked p, rend = e\<rparr> \<and>
    cidr_range p True =
      (let s' = addr_next (prefix_masked p); e' = addr_prev e in
       if \<not> is_valid s' \<or> \<not> is_valid e' \<or> e' < s' then Inl NoUsableAddresses
       else new_ip_range s' e')"
proof -
  let ?h = "host_bits p" and ?m = "prefix_masked p"
  have "?h \<le> bit_len ?m" using len by (simp add: host_bits_def)
  then obtain e where e: "e \<in> line" "addr_val e = q * 2 ^ ?h + (2 ^ ?h - 1)"
      "addr_from_slice (fill_host ?h (int (bit_len ?m div 8) - 1) (as_slice ?m)) = Some e"
    using cidr_end [OF m] len slice_len m(1) by metis
  moreover have "?m \<le> e"
    using m(1) e(1) by (subst le_val) (simp_all only: e(2) m(2) le_add1)
  moreover have "bit_len e = bit_len ?m" using e m line_len by blast
  ultimately show ?thesis
    using len by (auto simp: cidr_range_def host_bits_def new_ip_range_def Let_def)
qed

end

section \<open>CIDR blocks\<close>

lemma prefix_masked_val:
  assumes "prefix_valid p"
  shows "addr_val (prefix_masked p) = addr_val (prefix_addr p) div 2 ^ host_bits p * 2 ^ host_bits p"
    and "bit_len (prefix_masked p) = bit_len (prefix_addr p)"
    and "prefix_masked p \<in> line4 \<or> prefix_masked p \<in> line6"
    and "8 * (bit_len (prefix_addr p) div 8) = bit_len (prefix_addr p)"
  using assms
  by (cases "prefix_addr p"; simp add: prefix_masked_def prefix_valid_def is_valid_def unat_mask_host)+

lemma prefix_contains_iff:
  assumes "prefix_valid p"
  shows "prefix_contains p a \<longleftrightarrow>
    plain a \<and> bit_len a = bit_len (prefix_addr p) \<and>
    addr_val a div 2 ^ host_bits p = addr_val (prefix_addr p) div 2 ^ host_bits p"
  using assms by (auto simp: prefix_contains_def plain_def)

context addr_walk begin

lemma cidr_block:
  assumes p: "prefix_valid p" and m: "prefix_masked p \<in> line"
  shows "\<exists>e. range_in line \<lparr>rstart = prefix_masked p, rend = e\<rparr> \<and>
    cidr_range p False = Inr \<lparr>rstart = prefix_masked p, rend = e\<rparr> \<and>
    range_addrs \<lparr>rstart = prefix_masked p, rend = e\<rparr> = {a. prefix_contains p a} \<and>
    addr_val e = addr_val (prefix_masked p) + (2 ^ host_bits p - 1) \<and>
    cidr_range p True =
      (let s' = addr_next (prefix_masked p); e' = addr_prev e in
       if \<not> is_valid s' \<or> \<not> is_valid e' \<or> e' < s' then Inl NoUsableAddresses
       else new_ip_range s' e')"
proof -
  let ?h = "host_bits p" and ?m = "prefix_masked p"
  let ?q = "addr_val (prefix_addr p) div 2 ^ host_bits p"
  note mv = prefix_masked_val [OF p]
  obtain e where e: "e \<in> line" "addr_val e = ?q * 2 ^ ?h + (2 ^ ?h - 1)" "?m \<le> e"
      "cidr_range p False = Inr \<lparr>rstart = ?m, rend = e\<rparr>"
      "cidr_range p True = (let s' = addr_next ?m; e' = addr_prev e in
         if \<not> is_valid s' \<or> \<not> is_valid e' \<or> e' < s' then Inl NoUsableAddresses
         else new_ip_range s' e')"
    using cidr_range_line [OF m mv(1) mv(2) mv(4)] by blast
  have r: "range_in line \<lparr>rstart = ?m, rend = e\<rparr>" using m e by (simp add: range_in_def)
  have "range_addrs \<lparr>rstart = ?m, rend = e\<rparr> =
      {a \<in> line. ?q * 2 ^ ?h \<le> addr_val a \<and> addr_val a \<le> ?q * 2 ^ ?h + (2 ^ ?h - 1)}"
    using range_addrs_vals [OF r] e(2) mv(1) by (simp only: ip_range.simps)
  also have "\<dots> = {a. prefix_contains p a}"
    using line_len_iff [OF m] line_plain mv(2) by (auto simp only: block_bounds prefix_contains_iff [OF p])
  finally show ?thesis using e r mv(1) by metis
qed

lemma cidr_edges_line:
  assumes m: "m \<in> line" "e \<in> line" "addr_val e = addr_val m + (2 ^ h - 1)"
  shows "(let s' = addr_next m; e' = addr_prev e in
       if \<not> is_valid s' \<or> \<not> is_valid e' \<or> e' < s' then Inl NoUsableAddresses
       else new_ip_range s' e') =
    (if h \<le> 1 then Inl NoUsableAddresses
     else Inr \<lparr>rstart = addr_next m, rend = addr_prev e\<rparr>)"
    and "1 < h \<Longrightarrow> range_in line \<lparr>rstart = addr_next m, rend = addr_prev e\<rparr> \<and>
      range_addrs \<lparr>rstart = addr_next m, rend = addr_prev e\<rparr> =
      range_addrs \<lparr>rstart = m, rend = e\<rparr> - {m, e}"
proof -
  have small: "addr_prev e < addr_next m"
    if h: "h \<le> 1" "addr_next m \<noteq> AddrNone" "addr_prev e \<noteq> AddrNone"
  proof -
    have l: "addr_next m \<in> line" "addr_prev e \<in> line"
      using h m nxt_top prv_bot by blast+
    have "h = 0 \<or> h = 1" using h(1) by linarith
    then have "addr_val e \<le> addr_val m + 1" using m(3) by auto
    then show ?thesis using l m nxt_val prv_val [of e] less_val by auto
  qed
  have big: "addr_next m \<in> line \<and> addr_prev e \<in> line \<and> addr_val (addr_next m) = addr_val m + 1 \<and>
      addr_val (addr_prev e) + 1 = addr_val e \<and> addr_next m \<le> addr_prev e" if h: "1 < h"
  proof -
    have "(2::nat) ^ 2 \<le> 2 ^ h" using h by (intro power_increasing) auto
    then have ge: "addr_val m + 3 \<le> addr_val e" using m(3) by simp
    then have "m < e" using m less_val by simp
    then have "addr_next m \<in> line \<and> addr_prev e \<in> line \<and> addr_val (addr_next m) = addr_val m + 1 \<and>
      addr_val (addr_prev e) + 1 = addr_val e"
      using m nxt_line prv_line nxt_val_less prv_val_less by blast
    then show ?thesis using ge le_val by auto
  qed
  show "(let s' = addr_next m; e' = addr_prev e in
       if \<not> is_valid s' \<or> \<not> is_valid e' \<or> e' < s' then Inl NoUsableAddresses
       else new_ip_range s' e') =
    (if h \<le> 1 then Inl NoUsableAddresses
     else Inr \<lparr>rstart = addr_next m, rend = addr_prev e\<rparr>)"
  proof (cases "h \<le> 1")
    case True
    then show ?thesis using small by (auto simp: is_valid_def Let_def)
  next
    case False
    then have b: "addr_next m \<in> line" "addr_prev e \<in> line" "addr_next m \<le> addr_prev e"
      using big by simp_all
    then have "is_valid (addr_next m)" "is_valid (addr_prev e)"
      using none_line by (auto simp: is_valid_def)
    moreover have "bit_len (addr_next m) = bit_len (addr_prev e)" using b line_len by blast
    ultimately show ?thesis using False b by (simp add: new_ip_range_def not_less Let_def)
  qed
  assume h: "1 < h"
  note b = big [OF h]
  have "m \<le> e" using m(1,2) le_val by (simp only: m(3) le_add1)
  then have r: "range_in line \<lparr>rstart = addr_next m, rend = addr_prev e\<rparr>"
      "range_in line \<lparr>rstart = m, rend = e\<rparr>"
    using b m by (simp_all add: range_in_def)
  moreover have "range_addrs \<lparr>rstart = addr_next m, rend = addr_prev e\<rparr> =
      range_addrs \<lparr>rstart = m, rend = e\<rparr> - {m, e}"
    using r b m eq_val by (auto simp: range_addrs_vals)
  ultimately show "range_in line \<lparr>rstart = addr_next m, rend = addr_prev e\<rparr> \<and>
      range_addrs \<lparr>rstart = addr_next m, rend = addr_prev e\<rparr> =
      range_addrs \<lparr>rstart = m, rend = e\<rparr> - {m, e}" by blast
qed

end

lemma cidr_block_exact:
  assumes "prefix_valid p"
  shows "\<exists>r. cidr_range p False = Inr r \<and> wf_range r \<and> range_addrs r = {a. prefix_contains p a}"
  using prefix_masked_val(3) [OF assms] walk4.cidr_block [OF assms] walk6.cidr_block [OF assms]
  by (fastforce simp: wf_range_def)

text \<open>C20: For a valid prefix, the CIDR branch of ParseIPRange without the edge exclusion
  succeeds, and the range holds exactly the addresses Prefix.Contains accepts: the byte loop
  that fills the host bits computes the last address of the block.\<close>

theorem cidr_range_exact:
  assumes "prefix_valid p"
  shows "\<exists>r. cidr_range p False = Inr r \<and> wf_range r \<and> range_addrs r = {a. prefix_contains p a}"
  using cidr_block_exact [OF assms] .

theorem cidr_range_exact_witness:
  "\<exists>r. cidr_range (Prefix (Addr4 0x0a010203) 22) False = Inr r \<and> wf_range r \<and>
     range_addrs r = {a. prefix_contains (Prefix (Addr4 0x0a010203) 22) a}"
  by (rule cidr_range_exact) (simp add: prefix_valid_def is_valid_def)

lemma cidr_block_edges:
  assumes "prefix_valid p"
  shows "if host_bits p \<le> 1 then cidr_range p True = Inl NoUsableAddresses
    else \<exists>r0 r. cidr_range p False = Inr r0 \<and> cidr_range p True = Inr r \<and> wf_range r \<and>
      range_addrs r = {a. prefix_contains p a} - {rstart r0, rend r0}"
proof -
  have "(if host_bits p \<le> 1 then cidr_range p True = Inl NoUsableAddresses
    else \<exists>r0 r. cidr_range p False = Inr r0 \<and> cidr_range p True = Inr r \<and> range_in L r \<and>
      range_addrs r = {a. prefix_contains p a} - {rstart r0, rend r0})"
    if walk: "addr_walk L" and m: "prefix_masked p \<in> L" for L
  proof -
    obtain e where e: "range_in L \<lparr>rstart = prefix_masked p, rend = e\<rparr>"
        "cidr_range p False = Inr \<lparr>rstart = prefix_masked p, rend = e\<rparr>"
        "range_addrs \<lparr>rstart = prefix_masked p, rend = e\<rparr> = {a. prefix_contains p a}"
        "addr_val e = addr_val (prefix_masked p) + (2 ^ host_bits p - 1)"
        "cidr_range p True =
          (let s' = addr_next (prefix_masked p); e' = addr_prev e in
           if \<not> is_valid s' \<or> \<not> is_valid e' \<or> e' < s' then Inl NoUsableAddresses
           else new_ip_range s' e')"
      using addr_walk.cidr_block [OF walk assms m] by blast
    then have "e \<in> L" by (simp add: range_in_def)
    note edges = addr_walk.cidr_edges_line [OF walk m this e(4)]
    show ?thesis using e edges by (auto simp: not_le)
  qed
  then show ?thesis
    using prefix_masked_val(3) [OF assms] walk4.addr_walk_axioms walk6.addr_walk_axioms
    unfolding wf_range_def by metis
qed

lemma cidr_range_wf: "prefix_valid p \<Longrightarrow> cidr_range p ex = Inr r \<Longrightarrow> wf_range r"
  using cidr_block_exact [of p] cidr_block_edges [of p] by (cases ex) (auto split: if_splits)

text \<open>With the edges excluded, a block of at most two addresses is refused, and any larger
  block loses exactly its first and its last address.\<close>

theorem cidr_range_edges:
  assumes "prefix_valid p"
  shows "if host_bits p \<le> 1 then cidr_range p True = Inl NoUsableAddresses
    else \<exists>r0 r. cidr_range p False = Inr r0 \<and> cidr_range p True = Inr r \<and> wf_range r \<and>
      range_addrs r = {a. prefix_contains p a} - {rstart r0, rend r0}"
  using cidr_block_edges [OF assms] .

theorem cidr_range_edges_witness:
  "\<exists>r0 r. cidr_range (Prefix (Addr4 0x0a000000) 30) False = Inr r0 \<and>
     cidr_range (Prefix (Addr4 0x0a000000) 30) True = Inr r \<and> wf_range r \<and>
     range_addrs r = {a. prefix_contains (Prefix (Addr4 0x0a000000) 30) a} - {rstart r0, rend r0}"
  using cidr_range_edges [of "Prefix (Addr4 0x0a000000) 30"]
  by (simp add: prefix_valid_def is_valid_def host_bits_def)

section \<open>Membership, count and iteration\<close>

text \<open>C39: Contains, for a range and an address of the same family: exactly the addresses of the
  range, except that a range which ends at the last address of its family contains nothing,
  because Next of that address is the zero Addr, which is below every address.\<close>

theorem range_contains_exact:
  assumes "wf_range r" "plain a" "bit_len a = bit_len (rstart r)"
  shows "range_contains r a \<longleftrightarrow> a \<in> range_addrs r \<and> addr_next (rend r) \<noteq> AddrNone"
proof -
  have "range_contains r a \<longleftrightarrow> a \<in> range_addrs r \<and> addr_next (rend r) \<noteq> AddrNone"
    if "addr_walk L" "range_in L r" for L
    using that assms addr_walk.range_contains_line [OF that] addr_bytes.line_len_iff
    by (metis addr_walk.axioms range_in_def)
  then show ?thesis
    using assms(1) walk4.addr_walk_axioms walk6.addr_walk_axioms unfolding wf_range_def by blast
qed

theorem range_contains_exact_witness:
  "range_contains \<lparr>rstart = Addr4 5, rend = Addr4 9\<rparr> (Addr4 9)"
  using range_contains_exact [of "\<lparr>rstart = Addr4 5, rend = Addr4 9\<rparr>" "Addr4 9"]
  by (simp add: wf_range_iff plain_def is_valid_def range_addrs_def)

text \<open>The count of a range is the number of its addresses, and it is positive.\<close>

theorem range_count_exact:
  assumes "wf_range r"
  shows "range_count r = int (card (range_addrs r)) \<and> 0 < range_count r"
  using assms walk4.range_count_card walk6.range_count_card by (auto simp: wf_range_def)

theorem range_count_exact_witness:
  "range_count \<lparr>rstart = Addr4 5, rend = Addr4 9\<rparr> =
     int (card (range_addrs \<lparr>rstart = Addr4 5, rend = Addr4 9\<rparr>))"
  using range_count_exact [of "\<lparr>rstart = Addr4 5, rend = Addr4 9\<rparr>"]
  by (simp add: wf_range_iff plain_def is_valid_def)

text \<open>C19: The iterator of a well-formed range, for every start hash and every loop body, does not
  panic and ends: it yields each address of the range exactly once, first the address at the
  offset hash mod count, until the body stops it.\<close>

theorem range_iter_once:
  assumes "wf_range r"
  shows "\<exists>st \<in> range_addrs r. iter_start r h = Some st \<and>
    addr_val st = addr_val (rstart r) + be_nat h mod card (range_addrs r) \<and>
    (\<exists>as. hd as = st \<and> distinct as \<and> set as = range_addrs r \<and>
      (\<forall>y s. range_iter r h y (s :: 's) = yield_then y as Some s))"
proof -
  have "\<exists>st \<in> range_addrs r. iter_start r h = Some st \<and>
      addr_val st = addr_val (rstart r) + be_nat h mod card (range_addrs r) \<and>
      (\<exists>as. hd as = st \<and> distinct as \<and> set as = range_addrs r \<and>
        (\<forall>y s. range_iter r h y (s :: 's) = yield_then y as Some s))"
    if w: "addr_walk L" and r: "range_in L r" for L
  proof -
    obtain st where st: "st \<in> range_addrs r" "iter_start r h = Some st"
        "addr_val st = addr_val (rstart r) + be_nat h mod card (range_addrs r)"
      using addr_walk.iter_start_line [OF w r] by blast
    have "\<forall>y s. range_iter r h y (s :: 's) = yield_then y (iter_order r st) Some s"
      by (intro allI) (rule addr_walk.range_iter_order [OF w r st(2) st(1)])
    then show ?thesis
      using st addr_walk.iter_order_once [OF w r st(1)]
      by (intro bexI [of _ st] conjI exI [of _ "iter_order r st"]) simp_all
  qed
  note each = this
  from assms show ?thesis unfolding wf_range_def
    by (rule disjE) (erule each [OF walk4.addr_walk_axioms] each [OF walk6.addr_walk_axioms])+
qed

theorem range_iter_once_witness:
  "\<exists>as. distinct as \<and> set as = range_addrs \<lparr>rstart = Addr4 5, rend = Addr4 9\<rparr> \<and>
     range_iter \<lparr>rstart = Addr4 5, rend = Addr4 9\<rparr> [7] (\<lambda>n a. (True, Suc n)) 0 =
     yield_then (\<lambda>n a. (True, Suc n)) as Some (0 :: nat)"
proof -
  have "wf_range \<lparr>rstart = Addr4 5, rend = Addr4 9\<rparr>"
    by (simp add: wf_range_iff plain_def is_valid_def)
  from range_iter_once [OF this, of "[7]"] obtain as where
    as: "distinct as" "set as = range_addrs \<lparr>rstart = Addr4 5, rend = Addr4 9\<rparr>"
    "\<forall>y s. range_iter \<lparr>rstart = Addr4 5, rend = Addr4 9\<rparr> [7] y (s :: nat) = yield_then y as Some s"
    by (elim bexE conjE exE) (rule that)
  then show ?thesis by (intro exI [of _ as] conjI) simp_all
qed

lemma range_iter_list:
  assumes "wf_range r"
  obtains as where "distinct as" "set as = range_addrs r"
    "range_iter r h y s = yield_then y as Some s"
proof -
  have "\<exists>as. distinct as \<and> set as = range_addrs r \<and> range_iter r h y s = yield_then y as Some s"
    if w: "addr_walk L" and r: "range_in L r" for L
    using addr_walk.iter_start_line [OF w r, of h] addr_walk.range_iter_order [OF w r]
      addr_walk.iter_order_once [OF w r] by metis
  then show ?thesis
    using assms that walk4.addr_walk_axioms walk6.addr_walk_axioms unfolding wf_range_def by metis
qed

end
