(* ===== verification/IP_Range_Set.thy ===== *)
theory IP_Range_Set
  imports IP_Range_Props
begin

text \<open>
  \<open>internal/core/ip_range_set.go\<close>: a set of addresses as two normalised range lists, one
  per family. The unexported \<open>merge\<close>, \<open>subtract\<close> and \<open>intersection\<close> are loops over
  range lists; \<open>Merge\<close>, \<open>Subtract\<close> and \<open>Intersections\<close> apply them per family.
\<close>

record ip_range_set =
  ranges4 :: "ip_range list"
  ranges6 :: "ip_range list"

section \<open>The loops over range lists\<close>

text \<open>The loop of \<open>merge\<close> over the sorted ranges: the open range and the rest.\<close>

fun merge_loop :: "ip_range \<Rightarrow> ip_range list \<Rightarrow> ip_range list" where
  "merge_loop current [] = [current]"
| "merge_loop current (next # rs) =
     (if addr_compare (rstart next) (rend current) \<le> 0 \<or> rstart next = addr_next (rend current)
      then merge_loop
        (if addr_compare (rend current) (rend next) < 0 then current\<lparr>rend := rend next\<rparr> else current) rs
      else current # merge_loop next rs)"

definition merge_ranges :: "ip_range list \<Rightarrow> ip_range list" where
  "merge_ranges rs = (case sort_key rstart rs of [] \<Rightarrow> [] | r # rest \<Rightarrow> merge_loop r rest)"

text \<open>
  The loop of \<open>subtract\<close>: the current range, the ranges of \<open>rs1\<close> after it and the
  ranges of \<open>rs2\<close> from \<open>j\<close> on.
\<close>

fun subtract_loop :: "ip_range \<Rightarrow> ip_range list \<Rightarrow> ip_range list \<Rightarrow> ip_range list" where
  "subtract_loop current rest [] = current # rest"
| "subtract_loop current rest (sub # subs) =
     (if addr_compare (rend current) (rstart sub) < 0 then [current]
      else if addr_compare (rstart current) (rstart sub) < 0
      then [\<lparr>rstart = rstart current, rend = addr_prev (rstart sub)\<rparr>]
      else []) @
     (if addr_compare (rend current) (rend sub) \<le> 0 then
        (case rest of
           [] \<Rightarrow> []
         | r # rest' \<Rightarrow>
             subtract_loop r rest'
               (if addr_compare (rend sub) (rend current) \<le> 0 then subs else sub # subs))
      else subtract_loop (current\<lparr>rstart := addr_next (rend sub)\<rparr>) rest subs)"

definition subtract_ranges :: "ip_range list \<Rightarrow> ip_range list \<Rightarrow> ip_range list" where
  "subtract_ranges rs1 rs2 =
     (case rs1 of [] \<Rightarrow> [] | r # rest \<Rightarrow> if rs2 = [] then rs1 else subtract_loop r rest rs2)"

definition overlap_of :: "ip_range \<Rightarrow> ip_range \<Rightarrow> ip_range list" where
  "overlap_of r1 r2 =
     (let start = (if addr_compare (rstart r2) (rstart r1) > 0 then rstart r2 else rstart r1);
          e = (if addr_compare (rend r2) (rend r1) < 0 then rend r2 else rend r1)
      in if addr_compare start e \<le> 0 then [\<lparr>rstart = start, rend = e\<rparr>] else [])"

fun intersect_ranges :: "ip_range list \<Rightarrow> ip_range list \<Rightarrow> ip_range list" where
  "intersect_ranges [] rs2 = []"
| "intersect_ranges (r1 # rs1) [] = []"
| "intersect_ranges (r1 # rs1) (r2 # rs2) =
     (if addr_compare (rend r1) (rstart r2) < 0 then intersect_ranges rs1 (r2 # rs2)
      else if addr_compare (rend r2) (rstart r1) < 0 then intersect_ranges (r1 # rs1) rs2
      else overlap_of r1 r2 @
        (if addr_compare (rend r1) (rend r2) \<le> 0 then intersect_ranges rs1 (r2 # rs2)
         else intersect_ranges (r1 # rs1) rs2))"

section \<open>The operations of IPRangeSet\<close>

definition empty_range_set :: ip_range_set where
  "empty_range_set = \<lparr>ranges4 = [], ranges6 = []\<rparr>"

definition of_family :: "ip_family \<Rightarrow> ip_range list \<Rightarrow> ip_range list" where
  "of_family f rs = filter (\<lambda>r. range_family r = f) rs"

definition rs_merge :: "ip_range_set \<Rightarrow> ip_range list \<Rightarrow> ip_range_set" where
  "rs_merge s rs =
     (if rs = [] then s
      else \<lparr>ranges4 = merge_ranges (ranges4 s @ of_family IPv4 rs),
            ranges6 = merge_ranges (ranges6 s @ of_family IPv6 rs)\<rparr>)"

definition new_range_set :: "ip_range list \<Rightarrow> ip_range_set" where
  "new_range_set rs = rs_merge empty_range_set rs"

definition rs_subtract :: "ip_range_set \<Rightarrow> ip_range list \<Rightarrow> ip_range_set" where
  "rs_subtract s rs =
     (if rs = [] then s
      else \<lparr>ranges4 = subtract_ranges (ranges4 s) (merge_ranges (of_family IPv4 rs)),
            ranges6 = subtract_ranges (ranges6 s) (merge_ranges (of_family IPv6 rs))\<rparr>)"

definition rs_intersections :: "ip_range_set \<Rightarrow> ip_range_set \<Rightarrow> ip_range_set" where
  "rs_intersections s t =
     \<lparr>ranges4 = intersect_ranges (ranges4 s) (ranges4 t),
      ranges6 = intersect_ranges (ranges6 s) (ranges6 t)\<rparr>"

definition has_ranges_of_family :: "ip_range_set \<Rightarrow> ip_family \<Rightarrow> bool" where
  "has_ranges_of_family s f =
     (if f = IPv4 then ranges4 s \<noteq> [] else if f = IPv6 then ranges6 s \<noteq> [] else False)"

definition all_ranges :: "ip_range_set \<Rightarrow> ip_range list" where
  "all_ranges s = ranges4 s @ ranges6 s"

definition ranges_for_family :: "ip_range_set \<Rightarrow> ip_family \<Rightarrow> ip_range list" where
  "ranges_for_family s f =
     (if f = IPv4 then ranges4 s else if f = IPv6 then ranges6 s else [])"

definition rs_count :: "ip_range_set \<Rightarrow> ip_family \<Rightarrow> int" where
  "rs_count s f = sum_list (map range_count (ranges_for_family s f))"

definition rs_contains :: "ip_range_set \<Rightarrow> addr \<Rightarrow> bool" where
  "rs_contains s ip = list_ex (\<lambda>r. range_contains r ip) (ranges_for_family s (get_ip_family ip))"

definition rs_string :: "ip_range_set \<Rightarrow> string" where
  "rs_string s = str_join '', '' (map range_string (ranges4 s) @ map range_string (ranges6 s))"

section \<open>Normal form and meaning\<close>

abbreviation lo :: "ip_range \<Rightarrow> nat" where "lo r \<equiv> addr_val (rstart r)"
abbreviation hi :: "ip_range \<Rightarrow> nat" where "hi r \<equiv> addr_val (rend r)"

definition gap_between :: "ip_range \<Rightarrow> ip_range \<Rightarrow> bool" where
  "gap_between r s \<longleftrightarrow> hi r + 1 < lo s"

definition norm_ranges :: "addr set \<Rightarrow> ip_range list \<Rightarrow> bool" where
  "norm_ranges L rs \<longleftrightarrow> (\<forall>r \<in> set rs. range_in L r) \<and> sorted_wrt gap_between rs"

definition wf_range_set :: "ip_range_set \<Rightarrow> bool" where
  "wf_range_set s \<longleftrightarrow> norm_ranges line4 (ranges4 s) \<and> norm_ranges line6 (ranges6 s)"

definition denote :: "ip_range_set \<Rightarrow> addr set" where
  "denote s = (\<Union>r \<in> set (all_ranges s). range_addrs r)"

definition covered :: "ip_range list \<Rightarrow> nat \<Rightarrow> bool" where
  "covered rs n \<longleftrightarrow> (\<exists>r \<in> set rs. lo r \<le> n \<and> n \<le> hi r)"

lemma covered_simps [simp]:
  "covered [] n \<longleftrightarrow> False"
  "covered (r # rs) n \<longleftrightarrow> (lo r \<le> n \<and> n \<le> hi r) \<or> covered rs n"
  "covered (rs @ ss) n \<longleftrightarrow> covered rs n \<or> covered ss n"
  by (auto simp: covered_def)

lemma covered_mset: "set rs = set ss \<Longrightarrow> covered rs n = covered ss n"
  by (simp add: covered_def)

lemma norm_ranges_simps [simp]:
  "norm_ranges L []"
  "norm_ranges L (r # rs) \<longleftrightarrow>
     range_in L r \<and> (\<forall>s \<in> set rs. gap_between r s) \<and> norm_ranges L rs"
  by (auto simp: norm_ranges_def)

lemma norm_ranges_append:
  "norm_ranges L (rs @ ss) \<longleftrightarrow>
     norm_ranges L rs \<and> norm_ranges L ss \<and> (\<forall>r \<in> set rs. \<forall>s \<in> set ss. gap_between r s)"
  by (auto simp: norm_ranges_def sorted_wrt_append)

end
