(* ===== verification/IP_Range_Set_Props.thy ===== *)
theory IP_Range_Set_Props
  imports IP_Range_Set
begin

text \<open>
  Correctness of \<open>internal/core/ip_range_set.go\<close> against sets of addresses. The loops are
  verified once over any \<open>addr_walk\<close>, in terms of address values; the operations of
  \<open>IPRangeSet\<close> then refine union, difference and intersection of the denoted sets. The
  locale \<open>address_set\<close> states what the pools rely on, and is interpreted on the code's model.
\<close>

section \<open>The loops\<close>

text \<open>The addresses Subtract brings back: between an excluded range and the next included one.\<close>

definition revived :: "ip_range list \<Rightarrow> ip_range list \<Rightarrow> nat \<Rightarrow> bool" where
  "revived rs subs n \<longleftrightarrow> (\<exists>sub \<in> set subs. hi sub < n \<and>
     (\<exists>c \<in> set rs. n < lo c) \<and> \<not> (\<exists>c \<in> set rs. hi sub \<le> hi c \<and> hi c < n))"

lemma revived_Nil [simp]: "\<not> revived [] subs n" "\<not> revived rs [] n"
  by (auto simp: revived_def)

lemma revived_past:
  assumes "lo c \<le> hi c" "\<forall>s \<in> set subs. hi c < hi s"
  shows "revived (c # rest) subs n \<longleftrightarrow> revived rest subs n"
  using assms by (fastforce simp: revived_def)

lemma revived_consumed:
  assumes "lo c \<le> hi c" "hi sub = hi c" 
  shows "revived (c # rest) (sub # subs) n \<longleftrightarrow> revived (c # rest) subs n"
  using assms by (fastforce simp: revived_def)

lemma revived_none: "\<forall>s \<in> set subs. n \<le> hi s \<Longrightarrow> \<not> revived rs subs n"
  by (fastforce simp: revived_def)

lemma revived_first:
  assumes "hi sub < n" "n < lo c" "n \<le> hi c" "\<forall>r \<in> set rest. hi c < hi r"
  shows "revived (c # rest) (sub # subs) n"
  using assms by (fastforce simp: revived_def)

lemma revived_after:
  assumes "hi sub \<le> hi c" "hi c < n" "lo c \<le> hi c" "hi c' = hi c" "lo c' \<le> hi c"
  shows "revived (c # rest) (sub # subs) n \<longleftrightarrow> revived (c' # rest) subs n"
  using assms by (fastforce simp: revived_def)

context addr_walk begin

lemma range_in_vals: "range_in line r \<Longrightarrow> lo r \<le> hi r"
  unfolding range_in_def using le_val by blast

lemma merge_join:
  assumes "range_in line c" "range_in line n" "lo c \<le> lo n"
  shows "(rstart n \<le> rend c \<or> rstart n = addr_next (rend c)) \<longleftrightarrow> lo n \<le> hi c + 1"
    and "rend c < rend n \<longleftrightarrow> hi c < hi n"
  using assms le_val less_val eq_nxt_iff by (auto simp: range_in_def)

lemma merge_loop_spec:
  assumes "range_in line c" "\<forall>r \<in> set rs. range_in line r" "sorted (map lo (c # rs))"
  shows "norm_ranges line (merge_loop c rs) \<and>
    (\<forall>n. covered (merge_loop c rs) n \<longleftrightarrow> covered (c # rs) n) \<and>
    (\<forall>r \<in> set (merge_loop c rs). lo c \<le> lo r)"
  using assms
proof (induction c rs rule: merge_loop.induct)
  case (1 c)
  then show ?case by simp
next
  case (2 c n rs)
  have inl: "range_in line n" and le: "lo c \<le> lo n" and cn: "lo c \<le> hi c" "lo n \<le> hi n"
    using 2 range_in_vals by auto
  note j = merge_join [OF "2.prems"(1) inl le]
  let ?c = "if addr_compare (rend c) (rend n) < 0 then c\<lparr>rend := rend n\<rparr> else c"
  show ?case
  proof (cases "lo n \<le> hi c + 1")
    case True
    then have cond: "addr_compare (rstart n) (rend c) \<le> 0 \<or> rstart n = addr_next (rend c)"
      using j by simp
    have c': "range_in line ?c" "lo ?c = lo c" "hi ?c = max (hi c) (hi n)"
      using 2 inl j cn by (auto simp: range_in_def le_val)
    have "sorted (map lo (?c # rs))" using "2.prems" c' by auto
    then have IH: "norm_ranges line (merge_loop ?c rs)"
        "\<And>k. covered (merge_loop ?c rs) k \<longleftrightarrow> covered (?c # rs) k"
        "\<forall>r \<in> set (merge_loop ?c rs). lo ?c \<le> lo r"
      using "2.IH"(1) [OF cond c'(1)] "2.prems" by auto
    have eq: "merge_loop c (n # rs) = merge_loop ?c rs" using cond by (simp only: merge_loop.simps if_True)
    have "covered (?c # rs) k \<longleftrightarrow> covered (c # n # rs) k" for k
      using c' True cn le by (auto simp: max_def)
    then show ?thesis using IH c'(2) unfolding eq by simp
  next
    case False
    then have cond: "\<not> (addr_compare (rstart n) (rend c) \<le> 0 \<or> rstart n = addr_next (rend c))"
      using j by simp
    then have IH: "norm_ranges line (merge_loop n rs)"
        "\<And>k. covered (merge_loop n rs) k \<longleftrightarrow> covered (n # rs) k"
        "\<forall>r \<in> set (merge_loop n rs). lo n \<le> lo r"
      using "2.IH"(2) [OF cond inl] "2.prems" by auto
    have eq: "merge_loop c (n # rs) = c # merge_loop n rs" using cond by simp
    show ?thesis using IH "2.prems" False le unfolding eq by (force simp: gap_between_def)
  qed
qed

lemma sorted_lo: "\<forall>r \<in> set rs. range_in line r \<Longrightarrow> sorted (map rstart rs) \<Longrightarrow> sorted (map lo rs)"
  unfolding sorted_map
  by (erule sorted_wrt_mono_rel [rotated]) (auto simp: range_in_def le_val)

lemma merge_ranges_spec:
  assumes "\<forall>r \<in> set rs. range_in line r"
  shows "norm_ranges line (merge_ranges rs) \<and> (\<forall>n. covered (merge_ranges rs) n \<longleftrightarrow> covered rs n)"
proof (cases "sort_key rstart rs")
  case Nil
  then have "rs = []" by (metis length_0_conv length_sort)
  then show ?thesis by (simp add: merge_ranges_def)
next
  case (Cons c cs)
  then have s: "set (c # cs) = set rs" by (metis set_sort)
  have "sorted (map lo (c # cs))"
    using sorted_lo [of "c # cs"] sorted_sort_key [of rstart rs] assms Cons s by metis
  then have "norm_ranges line (merge_loop c cs) \<and> (\<forall>n. covered (merge_loop c cs) n \<longleftrightarrow> covered (c # cs) n)"
    using merge_loop_spec [of c cs] assms s by auto
  then show ?thesis using Cons covered_mset [OF s] by (simp add: merge_ranges_def)
qed

lemma sub_vals:
  assumes "range_in line c" "range_in line s"
  shows "rend c < rstart s \<longleftrightarrow> hi c < lo s" "rstart c < rstart s \<longleftrightarrow> lo c < lo s"
    "rend c \<le> rend s \<longleftrightarrow> hi c \<le> hi s" "rend s \<le> rend c \<longleftrightarrow> hi s \<le> hi c"
    "lo c < lo s \<Longrightarrow> addr_prev (rstart s) \<in> line \<and> addr_val (addr_prev (rstart s)) = lo s - 1"
    "hi s < hi c \<Longrightarrow> addr_next (rend s) \<in> line \<and> addr_val (addr_next (rend s)) = hi s + 1"
proof -
  have l: "rstart c \<in> line" "rend c \<in> line" "rstart s \<in> line" "rend s \<in> line"
    using assms by (simp_all add: range_in_def)
  show "rend c < rstart s \<longleftrightarrow> hi c < lo s" "rstart c < rstart s \<longleftrightarrow> lo c < lo s"
    "rend c \<le> rend s \<longleftrightarrow> hi c \<le> hi s" "rend s \<le> rend c \<longleftrightarrow> hi s \<le> hi c"
    using l less_val le_val by simp_all
  show "addr_prev (rstart s) \<in> line \<and> addr_val (addr_prev (rstart s)) = lo s - 1" if "lo c < lo s"
    using that l less_val prv_line prv_val_less by (metis add_diff_cancel_right')
  show "addr_next (rend s) \<in> line \<and> addr_val (addr_next (rend s)) = hi s + 1" if "hi s < hi c"
    using that l less_val nxt_line nxt_val_less by metis
qed

lemma subtract_loop_spec:
  assumes "norm_ranges line (c # rest)" "norm_ranges line subs"
  shows "norm_ranges line (subtract_loop c rest subs) \<and>
    (\<forall>r \<in> set (subtract_loop c rest subs). lo c \<le> lo r \<or> (\<exists>s \<in> set subs. hi s < lo r)) \<and>
    (\<forall>n. covered (subtract_loop c rest subs) n \<longleftrightarrow>
      \<not> covered subs n \<and> (covered (c # rest) n \<or> revived (c # rest) subs n))"
  using assms
proof (induction c rest subs rule: subtract_loop.induct)
  case (1 c rest)
  then show ?case by (force simp: gap_between_def dest: range_in_vals)
next
  case (2 c rest sub subs)
  have c: "range_in line c" and sub: "range_in line sub" using 2 by simp_all
  have cv: "lo c \<le> hi c" "lo sub \<le> hi sub" using c sub range_in_vals by blast+
  have rv: "\<forall>r \<in> set rest. hi c + 1 < lo r \<and> lo r \<le> hi r"
    and sv: "\<forall>s \<in> set subs. hi sub + 1 < lo s \<and> lo s \<le> hi s"
    using 2 range_in_vals by (auto simp: gap_between_def norm_ranges_def)
  note v = sub_vals [OF c sub]
  define out where "out = (if hi c < lo sub then [c] else if lo c < lo sub
    then [\<lparr>rstart = rstart c, rend = addr_prev (rstart sub)\<rparr>] else [])"
  have out: "norm_ranges line out" "\<And>n. covered out n \<longleftrightarrow> lo c \<le> n \<and> n \<le> hi c \<and> n < lo sub"
    "\<forall>r \<in> set out. lo r = lo c \<and> hi r \<le> hi c \<and> hi r < lo sub"
    using c v cv by (auto simp: out_def range_in_def le_val)
  have nc: "\<not> covered subs n" if "n \<le> hi sub + 1" for n
    using that sv by (fastforce simp: covered_def)
  have nr: "\<not> covered rest n" if "n \<le> hi c + 1" for n
    using that rv by (fastforce simp: covered_def)
  show ?case
  proof (cases "hi c \<le> hi sub")
    case True
    show ?thesis
    proof (cases rest)
      case Nil
      then have eq: "subtract_loop c rest (sub # subs) = out" using True v by (simp add: out_def)
      have "\<not> revived [c] (sub # subs) n" for n
        using True cv sv by (fastforce simp: revived_def)
      moreover have "covered out n \<longleftrightarrow> \<not> covered (sub # subs) n \<and> covered [c] n" for n
        using nc [of n] out(2) [of n] True cv by auto
      ultimately show ?thesis using Nil out unfolding eq by simp
    next
      case (Cons r rest')
      define subs' where "subs' = (if hi sub \<le> hi c then subs else sub # subs)"
      have eq: "subtract_loop c rest (sub # subs) = out @ subtract_loop r rest' subs'"
        using True v Cons by (simp add: out_def subs'_def)
      have IH: "norm_ranges line (subtract_loop r rest' subs')"
        "\<forall>x \<in> set (subtract_loop r rest' subs'). lo r \<le> lo x \<or> (\<exists>s \<in> set subs'. hi s < lo x)"
        "\<And>n. covered (subtract_loop r rest' subs') n \<longleftrightarrow>
          \<not> covered subs' n \<and> (covered rest n \<or> revived rest subs' n)"
        using "2.IH"(1) [of r rest'] "2.prems" Cons True v by (auto simp: subs'_def)
      have sub': "\<forall>s \<in> set subs'. hi c < hi s \<and> lo sub \<le> hi s"
        using True sv cv by (auto simp: subs'_def)
      have late: "hi c + 1 < lo x" if "x \<in> set (subtract_loop r rest' subs')" for x
        using that IH(2) sub' rv Cons by fastforce
      have rev: "revived (c # rest) (sub # subs) n \<longleftrightarrow> revived rest subs' n" for n
      proof -
        have "revived (c # rest) (sub # subs) n \<longleftrightarrow> revived (c # rest) subs' n"
          using True cv(1) revived_consumed [of c sub rest subs n] by (auto simp: subs'_def)
        then show ?thesis using revived_past [of c subs' rest n] cv(1) sub' by blast
      qed
      have "covered (out @ subtract_loop r rest' subs') n \<longleftrightarrow>
          \<not> covered (sub # subs) n \<and> (covered (c # rest) n \<or> revived (c # rest) (sub # subs) n)" for n
      proof (cases "n \<le> hi c")
        case n: True
        then have "\<not> revived rest subs' n" using sub' by (intro revived_none) auto
        then show ?thesis using n True nc [of n] nr [of n] out(2) [of n] IH(3) [of n] rev [of n] by auto
      next
        case n: False
        then have "covered subs' n \<longleftrightarrow> covered (sub # subs) n"
          using True by (auto simp: subs'_def)
        then show ?thesis using n out(2) [of n] IH(3) [of n] rev [of n] by auto
      qed
      moreover have "norm_ranges line (out @ subtract_loop r rest' subs')"
        using out late IH(1) by (fastforce simp: norm_ranges_append gap_between_def)
      moreover have "\<forall>x \<in> set (out @ subtract_loop r rest' subs'). lo c \<le> lo x"
        using out(3) late cv by fastforce
      ultimately show ?thesis unfolding eq by simp
    qed
  next
    case False
    define c' where "c' = c\<lparr>rstart := addr_next (rend sub)\<rparr>"
    have eq: "subtract_loop c rest (sub # subs) = out @ subtract_loop c' rest subs"
      using False v by (simp add: out_def c'_def)
    have c': "range_in line c'" "lo c' = hi sub + 1" "hi c' = hi c"
      using False v c le_val by (auto simp: range_in_def c'_def)
    have IH: "norm_ranges line (subtract_loop c' rest subs)"
        "\<forall>x \<in> set (subtract_loop c' rest subs). lo c' \<le> lo x \<or> (\<exists>s \<in> set subs. hi s < lo x)"
        "\<And>n. covered (subtract_loop c' rest subs) n \<longleftrightarrow>
          \<not> covered subs n \<and> (covered (c' # rest) n \<or> revived (c' # rest) subs n)"
      using "2.IH"(2) "2.prems" False v c' by (auto simp: gap_between_def c'_def)
    have late: "hi sub < lo x" if "x \<in> set (subtract_loop c' rest subs)" for x
      using that IH(2) c'(2) sv by force
    have "covered (out @ subtract_loop c' rest subs) n \<longleftrightarrow>
        \<not> covered (sub # subs) n \<and> (covered (c # rest) n \<or> revived (c # rest) (sub # subs) n)" for n
    proof -
      consider "n \<le> hi sub" | "hi sub < n" "n \<le> hi c" | "hi c < n" by linarith
      then show ?thesis
      proof cases
        case 1
        then have "\<not> revived rs subs n" for rs using sv by (intro revived_none) fastforce
        moreover have "\<not> revived rs (sub # subs) n" for rs
          using 1 sv by (intro revived_none) fastforce
        ultimately show ?thesis
          using 1 False c' nc [of n] nr [of n] out(2) [of n] IH(3) [of n] by auto
      next
        case 2
        have "lo c \<le> n \<or> revived (c # rest) (sub # subs) n"
          using 2 rv revived_first [of sub n c rest subs] by fastforce
        then show ?thesis using 2 False c' cv out(2) [of n] IH(3) [of n] by auto
      next
        case 3
        then have "revived (c # rest) (sub # subs) n \<longleftrightarrow> revived (c' # rest) subs n"
          using False cv c' by (intro revived_after) simp_all
        then show ?thesis using 3 False c' out(2) [of n] IH(3) [of n] by auto
      qed
    qed
    moreover have "norm_ranges line (out @ subtract_loop c' rest subs)"
      using out late IH(1) cv by (fastforce simp: norm_ranges_append gap_between_def)
    moreover have "\<forall>x \<in> set (out @ subtract_loop c' rest subs).
        lo c \<le> lo x \<or> (\<exists>s \<in> set (sub # subs). hi s < lo x)"
      using out(3) late by force
    ultimately show ?thesis unfolding eq by simp
  qed
qed

lemma subtract_ranges_spec:
  assumes "norm_ranges line rs1" "norm_ranges line rs2"
  shows "norm_ranges line (subtract_ranges rs1 rs2) \<and>
    (\<forall>n. covered (subtract_ranges rs1 rs2) n \<longleftrightarrow>
      \<not> covered rs2 n \<and> (covered rs1 n \<or> revived rs1 rs2 n))"
  using assms subtract_loop_spec by (cases rs1) (auto simp: subtract_ranges_def)

lemma overlap_vals:
  assumes "range_in line r1" "range_in line r2" "\<not> rend r1 < rstart r2" "\<not> rend r2 < rstart r1"
  shows "\<exists>r. overlap_of r1 r2 = [r] \<and> range_in line r \<and> lo r = max (lo r1) (lo r2) \<and>
    hi r = min (hi r1) (hi r2)"
  using assms by (auto simp: overlap_of_def range_in_def less_val le_val Let_def max_def min_def)

lemma intersect_ranges_spec:
  assumes "norm_ranges line xs" "norm_ranges line ys"
  shows "norm_ranges line (intersect_ranges xs ys) \<and>
    (\<forall>r \<in> set (intersect_ranges xs ys). (\<exists>x \<in> set xs. lo x \<le> lo r) \<and> (\<exists>y \<in> set ys. lo y \<le> lo r)) \<and>
    (\<forall>n. covered (intersect_ranges xs ys) n \<longleftrightarrow> covered xs n \<and> covered ys n)"
  using assms
proof (induction xs ys rule: intersect_ranges.induct)
  case (3 r1 rs1 r2 rs2)
  have r: "range_in line r1" "range_in line r2" using 3 by simp_all
  have rv: "lo r1 \<le> hi r1" "lo r2 \<le> hi r2" using r range_in_vals by blast+
  have v1: "\<forall>x \<in> set rs1. hi r1 + 1 < lo x" and v2: "\<forall>y \<in> set rs2. hi r2 + 1 < lo y"
    using 3 by (auto simp: gap_between_def)
  have n1: "\<not> covered rs1 n" if "n \<le> hi r1 + 1" for n using that v1 by (fastforce simp: covered_def)
  have n2: "\<not> covered rs2 n" if "n \<le> hi r2 + 1" for n using that v2 by (fastforce simp: covered_def)
  note v = sub_vals(1) [OF r] sub_vals(1) [OF r(2) r(1)] sub_vals(3) [OF r]
  consider (before) "hi r1 < lo r2" | (after) "\<not> hi r1 < lo r2" "hi r2 < lo r1"
    | (first) "\<not> hi r1 < lo r2" "\<not> hi r2 < lo r1" "hi r1 \<le> hi r2"
    | (second) "\<not> hi r1 < lo r2" "\<not> hi r2 < lo r1" "hi r2 < hi r1" by linarith
  then show ?case
  proof cases
    case before
    moreover have "covered (r1 # rs1) n \<and> covered (r2 # rs2) n \<longleftrightarrow>
        covered rs1 n \<and> covered (r2 # rs2) n" for n
      using before rv n2 [of n] by auto
    ultimately show ?thesis using "3.IH"(1) "3.prems" v by simp
  next
    case after
    moreover have "covered (r1 # rs1) n \<and> covered (r2 # rs2) n \<longleftrightarrow>
        covered (r1 # rs1) n \<and> covered rs2 n" for n
      using after rv n1 [of n] by auto
    ultimately show ?thesis using "3.IH"(2) "3.prems" v by simp
  next
    case first
    obtain r where o: "overlap_of r1 r2 = [r]" "range_in line r" "lo r = max (lo r1) (lo r2)"
        "hi r = min (hi r1) (hi r2)"
      using overlap_vals [OF r] first v by auto
    have IH: "norm_ranges line (intersect_ranges rs1 (r2 # rs2))"
        "\<forall>x \<in> set (intersect_ranges rs1 (r2 # rs2)).
          (\<exists>a \<in> set rs1. lo a \<le> lo x) \<and> (\<exists>b \<in> set (r2 # rs2). lo b \<le> lo x)"
        "\<And>n. covered (intersect_ranges rs1 (r2 # rs2)) n \<longleftrightarrow> covered rs1 n \<and> covered (r2 # rs2) n"
      using "3.IH"(3) "3.prems" first v by auto
    have eq: "intersect_ranges (r1 # rs1) (r2 # rs2) = r # intersect_ranges rs1 (r2 # rs2)"
      using first v o by simp
    have "covered (r # intersect_ranges rs1 (r2 # rs2)) n \<longleftrightarrow>
        covered (r1 # rs1) n \<and> covered (r2 # rs2) n" for n
      using o first IH(3) [of n] n1 [of n] n2 [of n] by auto
    moreover have "\<forall>x \<in> set (intersect_ranges rs1 (r2 # rs2)). gap_between r x"
      using IH(2) v1 o first by (fastforce simp: gap_between_def)
    moreover have "lo r1 \<le> lo r" "lo r2 \<le> lo r" using o by simp_all
    ultimately show ?thesis using IH(1,2) o(2) unfolding eq by auto
  next
    case second
    obtain r where o: "overlap_of r1 r2 = [r]" "range_in line r" "lo r = max (lo r1) (lo r2)"
        "hi r = min (hi r1) (hi r2)"
      using overlap_vals [OF r] second v by auto
    have IH: "norm_ranges line (intersect_ranges (r1 # rs1) rs2)"
        "\<forall>x \<in> set (intersect_ranges (r1 # rs1) rs2).
          (\<exists>a \<in> set (r1 # rs1). lo a \<le> lo x) \<and> (\<exists>b \<in> set rs2. lo b \<le> lo x)"
        "\<And>n. covered (intersect_ranges (r1 # rs1) rs2) n \<longleftrightarrow> covered (r1 # rs1) n \<and> covered rs2 n"
      using "3.IH"(4) "3.prems" second v by auto
    have eq: "intersect_ranges (r1 # rs1) (r2 # rs2) = r # intersect_ranges (r1 # rs1) rs2"
      using second v o by simp
    have "covered (r # intersect_ranges (r1 # rs1) rs2) n \<longleftrightarrow>
        covered (r1 # rs1) n \<and> covered (r2 # rs2) n" for n
      using o second IH(3) [of n] n1 [of n] n2 [of n] by auto
    moreover have "\<forall>x \<in> set (intersect_ranges (r1 # rs1) rs2). gap_between r x"
      using IH(2) v2 o second by (fastforce simp: gap_between_def)
    moreover have "lo r1 \<le> lo r" "lo r2 \<le> lo r" using o by simp_all
    ultimately show ?thesis using IH(1,2) o(2) unfolding eq by auto
  qed
qed auto

text \<open>The addresses of a list of ranges, by value.\<close>

lemma addrs_covered:
  assumes "\<forall>r \<in> set rs. range_in line r"
  shows "(\<Union>r \<in> set rs. range_addrs r) = {a \<in> line. covered rs (addr_val a)}"
  using assms range_addrs_vals by (auto simp: covered_def)

lemma covered_line:
  assumes "\<forall>r \<in> set rs. range_in line r" "covered rs n"
  shows "\<exists>a \<in> line. addr_val a = n"
proof -
  obtain r where r: "rstart r \<in> line" "rend r \<in> line" "rstart r \<le> rend r" "lo r \<le> n" "n \<le> hi r"
    using assms by (auto simp: covered_def range_in_def)
  then have "n \<in> set (map addr_val (seq_from_to (rstart r) (rend r)))"
    using seq_vals by auto
  then show ?thesis using r seq_vals by (metis (no_types, lifting) image_iff set_map subsetD)
qed

lemma ranges_count_card:
  assumes "norm_ranges line rs"
  shows "sum_list (map range_count rs) = int (card (\<Union>r \<in> set rs. range_addrs r)) \<and>
    finite (\<Union>r \<in> set rs. range_addrs r)"
  using assms
proof (induction rs)
  case (Cons r rs)
  have r: "range_in line r" and rs: "\<forall>s \<in> set rs. range_in line s"
    and gap: "\<forall>s \<in> set rs. gap_between r s"
    using Cons.prems by (auto simp: norm_ranges_def)
  have fin: "finite (range_addrs r)" using range_count_card(2) [OF r] card_gt_0_iff by blast
  have "range_addrs r \<inter> (\<Union>s \<in> set rs. range_addrs s) = {}"
    using range_addrs_vals [OF r] range_addrs_vals rs gap by (fastforce simp: gap_between_def)
  then show ?case
    using Cons range_count_card(1) [OF r] fin by (simp add: card_Un_disjoint)
qed simp

lemma norm_unique:
  assumes "norm_ranges line xs" "norm_ranges line ys" "\<And>n. covered xs n \<longleftrightarrow> covered ys n"
  shows "xs = ys"
  using assms
proof (induction xs arbitrary: ys)
  case Nil
  show ?case
  proof (cases ys)
    case (Cons y ys')
    then have "lo y \<le> hi y" using Nil.prems(2) range_in_vals by simp
    then have "covered ys (lo y)" using Cons by simp
    then show ?thesis using Nil.prems(3) by simp
  qed simp
next
  case (Cons x xs)
  have x: "range_in line x" "lo x \<le> hi x" "\<forall>z \<in> set xs. hi x + 1 < lo z"
    using Cons.prems range_in_vals by (auto simp: gap_between_def)
  then have cx: "covered (x # xs) (lo x)" by simp
  then obtain y ys' where ys: "ys = y # ys'" using Cons.prems(3) by (cases ys) auto
  have y: "range_in line y" "lo y \<le> hi y" "\<forall>z \<in> set ys'. hi y + 1 < lo z"
    using Cons.prems range_in_vals ys by (auto simp: gap_between_def)
  have nx: "covered xs n \<Longrightarrow> hi x + 1 < n" and ny: "covered ys' n \<Longrightarrow> hi y + 1 < n" for n
    using x y by (force simp: covered_def)+
  have c: "(lo x \<le> n \<and> n \<le> hi x \<or> covered xs n) \<longleftrightarrow> (lo y \<le> n \<and> n \<le> hi y \<or> covered ys' n)" for n
    using Cons.prems(3) [of n] ys by simp
  have lo: "lo x = lo y"
    using c [of "lo x"] c [of "lo y"] nx [of "lo y"] ny [of "lo x"] x(2) y(2) by linarith
  have hi: "hi x = hi y"
    using c [of "hi x + 1"] c [of "hi y + 1"] nx [of "hi x + 1"] ny [of "hi y + 1"]
      nx [of "hi y + 1"] ny [of "hi x + 1"] x(2) y(2) lo by linarith
  have "x = y" using lo hi x(1) y(1) eq_val by (simp add: range_in_def)
  moreover have "covered xs n \<longleftrightarrow> covered ys' n" for n
    using c [of n] nx [of n] ny [of n] lo hi by linarith
  ultimately show ?case using Cons ys by simp
qed

end

section \<open>The sets\<close>

lemma norm_ranges_in: "norm_ranges L rs \<Longrightarrow> \<forall>r \<in> set rs. range_in L r"
  by (simp add: norm_ranges_def)

lemma of_family_in:
  assumes "\<forall>r \<in> set rs. wf_range r"
  shows "\<forall>r \<in> set (of_family IPv4 rs). range_in line4 r"
    and "\<forall>r \<in> set (of_family IPv6 rs). range_in line6 r"
  using assms
  by (auto simp: of_family_def range_family_def get_ip_family_def wf_range_def range_in_def
      IPv4_def IPv6_def split: if_splits)

lemma of_family_split:
  assumes "\<forall>r \<in> set rs. wf_range r"
  shows "set rs = set (of_family IPv4 rs) \<union> set (of_family IPv6 rs)"
  using assms
  by (fastforce simp: of_family_def range_family_def get_ip_family_def wf_range_def range_in_def
      IPv4_def IPv6_def)

text \<open>Membership in a set, by family and value.\<close>

definition mem_vals :: "ip_range list \<Rightarrow> ip_range list \<Rightarrow> addr set" where
  "mem_vals rs4 rs6 =
     {a. (a \<in> line4 \<and> covered rs4 (addr_val a)) \<or> (a \<in> line6 \<and> covered rs6 (addr_val a))}"

lemma union_mem_vals:
  assumes "\<forall>r \<in> set rs4. range_in line4 r" "\<forall>r \<in> set rs6. range_in line6 r"
  shows "(\<Union>r \<in> set rs4 \<union> set rs6. range_addrs r) = mem_vals rs4 rs6"
proof -
  have "(\<Union>r \<in> set rs4 \<union> set rs6. range_addrs r) =
      {a \<in> line4. covered rs4 (addr_val a)} \<union> {a \<in> line6. covered rs6 (addr_val a)}"
    using walk4.addrs_covered [OF assms(1)] walk6.addrs_covered [OF assms(2)] by (simp add: UN_Un)
  then show ?thesis by (auto simp: mem_vals_def)
qed

lemma denote_mem_vals: "wf_range_set s \<Longrightarrow> denote s = mem_vals (ranges4 s) (ranges6 s)"
  using union_mem_vals [of "ranges4 s" "ranges6 s"] norm_ranges_in
  unfolding denote_def all_ranges_def wf_range_set_def set_append by blast

abbreviation addrs_of :: "ip_range list \<Rightarrow> addr set" where
  "addrs_of rs \<equiv> (\<Union>r \<in> set rs. range_addrs r)"

lemma addrs_of_mem_vals:
  "\<forall>r \<in> set rs. wf_range r \<Longrightarrow>
    addrs_of rs = mem_vals (of_family IPv4 rs) (of_family IPv6 rs)"
  using union_mem_vals [OF of_family_in] of_family_split by metis

lemma merge_family:
  assumes "\<forall>r \<in> set rs. wf_range r"
  shows "norm_ranges line4 (merge_ranges (of_family IPv4 rs))"
    and "norm_ranges line6 (merge_ranges (of_family IPv6 rs))"
    and "addrs_of rs = mem_vals (merge_ranges (of_family IPv4 rs)) (merge_ranges (of_family IPv6 rs))"
  using walk4.merge_ranges_spec [OF of_family_in(1) [OF assms]]
    walk6.merge_ranges_spec [OF of_family_in(2) [OF assms]]
  by (simp_all add: addrs_of_mem_vals [OF assms] mem_vals_def)

lemma rs_merge_set:
  assumes "wf_range_set s" "\<forall>r \<in> set rs. wf_range r"
  shows "wf_range_set (rs_merge s rs)" "denote (rs_merge s rs) = denote s \<union> addrs_of rs"
proof -
  have in4: "\<forall>r \<in> set (ranges4 s @ of_family IPv4 rs). range_in line4 r"
    and in6: "\<forall>r \<in> set (ranges6 s @ of_family IPv6 rs). range_in line6 r"
    using assms of_family_in [OF assms(2)] by (auto simp: wf_range_set_def norm_ranges_def)
  note m = walk4.merge_ranges_spec [OF in4] walk6.merge_ranges_spec [OF in6]
  show wf: "wf_range_set (rs_merge s rs)"
    using m assms(1) by (simp add: rs_merge_def wf_range_set_def)
  show "denote (rs_merge s rs) = denote s \<union> addrs_of rs"
  proof (cases "rs = []")
    case False
    have "denote (rs_merge s rs) = mem_vals (ranges4 s @ of_family IPv4 rs) (ranges6 s @ of_family IPv6 rs)"
      unfolding denote_mem_vals [OF wf] using m False by (simp add: rs_merge_def mem_vals_def)
    then show ?thesis
      unfolding denote_mem_vals [OF assms(1)] addrs_of_mem_vals [OF assms(2)]
      by (auto simp: mem_vals_def)
  qed (simp add: rs_merge_def)
qed

lemma rs_intersections_set:
  assumes "wf_range_set s" "wf_range_set t"
  shows "wf_range_set (rs_intersections s t)" "denote (rs_intersections s t) = denote s \<inter> denote t"
proof -
  note i = walk4.intersect_ranges_spec [of "ranges4 s" "ranges4 t"]
    walk6.intersect_ranges_spec [of "ranges6 s" "ranges6 t"]
  show wf: "wf_range_set (rs_intersections s t)"
    using i assms by (simp add: rs_intersections_def wf_range_set_def)
  show "denote (rs_intersections s t) = denote s \<inter> denote t"
    unfolding denote_mem_vals [OF wf] denote_mem_vals [OF assms(1)] denote_mem_vals [OF assms(2)]
    using i assms by (auto simp: rs_intersections_def wf_range_set_def mem_vals_def)
qed

text \<open>
  The addresses that \<open>Subtract\<close> adds by mistake: an excluded range ends before them, no
  included range ends in between, and an included range starts after them.
\<close>

definition brought_back :: "ip_range_set \<Rightarrow> ip_range list \<Rightarrow> addr set" where
  "brought_back s rs =
     {a. (a \<in> line4 \<and> revived (ranges4 s) (merge_ranges (of_family IPv4 rs)) (addr_val a)) \<or>
         (a \<in> line6 \<and> revived (ranges6 s) (merge_ranges (of_family IPv6 rs)) (addr_val a))}"

lemma rs_subtract_set:
  assumes "wf_range_set s" "\<forall>r \<in> set rs. wf_range r"
  shows "wf_range_set (rs_subtract s rs)"
    "denote (rs_subtract s rs) = (denote s \<union> brought_back s rs) - addrs_of rs"
proof -
  note f = merge_family [OF assms(2)]
  note d = walk4.subtract_ranges_spec [OF _ f(1), of "ranges4 s"]
    walk6.subtract_ranges_spec [OF _ f(2), of "ranges6 s"]
  show wf: "wf_range_set (rs_subtract s rs)"
    using d assms(1) by (simp add: rs_subtract_def wf_range_set_def)
  show "denote (rs_subtract s rs) = (denote s \<union> brought_back s rs) - addrs_of rs"
  proof (cases "rs = []")
    case True
    then show ?thesis by (simp add: rs_subtract_def brought_back_def of_family_def merge_ranges_def)
  next
    case False
    then show ?thesis
      unfolding denote_mem_vals [OF wf] denote_mem_vals [OF assms(1)] f(3)
      using d assms(1)
      by (auto simp: rs_subtract_def wf_range_set_def mem_vals_def brought_back_def)
  qed
qed

lemma revived_inside:
  assumes "\<forall>n. covered subs n \<longrightarrow> covered rs n" "\<forall>s \<in> set subs. lo s \<le> hi s"
    "sorted_wrt gap_between rs" "revived rs subs n"
  shows "covered rs n"
proof -
  obtain s where s: "s \<in> set subs" "hi s < n" "\<forall>c \<in> set rs. hi s \<le> hi c \<longrightarrow> n \<le> hi c"
    using assms(4) by (fastforce simp: revived_def not_less)
  have "covered subs (hi s)" using s(1) assms(2) by (auto simp: covered_def)
  then have "covered rs (hi s)" using assms(1) by simp
  then obtain c where "c \<in> set rs" "lo c \<le> hi s" "hi s \<le> hi c" by (auto simp: covered_def)
  then show ?thesis using s by (force simp: covered_def)
qed

lemma brought_back_inside:
  assumes s: "wf_range_set s" and rs: "\<forall>r \<in> set rs. wf_range r" and sub: "addrs_of rs \<subseteq> denote s"
  shows "brought_back s rs \<subseteq> denote s"
proof -
  note f = merge_family [OF rs]
  have le: "mem_vals (merge_ranges (of_family IPv4 rs)) (merge_ranges (of_family IPv6 rs))
      \<subseteq> mem_vals (ranges4 s) (ranges6 s)"
    using sub unfolding denote_mem_vals [OF s] f(3) .
  have c4: "covered (ranges4 s) n" if n: "covered (merge_ranges (of_family IPv4 rs)) n" for n
  proof -
    obtain a where "a \<in> line4" "addr_val a = n"
      using walk4.covered_line [OF norm_ranges_in [OF f(1)] n] by blast
    then show ?thesis using n le by (auto simp: mem_vals_def)
  qed
  have c6: "covered (ranges6 s) n" if n: "covered (merge_ranges (of_family IPv6 rs)) n" for n
  proof -
    obtain a where "a \<in> line6" "addr_val a = n"
      using walk6.covered_line [OF norm_ranges_in [OF f(2)] n] by blast
    then show ?thesis using n le by (auto simp: mem_vals_def)
  qed
  have le4: "\<forall>r \<in> set (merge_ranges (of_family IPv4 rs)). lo r \<le> hi r"
    and le6: "\<forall>r \<in> set (merge_ranges (of_family IPv6 rs)). lo r \<le> hi r"
    using norm_ranges_in [OF f(1)] norm_ranges_in [OF f(2)] walk4.range_in_vals walk6.range_in_vals
    by blast+
  have "sorted_wrt gap_between (ranges4 s)" "sorted_wrt gap_between (ranges6 s)"
    using s by (simp_all add: wf_range_set_def norm_ranges_def)
  then have "covered (ranges4 s) n" if "revived (ranges4 s) (merge_ranges (of_family IPv4 rs)) n" for n
    using revived_inside [OF _ le4 _ that] c4 by blast
  moreover have "covered (ranges6 s) n" if "revived (ranges6 s) (merge_ranges (of_family IPv6 rs)) n" for n
    using revived_inside [OF _ le6 _ that] c6 \<open>sorted_wrt gap_between (ranges6 s)\<close> by blast
  ultimately show ?thesis
    unfolding denote_mem_vals [OF s] by (auto simp: brought_back_def mem_vals_def)
qed

lemma all_ranges_empty:
  assumes "wf_range_set s"
  shows "all_ranges s = [] \<longleftrightarrow> denote s = {}"
proof -
  have "range_addrs r \<noteq> {}" if "r \<in> set (all_ranges s)" for r
    using that assms line4.range_addrs_nonempty [of r] line6.range_addrs_nonempty [of r]
    by (fastforce simp: all_ranges_def wf_range_set_def norm_ranges_def)
  then show ?thesis by (auto simp: denote_def)
qed

lemma empty_set_wf: "wf_range_set empty_range_set" "denote empty_range_set = {}"
  by (simp_all add: empty_range_set_def wf_range_set_def denote_def all_ranges_def)

section \<open>The contract of an address set\<close>

text \<open>
  What the pools use: union, intersection, and a subtraction that never leaves an excluded
  address and never drops another one, and is the difference when the exclusions lie inside.
\<close>

locale address_set =
  fixes empty :: "'s" and merge subtract :: "'s \<Rightarrow> ip_range list \<Rightarrow> 's"
    and inter :: "'s \<Rightarrow> 's \<Rightarrow> 's" and ranges :: "'s \<Rightarrow> ip_range list"
    and meaning :: "'s \<Rightarrow> addr set" and invar :: "'s \<Rightarrow> bool"
  assumes empty: "invar empty" "meaning empty = {}"
    and merge: "invar s \<Longrightarrow> \<forall>r \<in> set rs. wf_range r \<Longrightarrow> invar (merge s rs)"
      "invar s \<Longrightarrow> \<forall>r \<in> set rs. wf_range r \<Longrightarrow> meaning (merge s rs) = meaning s \<union> addrs_of rs"
    and subtract: "invar s \<Longrightarrow> \<forall>r \<in> set rs. wf_range r \<Longrightarrow> invar (subtract s rs)"
      "invar s \<Longrightarrow> \<forall>r \<in> set rs. wf_range r \<Longrightarrow> meaning (subtract s rs) \<inter> addrs_of rs = {}"
      "invar s \<Longrightarrow> \<forall>r \<in> set rs. wf_range r \<Longrightarrow> meaning s - addrs_of rs \<subseteq> meaning (subtract s rs)"
    and subtract_inside: "invar s \<Longrightarrow> \<forall>r \<in> set rs. wf_range r \<Longrightarrow> addrs_of rs \<subseteq> meaning s \<Longrightarrow>
      meaning (subtract s rs) = meaning s - addrs_of rs"
    and inter: "invar s \<Longrightarrow> invar t \<Longrightarrow> invar (inter s t)"
      "invar s \<Longrightarrow> invar t \<Longrightarrow> meaning (inter s t) = meaning s \<inter> meaning t"
    and ranges: "invar s \<Longrightarrow> ranges s = [] \<longleftrightarrow> meaning s = {}"
begin

text \<open>The client's pattern: a set built from inclusions, less the exclusions.\<close>

lemma pool_meaning:
  assumes "\<forall>r \<in> set ins. wf_range r" "\<forall>r \<in> set outs. wf_range r"
  shows "invar (subtract (merge empty ins) outs)"
    "meaning (subtract (merge empty ins) outs) \<inter> addrs_of outs = {}"
    "addrs_of ins - addrs_of outs \<subseteq> meaning (subtract (merge empty ins) outs)"
    "addrs_of outs \<subseteq> addrs_of ins \<Longrightarrow>
      meaning (subtract (merge empty ins) outs) = addrs_of ins - addrs_of outs"
  using assms empty merge [of empty ins] subtract [of "merge empty ins" outs]
    subtract_inside [of "merge empty ins" outs] by simp_all

lemma overlap_iff:
  "invar s \<Longrightarrow> invar t \<Longrightarrow> ranges (inter s t) \<noteq> [] \<longleftrightarrow> meaning s \<inter> meaning t \<noteq> {}"
  using ranges inter by simp

end

interpretation rset: address_set empty_range_set rs_merge rs_subtract rs_intersections
  all_ranges denote wf_range_set
proof unfold_locales
  fix s rs assume s: "wf_range_set s" and rs: "\<forall>r \<in> set rs. wf_range r"
  show "wf_range_set (rs_merge s rs)" "denote (rs_merge s rs) = denote s \<union> addrs_of rs"
    using rs_merge_set [OF s rs] by simp_all
  show "wf_range_set (rs_subtract s rs)" "denote (rs_subtract s rs) \<inter> addrs_of rs = {}"
    "denote s - addrs_of rs \<subseteq> denote (rs_subtract s rs)"
    using rs_subtract_set [OF s rs] by auto
  show "denote (rs_subtract s rs) = denote s - addrs_of rs" if "addrs_of rs \<subseteq> denote s"
    using brought_back_inside [OF s rs that] rs_subtract_set [OF s rs] by auto
qed (simp_all add: rs_intersections_set all_ranges_empty empty_set_wf)

section \<open>Properties\<close>

text \<open>C15: Merge is union: merging well-formed ranges into a well-formed set keeps the normal
  form (sorted, disjoint, never adjacent) and denotes the union.\<close>

theorem rs_merge_union:
  assumes "wf_range_set s" "\<forall>r \<in> set rs. wf_range r"
  shows "wf_range_set (rs_merge s rs) \<and> denote (rs_merge s rs) = denote s \<union> addrs_of rs"
  using rset.merge [OF assms] by blast

theorem rs_merge_union_witness:
  "denote (rs_merge empty_range_set [\<lparr>rstart = Addr4 5, rend = Addr4 9\<rparr>, \<lparr>rstart = Addr4 10, rend = Addr4 12\<rparr>]) =
     denote empty_range_set \<union> addrs_of [\<lparr>rstart = Addr4 5, rend = Addr4 9\<rparr>, \<lparr>rstart = Addr4 10, rend = Addr4 12\<rparr>]"
  by (rule rs_merge_union [THEN conjunct2])
    (simp_all add: empty_set_wf wf_range_iff plain_def is_valid_def)

text \<open>Intersections is intersection, and keeps the normal form.\<close>

theorem rs_intersections_inter:
  assumes "wf_range_set s" "wf_range_set t"
  shows "wf_range_set (rs_intersections s t) \<and> denote (rs_intersections s t) = denote s \<inter> denote t"
  using rset.inter [OF assms] by blast

theorem rs_intersections_inter_witness:
  "denote (rs_intersections \<lparr>ranges4 = [\<lparr>rstart = Addr4 5, rend = Addr4 9\<rparr>], ranges6 = []\<rparr>
      \<lparr>ranges4 = [\<lparr>rstart = Addr4 8, rend = Addr4 20\<rparr>], ranges6 = []\<rparr>) =
     denote \<lparr>ranges4 = [\<lparr>rstart = Addr4 5, rend = Addr4 9\<rparr>], ranges6 = []\<rparr> \<inter>
     denote \<lparr>ranges4 = [\<lparr>rstart = Addr4 8, rend = Addr4 20\<rparr>], ranges6 = []\<rparr>"
  by (rule rs_intersections_inter [THEN conjunct2]) (simp_all add: wf_range_set_def range_in_def)

text \<open>C14: What Subtract computes, exactly: no excluded address stays and every other address of
  the set stays, but the addresses between an excluded range and the next included one (with no
  included range ending in between) are added to the set.\<close>

theorem rs_subtract_exact:
  assumes "wf_range_set s" "\<forall>r \<in> set rs. wf_range r"
  shows "wf_range_set (rs_subtract s rs) \<and>
    denote (rs_subtract s rs) = (denote s \<union> brought_back s rs) - addrs_of rs"
  using rs_subtract_set [OF assms] by blast

theorem rs_subtract_exact_witness:
  "denote (rs_subtract \<lparr>ranges4 = [\<lparr>rstart = Addr4 10, rend = Addr4 20\<rparr>], ranges6 = []\<rparr>
      [\<lparr>rstart = Addr4 1, rend = Addr4 3\<rparr>]) =
    (denote \<lparr>ranges4 = [\<lparr>rstart = Addr4 10, rend = Addr4 20\<rparr>], ranges6 = []\<rparr> \<union>
     brought_back \<lparr>ranges4 = [\<lparr>rstart = Addr4 10, rend = Addr4 20\<rparr>], ranges6 = []\<rparr>
       [\<lparr>rstart = Addr4 1, rend = Addr4 3\<rparr>]) -
    addrs_of [\<lparr>rstart = Addr4 1, rend = Addr4 3\<rparr>]"
  by (rule rs_subtract_exact [THEN conjunct2])
    (simp_all add: wf_range_set_def range_in_def wf_range_iff plain_def is_valid_def)

text \<open>Subtract is set difference when every excluded address is in the set.\<close>

theorem rs_subtract_difference:
  assumes "wf_range_set s" "\<forall>r \<in> set rs. wf_range r" "addrs_of rs \<subseteq> denote s"
  shows "denote (rs_subtract s rs) = denote s - addrs_of rs"
  using rset.subtract_inside [OF assms] .

theorem rs_subtract_difference_witness:
  "denote (rs_subtract \<lparr>ranges4 = [\<lparr>rstart = Addr4 10, rend = Addr4 20\<rparr>], ranges6 = []\<rparr>
      [\<lparr>rstart = Addr4 12, rend = Addr4 13\<rparr>]) =
    denote \<lparr>ranges4 = [\<lparr>rstart = Addr4 10, rend = Addr4 20\<rparr>], ranges6 = []\<rparr> -
    addrs_of [\<lparr>rstart = Addr4 12, rend = Addr4 13\<rparr>]"
proof (rule rs_subtract_difference)
  show "addrs_of [\<lparr>rstart = Addr4 12, rend = Addr4 13\<rparr>] \<subseteq>
      denote \<lparr>ranges4 = [\<lparr>rstart = Addr4 10, rend = Addr4 20\<rparr>], ranges6 = []\<rparr>"
  proof -
    have "Addr4 10 \<le> a" if "Addr4 12 \<le> a" for a
      using that by (rule order_trans [rotated]) simp
    moreover have "a \<le> Addr4 20" if "a \<le> Addr4 13" for a
      using that by (rule order_trans) simp
    ultimately show ?thesis by (auto simp: denote_def all_ranges_def range_addrs_def)
  qed
qed (simp_all add: wf_range_set_def range_in_def wf_range_iff plain_def is_valid_def)

text \<open>Subtract is not set difference in general: excluding 0.0.0.1-0.0.0.3 from
  0.0.0.10-0.0.0.20 gives 0.0.0.4-0.0.0.20, so the exclusion adds six addresses.\<close>

theorem rs_subtract_adds:
  "rs_subtract (new_range_set [\<lparr>rstart = Addr4 10, rend = Addr4 20\<rparr>]) [\<lparr>rstart = Addr4 1, rend = Addr4 3\<rparr>] =
     \<lparr>ranges4 = [\<lparr>rstart = Addr4 4, rend = Addr4 20\<rparr>], ranges6 = []\<rparr> \<and>
   \<not> rs_contains (new_range_set [\<lparr>rstart = Addr4 10, rend = Addr4 20\<rparr>]) (Addr4 4) \<and>
   rs_contains (rs_subtract (new_range_set [\<lparr>rstart = Addr4 10, rend = Addr4 20\<rparr>])
     [\<lparr>rstart = Addr4 1, rend = Addr4 3\<rparr>]) (Addr4 4)"
  by code_simp

lemma rs_contains_iff:
  assumes "wf_range_set s" "plain a"
  shows "rs_contains s a \<longleftrightarrow>
    (\<exists>r \<in> set (all_ranges s). a \<in> range_addrs r \<and> addr_next (rend r) \<noteq> AddrNone)"
proof (cases "a \<in> line4")
  case True
  then have no6: "a \<notin> range_addrs r" if "r \<in> set (ranges6 s)" for r
    using that assms line6.range_addrs_line [of r] by (auto simp: wf_range_set_def norm_ranges_def)
  have "ranges_for_family s (get_ip_family a) = ranges4 s"
    using True by (auto simp: ranges_for_family_def get_ip_family_def)
  then show ?thesis
    using True no6 assms(1) walk4.range_contains_line
    by (auto simp: rs_contains_def list_ex_iff all_ranges_def wf_range_set_def norm_ranges_def)
next
  case False
  then have l6: "a \<in> line6" using assms(2) by (simp only: plain_cases) blast
  then have no4: "a \<notin> range_addrs r" if "r \<in> set (ranges4 s)" for r
    using that assms line4.range_addrs_line [of r] by (auto simp: wf_range_set_def norm_ranges_def)
  have "ranges_for_family s (get_ip_family a) = ranges6 s"
    using l6 by (auto simp: ranges_for_family_def get_ip_family_def IPv4_def IPv6_def)
  then show ?thesis
    using l6 no4 assms(1) walk6.range_contains_line
    by (auto simp: rs_contains_def list_ex_iff all_ranges_def wf_range_set_def norm_ranges_def)
qed

text \<open>Contains, for an address without a zone: it finds the address exactly when a range of the
  set holds it that does not end at the last address of the family.\<close>

theorem rs_contains_exact:
  assumes "wf_range_set s" "plain a"
  shows "rs_contains s a \<longleftrightarrow>
    (\<exists>r \<in> set (all_ranges s). a \<in> range_addrs r \<and> addr_next (rend r) \<noteq> AddrNone)"
  using rs_contains_iff [OF assms] .

theorem rs_contains_exact_witness:
  "\<not> rs_contains \<lparr>ranges4 = [\<lparr>rstart = Addr4 10, rend = Addr4 0xffffffff\<rparr>], ranges6 = []\<rparr> (Addr4 11)"
  using rs_contains_exact [of "\<lparr>ranges4 = [\<lparr>rstart = Addr4 10, rend = Addr4 0xffffffff\<rparr>], ranges6 = []\<rparr>" "Addr4 11"]
  by (simp add: wf_range_set_def range_in_def plain_def is_valid_def all_ranges_def)

lemma rs_count_card:
  assumes "wf_range_set s"
  shows "rs_count s f = int (card {a \<in> denote s. get_ip_family a = f \<and> f \<in> {IPv4, IPv6}})"
proof -
  have ne: "IPv4 \<noteq> IPv6" by (simp add: IPv4_def IPv6_def)
  have f4: "a \<in> line4" if "a \<in> range_addrs r" "r \<in> set (ranges4 s)" for a r
    using that assms line4.range_addrs_line [of r] by (auto simp: wf_range_set_def norm_ranges_def)
  have f6: "a \<in> line6" if "a \<in> range_addrs r" "r \<in> set (ranges6 s)" for a r
    using that assms line6.range_addrs_line [of r] by (auto simp: wf_range_set_def norm_ranges_def)
  have "{a \<in> denote s. get_ip_family a = IPv4} = (\<Union>r \<in> set (ranges4 s). range_addrs r)"
    using f4 f6 ne by (fastforce simp: denote_def all_ranges_def get_ip_family_def)
  moreover have "{a \<in> denote s. get_ip_family a = IPv6} = (\<Union>r \<in> set (ranges6 s). range_addrs r)"
    using f4 f6 ne by (fastforce simp: denote_def all_ranges_def get_ip_family_def)
  ultimately show ?thesis
    using assms walk4.ranges_count_card [of "ranges4 s"] walk6.ranges_count_card [of "ranges6 s"] ne
    by (auto simp: rs_count_def ranges_for_family_def wf_range_set_def)
qed

text \<open>Count is the number of addresses of the family in the set (no address is counted twice),
  for the two families; an unknown family counts nothing.\<close>

theorem rs_count_exact:
  assumes "wf_range_set s"
  shows "rs_count s f = int (card {a \<in> denote s. get_ip_family a = f \<and> f \<in> {IPv4, IPv6}})"
  using rs_count_card [OF assms] .

theorem rs_count_exact_witness:
  "rs_count \<lparr>ranges4 = [\<lparr>rstart = Addr4 1, rend = Addr4 3\<rparr>], ranges6 = []\<rparr> IPv4 =
    int (card {a \<in> denote \<lparr>ranges4 = [\<lparr>rstart = Addr4 1, rend = Addr4 3\<rparr>], ranges6 = []\<rparr>.
      get_ip_family a = IPv4 \<and> IPv4 \<in> {IPv4, IPv6}})"
  by (rule rs_count_exact) (simp add: wf_range_set_def range_in_def)

text \<open>The normal form is canonical: two well-formed sets with the same addresses are the same
  lists of ranges.\<close>

theorem range_set_canonical:
  assumes "wf_range_set s" "wf_range_set t" "denote s = denote t"
  shows "s = t"
proof -
  have eq: "mem_vals (ranges4 s) (ranges6 s) = mem_vals (ranges4 t) (ranges6 t)"
    using assms denote_mem_vals by metis
  have norm: "norm_ranges line4 (ranges4 s)" "norm_ranges line4 (ranges4 t)"
    "norm_ranges line6 (ranges6 s)" "norm_ranges line6 (ranges6 t)"
    using assms by (simp_all add: wf_range_set_def)
  have no: "a \<notin> line6" if "a \<in> line4" for a using that by auto
  have iff: "covered (ranges4 s) (addr_val a) \<longleftrightarrow> covered (ranges4 t) (addr_val a)" if "a \<in> line4" for a
  proof -
    have "a \<in> mem_vals (ranges4 s) (ranges6 s) \<longleftrightarrow> a \<in> mem_vals (ranges4 t) (ranges6 t)" using eq by simp
    then show ?thesis unfolding mem_vals_def using that no by blast
  qed
  have iff6: "covered (ranges6 s) (addr_val a) \<longleftrightarrow> covered (ranges6 t) (addr_val a)" if "a \<in> line6" for a
  proof -
    have "a \<in> mem_vals (ranges4 s) (ranges6 s) \<longleftrightarrow> a \<in> mem_vals (ranges4 t) (ranges6 t)" using eq by simp
    then show ?thesis unfolding mem_vals_def using that no by blast
  qed
  have "covered (ranges4 s) n \<longleftrightarrow> covered (ranges4 t) n" for n
    using iff walk4.covered_line [OF norm_ranges_in [OF norm(1)], of n]
      walk4.covered_line [OF norm_ranges_in [OF norm(2)], of n] by blast
  moreover have "covered (ranges6 s) n \<longleftrightarrow> covered (ranges6 t) n" for n
    using iff6 walk6.covered_line [OF norm_ranges_in [OF norm(3)], of n]
      walk6.covered_line [OF norm_ranges_in [OF norm(4)], of n] by blast
  ultimately show ?thesis
    using walk4.norm_unique [OF norm(1,2)] walk6.norm_unique [OF norm(3,4)] by simp
qed

theorem range_set_canonical_witness:
  "rs_intersections \<lparr>ranges4 = [\<lparr>rstart = Addr4 1, rend = Addr4 3\<rparr>], ranges6 = []\<rparr>
      \<lparr>ranges4 = [\<lparr>rstart = Addr4 1, rend = Addr4 3\<rparr>], ranges6 = []\<rparr> =
    \<lparr>ranges4 = [\<lparr>rstart = Addr4 1, rend = Addr4 3\<rparr>], ranges6 = []\<rparr>"
proof (rule range_set_canonical)
  let ?s = "\<lparr>ranges4 = [\<lparr>rstart = Addr4 1, rend = Addr4 3\<rparr>], ranges6 = []\<rparr>"
  show s: "wf_range_set ?s" by (simp add: wf_range_set_def range_in_def)
  show "wf_range_set (rs_intersections ?s ?s)" "denote (rs_intersections ?s ?s) = denote ?s"
    using rs_intersections_set [OF s s] by simp_all
qed

end
