(* ===== verification/Range_Parse.thy ===== *)
theory Range_Parse
  imports IP_Range_Props
begin

text \<open>
  What the parsers of addresses, prefixes and ranges return: texts without a zone give plain
  addresses, valid prefixes and well-formed ranges. The pool, its webhook and the reconcilers
  rest on these lemmas.
\<close>

definition zone_free :: "string \<Rightarrow> bool" where
  "zone_free s \<longleftrightarrow> CHR ''%'' \<notin> set s"

lemma set_trim_space: "set (trim_space s) \<subseteq> set s"
  by (auto simp: trim_space_def trim_left_def dest!: set_dropWhileD)

lemma set_cut:
  "set (cut_before c s) \<subseteq> set s" "set (cut_after c s) \<subseteq> set s"
  by (auto simp: cut_before_def cut_after_def dest: set_takeWhileD set_dropWhileD
      list.set_sel(2) [rotated]) (metis list.sel(2) list.set_sel(2) set_dropWhileD)

lemma zone_free_parts:
  assumes "zone_free s"
  shows "zone_free (trim_space s)" "zone_free (cut_before c s)" "zone_free (cut_after c s)"
    "zone_free (rev s)" "zone_free (trim_prefix p s)"
  using assms set_trim_space [of s] set_cut [of c s] set_drop_subset [of "length p" s]
  by (auto simp: zone_free_def trim_prefix_def)

lemma cut_after_absent: "c \<notin> set s \<Longrightarrow> cut_after c s = []"
  by (induction s) (auto simp: cut_after_def)

lemma v6_finish_zone: "v6_finish z r = Some a \<Longrightarrow> is6 a \<and> addr_zone a = z"
  by (auto simp: v6_finish_def split: prod.splits if_splits option.splits)

lemma parse_addr_valid: "parse_addr s = Some a \<Longrightarrow> is_valid a"
  by (auto simp: parse_addr_def parse_ipv4_def parse_ipv6_def is_valid_def bind_eq_Some_conv
      Let_def split: list.splits if_splits option.splits dest!: v6_finish_zone)

lemma parse_addr_plain:
  assumes "parse_addr s = Some a" "zone_free s"
  shows "plain a"
proof -
  have "cut_after (CHR ''%'') s = []"
    using assms(2) cut_after_absent by (simp add: zone_free_def)
  then have "addr_zone a = []"
    using assms by (auto simp: parse_addr_def parse_ipv4_def parse_ipv6_def bind_eq_Some_conv
        Let_def zone_free_def split: list.splits if_splits option.splits dest!: v6_finish_zone)
  then show ?thesis using parse_addr_valid [OF assms(1)] by (simp add: plain_def)
qed

lemma parse_prefix_valid: "parse_prefix s = Some p \<Longrightarrow> prefix_valid p"
  by (auto simp: parse_prefix_def prefix_valid_def Let_def
      split: if_splits option.splits dest: parse_addr_valid)

lemma new_ip_range_wf:
  "plain s \<Longrightarrow> plain e \<Longrightarrow> new_ip_range s e = Inr r \<Longrightarrow> wf_range r"
  by (auto simp: new_ip_range_Inr wf_range_iff)

lemma parse_addr_res_Inr: "parse_addr_res s = Inr a \<longleftrightarrow> parse_addr s = Some a"
  by (simp add: parse_addr_res_def split: option.splits)

lemma parse_range_body_wf:
  assumes "parse_range_body s ex = Inr r" "zone_free s"
  shows "wf_range r"
proof -
  have plain: "parse_addr_res s = Inr a \<Longrightarrow> plain a"
    "parse_addr_res (trim_space (cut_before c s)) = Inr a \<Longrightarrow> plain a"
    "parse_addr_res (trim_space (cut_after c s)) = Inr a \<Longrightarrow> plain a" for a c
    using parse_addr_plain zone_free_parts assms(2) by (metis parse_addr_res_Inr)+
  show ?thesis
    using assms(1)
    by (auto simp: parse_range_body_def split: if_splits sum.splits option.splits
        intro: new_ip_range_wf plain cidr_range_wf parse_prefix_valid)
qed

lemma parse_ip_range_wf:
  assumes "parse_ip_range s ex = Inr (r, b)" "zone_free s"
  shows "wf_range r"
proof -
  have "zone_free (if has_prefix ''!'' (trim_space s) then trim_space (trim_prefix ''!'' (trim_space s))
      else trim_space s)"
    using zone_free_parts assms(2) by simp
  then show ?thesis
    using assms(1) parse_range_body_wf by (auto simp: parse_ip_range_def Let_def split: sum.splits)
qed

lemma wf_range_families:
  "wf_range r \<Longrightarrow> range_family r = IPv4 \<longleftrightarrow> range_in line4 r"
  "wf_range r \<Longrightarrow> range_family r = IPv6 \<longleftrightarrow> range_in line6 r"
  by (auto simp: wf_range_def range_in_def range_family_def get_ip_family_def IPv4_def IPv6_def)

lemma range_addrs_family:
  "wf_range r \<Longrightarrow> a \<in> range_addrs r \<Longrightarrow> get_ip_family a = range_family r"
  using line4.range_addrs_line [of r] line6.range_addrs_line [of r]
  by (auto simp: wf_range_def range_in_def range_family_def get_ip_family_def)

end
