(* ===== verification/Api_Types.thy ===== *)
theory Api_Types
  imports IP_Range_Set_Props Range_Parse
begin

text \<open>
  The custom resources of \<open>api/v1alpha1\<close>: \<open>IPPool\<close> and \<open>IPAllocation\<close> with their specs,
  statuses, phases and condition types, and the part of the Kubernetes object metadata the
  controllers read. Times are integers (nanoseconds), so \<open>Before\<close> and \<open>After\<close> are \<open><\<close>.
\<close>

type_synonym time = int

record object_meta =
  obj_name :: string
  obj_namespace :: string
  obj_uid :: string
  obj_generation :: int
  obj_deleting :: bool
  obj_finalizers :: "string list"
  obj_annotations :: "string \<rightharpoonup> string"
  obj_labels :: "string \<rightharpoonup> string"

record condition =
  cond_type :: string
  cond_status :: string
  cond_reason :: string
  cond_message :: string
  cond_generation :: int
  cond_time :: time

definition cond_true :: string where "cond_true = ''True''"
definition cond_false :: string where "cond_false = ''False''"

section \<open>IPPool\<close>

record ippool_spec =
  pool_family :: ip_family
  pool_addresses :: "string list"
  pool_auto_assign :: bool
  pool_avoid_buggy :: bool
  pool_advertise :: bool
  pool_interface :: string

record ippool_status =
  total_addresses :: string
  allocated_addresses :: string
  free_addresses :: string
  pool_conditions :: "condition list"
  pool_observed :: int

record ip_pool =
  pool_meta :: object_meta
  pool_spec :: ippool_spec
  pool_status :: ippool_status

abbreviation pool_name :: "ip_pool \<Rightarrow> string" where
  "pool_name p \<equiv> obj_name (pool_meta p)"

section \<open>IPAllocation\<close>

record ipallocation_spec =
  req_family :: ip_family
  req_pool :: string
  req_address :: string

definition phase_pending :: string where "phase_pending = ''Pending''"
definition phase_allocated :: string where "phase_allocated = ''Allocated''"
definition phase_programmed :: string where "phase_programmed = ''Programmed''"
definition phase_failed :: string where "phase_failed = ''Failed''"

record ipallocation_status =
  st_phase :: string
  st_address :: string
  st_advertised :: bool
  st_interface :: string
  st_conditions :: "condition list"
  st_observed :: int

definition type_ready :: string where "type_ready = ''Ready''"
definition type_allocated :: string where "type_allocated = ''Allocated''"
definition type_programmed :: string where "type_programmed = ''Programmed''"

record ip_allocation =
  alloc_meta :: object_meta
  alloc_spec :: ipallocation_spec
  alloc_status :: ipallocation_status

abbreviation alloc_name :: "ip_allocation \<Rightarrow> string" where
  "alloc_name a \<equiv> obj_name (alloc_meta a)"

end
