(* ===== verification/Expectations.thy ===== *)
theory Expectations
  imports Api_Types
begin

text \<open>
  \<open>internal/controller/ip_allocation_expectations.go\<close>: the record of allocations and
  releases that the informer cache may not show yet. The lookup of a condition by type is
  \<open>meta.FindStatusCondition\<close> of the Kubernetes library, the parameter \<open>fc\<close>. A loop
  over a Go map visits the keys in any order and touches only its own key, so it is written
  pointwise; the clock of \<open>time.Since\<close> is read once per key.
\<close>

type_synonym find_condition = "condition list \<Rightarrow> string \<Rightarrow> condition option"

record pending =
  p_id :: string
  p_address :: addr
  p_time :: time

record expectations =
  allocation_timeout :: int
  pending_allocs :: "addr \<rightharpoonup> pending"
  pending_releases :: "addr \<rightharpoonup> time"

definition new_expectations :: "int \<Rightarrow> expectations" where
  "new_expectations timeout =
     \<lparr>allocation_timeout = timeout, pending_allocs = Map.empty, pending_releases = Map.empty\<rparr>"

definition stage_allocation :: "pending \<Rightarrow> expectations \<Rightarrow> bool \<times> expectations" where
  "stage_allocation p e =
     (case pending_allocs e (p_address p) of
        Some q \<Rightarrow> if p_id q \<noteq> p_id p then (False, e)
          else (True, e\<lparr>pending_allocs := (pending_allocs e)(p_address p \<mapsto> p),
                        pending_releases := (pending_releases e)(p_address p := None)\<rparr>)
      | None \<Rightarrow> (True, e\<lparr>pending_allocs := (pending_allocs e)(p_address p \<mapsto> p),
                        pending_releases := (pending_releases e)(p_address p := None)\<rparr>))"

definition unstage_allocation :: "pending \<Rightarrow> expectations \<Rightarrow> expectations" where
  "unstage_allocation p e =
     (case pending_allocs e (p_address p) of
        None \<Rightarrow> e
      | Some q \<Rightarrow> if p_id q = p_id p \<and> p_time q = p_time p
          then e\<lparr>pending_allocs := (pending_allocs e)(p_address p := None)\<rparr> else e)"

definition stage_release :: "addr \<Rightarrow> time \<Rightarrow> expectations \<Rightarrow> expectations" where
  "stage_release ip r e =
     (case pending_allocs e ip of
        Some q \<Rightarrow> if r < p_time q then e
          else e\<lparr>pending_releases := (pending_releases e)(ip \<mapsto> r),
                 pending_allocs := (pending_allocs e)(ip := None)\<rparr>
      | None \<Rightarrow> e\<lparr>pending_releases := (pending_releases e)(ip \<mapsto> r),
                  pending_allocs := (pending_allocs e)(ip := None)\<rparr>)"

definition unstage_release :: "addr \<Rightarrow> time \<Rightarrow> expectations \<Rightarrow> expectations" where
  "unstage_release ip r e =
     (case pending_releases e ip of
        None \<Rightarrow> e
      | Some r' \<Rightarrow> if r' = r then e\<lparr>pending_releases := (pending_releases e)(ip := None)\<rparr> else e)"

text \<open>One step of \<open>buildAllocTimeMap\<close>: the address and time of a cached allocation.\<close>

definition alloc_time_of :: "find_condition \<Rightarrow> ip_allocation \<Rightarrow> (addr \<times> time) option" where
  "alloc_time_of fc a =
     (if st_address (alloc_status a) = '''' then None
      else (case parse_addr (st_address (alloc_status a)) of
        None \<Rightarrow> None
      | Some address \<Rightarrow>
          (case fc (st_conditions (alloc_status a)) type_allocated of
             Some c \<Rightarrow> if cond_status c = cond_true then Some (address, cond_time c) else None
           | None \<Rightarrow> None)))"

fun alloc_times_loop :: "find_condition \<Rightarrow> (addr \<rightharpoonup> time) \<Rightarrow> ip_allocation list \<Rightarrow> (addr \<rightharpoonup> time)" where
  "alloc_times_loop fc m [] = m"
| "alloc_times_loop fc m (a # as) =
     (case alloc_time_of fc a of
        None \<Rightarrow> alloc_times_loop fc m as
      | Some (address, t) \<Rightarrow>
          (case m address of
             None \<Rightarrow> alloc_times_loop fc (m(address \<mapsto> t)) as
           | Some t' \<Rightarrow> if t' < t then alloc_times_loop fc (m(address \<mapsto> t)) as
               else alloc_times_loop fc m as))"

definition build_alloc_times :: "find_condition \<Rightarrow> ip_allocation list \<Rightarrow> (addr \<rightharpoonup> time)" where
  "build_alloc_times fc allocs = alloc_times_loop fc Map.empty allocs"

text \<open>The two loops of \<open>Resolve\<close> over a map of allocation times.\<close>

definition apply_pending :: "(addr \<rightharpoonup> pending) \<Rightarrow> string \<Rightarrow> (addr \<rightharpoonup> time) \<Rightarrow> (addr \<rightharpoonup> time)" where
  "apply_pending pend exclude m = (\<lambda>ip.
     case pend ip of
       None \<Rightarrow> m ip
     | Some p \<Rightarrow>
         if exclude \<noteq> '''' \<and> p_id p = exclude then m ip
         else (case m ip of
             None \<Rightarrow> Some (p_time p)
           | Some t \<Rightarrow> if t < p_time p then Some (p_time p) else Some t))"

definition apply_releases :: "(addr \<rightharpoonup> time) \<Rightarrow> (addr \<rightharpoonup> time) \<Rightarrow> (addr \<rightharpoonup> time)" where
  "apply_releases rel m = (\<lambda>ip.
     case rel ip of
       None \<Rightarrow> m ip
     | Some r \<Rightarrow> (case m ip of None \<Rightarrow> None | Some t \<Rightarrow> if t < r then None else Some t))"

definition resolve :: "find_condition \<Rightarrow> ip_allocation list \<Rightarrow> string \<Rightarrow> expectations \<Rightarrow> (addr \<rightharpoonup> time)" where
  "resolve fc from_cache exclude e =
     apply_releases (pending_releases e)
       (apply_pending (pending_allocs e) exclude (build_alloc_times fc from_cache))"

text \<open>The two loops of \<open>Confirm\<close>.\<close>

definition confirm_releases ::
  "int \<Rightarrow> (addr \<Rightarrow> time) \<Rightarrow> (addr \<rightharpoonup> time) \<Rightarrow> (addr \<rightharpoonup> time) \<Rightarrow> (addr \<rightharpoonup> time)" where
  "confirm_releases timeout now m rel = (\<lambda>ip.
     case rel ip of
       None \<Rightarrow> None
     | Some r \<Rightarrow> (case m ip of
           None \<Rightarrow> if timeout < now ip - r then None else Some r
         | Some t \<Rightarrow> if r < t then None else Some r))"

definition confirm_allocs :: "(addr \<rightharpoonup> time) \<Rightarrow> (addr \<rightharpoonup> pending) \<Rightarrow> (addr \<rightharpoonup> pending)" where
  "confirm_allocs m pend = (\<lambda>ip.
     case m ip of
       None \<Rightarrow> pend ip
     | Some t \<Rightarrow> (case pend ip of
           None \<Rightarrow> None
         | Some p \<Rightarrow> if \<not> t < p_time p then None else Some p))"

definition confirm ::
  "find_condition \<Rightarrow> (addr \<Rightarrow> time) \<Rightarrow> ip_allocation list \<Rightarrow> expectations \<Rightarrow> expectations" where
  "confirm fc now allocs e =
     (let m = build_alloc_times fc allocs in
      e\<lparr>pending_releases := confirm_releases (allocation_timeout e) now m (pending_releases e),
        pending_allocs := confirm_allocs m (pending_allocs e)\<rparr>)"

end
