(* ===== verification/Expectations_Props.thy ===== *)
theory Expectations_Props
  imports Expectations
begin

text \<open>
  The expectations against the questions they answer: which addresses \<open>Resolve\<close> reports as
  used and what \<open>Confirm\<close> keeps, in terms of the cached allocations and the pending entries,
  and the invariant every operation keeps. The locale \<open>reservations\<close> is the contract the
  allocation reconciler relies on.
\<close>

section \<open>Allocation times\<close>

definition cached_at :: "find_condition \<Rightarrow> ip_allocation list \<Rightarrow> addr \<Rightarrow> time set" where
  "cached_at fc allocs ip = {t. \<exists>a \<in> set allocs. alloc_time_of fc a = Some (ip, t)}"

lemma cached_at_simps [simp]:
  "cached_at fc [] ip = {}"
  "cached_at fc (a # as) ip =
     (case alloc_time_of fc a of Some (ip', t) \<Rightarrow> if ip' = ip then {t} else {} | None \<Rightarrow> {}) \<union>
     cached_at fc as ip"
  by (auto simp: cached_at_def split: option.splits)

lemma finite_cached_at [simp]: "finite (cached_at fc allocs ip)"
  by (induction allocs) (auto split: option.splits)

lemma cached_at_append [simp]:
  "cached_at fc (as @ bs) ip = cached_at fc as ip \<union> cached_at fc bs ip"
  by (auto simp: cached_at_def)

definition option_set :: "'a option \<Rightarrow> 'a set" where
  "option_set x = (case x of None \<Rightarrow> {} | Some a \<Rightarrow> {a})"

lemma option_set_simps [simp]: "option_set None = {}" "option_set (Some a) = {a}"
  by (simp_all add: option_set_def)

definition latest :: "time set \<Rightarrow> time option" where
  "latest T = (if T = {} then None else Some (Max T))"

lemma latest_empty [simp]: "latest {} = None"
  by (simp add: latest_def)

lemma latest_iff:
  "finite T \<Longrightarrow> latest T = Some t \<longleftrightarrow> t \<in> T \<and> (\<forall>t' \<in> T. t' \<le> t)"
  "latest T = None \<longleftrightarrow> T = {}"
  by (auto simp: latest_def Max_eq_iff)

lemma latest_cases:
  assumes "finite T"
  obtains "T = {}" "latest T = None"
    | t where "latest T = Some t" "t \<in> T" "\<forall>t' \<in> T. t' \<le> t"
  using latest_iff(1) [OF assms] latest_iff(2) [of T] by (cases "latest T") auto

lemma latest_bounds:
  assumes "latest T = Some m" "finite T"
  shows "(\<forall>t \<in> T. t < b) \<longleftrightarrow> m < b" "(\<forall>t \<in> T. t \<le> b) \<longleftrightarrow> m \<le> b" "T \<noteq> {}"
  using latest_iff(1) [OF assms(2), of m] assms(1) by fastforce+

lemma latest_insert:
  assumes "finite T"
  shows "latest (insert s T) =
    (case latest T of None \<Rightarrow> Some s | Some t \<Rightarrow> if t < s then Some s else Some t)"
  by (cases rule: latest_cases [OF assms])
    (use assms in \<open>auto simp: latest_iff split: option.splits\<close>)

lemma latest_dominated:
  assumes "finite T" "s \<in> T" "t \<le> s"
  shows "latest (insert t T) = latest T"
  by (cases rule: latest_cases [OF assms(1)]) (use assms in \<open>auto simp: latest_insert\<close>)

lemma alloc_times_loop_latest:
  "alloc_times_loop fc m allocs ip = latest (option_set (m ip) \<union> cached_at fc allocs ip)"
proof (induction fc m allocs rule: alloc_times_loop.induct)
  case (1 fc m)
  then show ?case by (simp add: latest_def option_set_def split: option.splits)
next
  case (2 fc m a as)
  show ?case
  proof (cases "alloc_time_of fc a")
    case None
    then show ?thesis using 2 by simp
  next
    case (Some at)
    obtain address t where at: "at = (address, t)" by (cases at)
    show ?thesis
    proof (cases "m address")
      case None
      then show ?thesis using 2(2) [OF Some at [symmetric] None] Some at None by (auto simp: fun_upd_def split: if_splits)
    next
      case (Some t')
      then show ?thesis
        using 2(3,4) [OF \<open>alloc_time_of fc a = Some at\<close> at [symmetric] Some]
          \<open>alloc_time_of fc a = Some at\<close> at
          latest_dominated [of "insert t (cached_at fc as ip)" t t']
          latest_dominated [of "insert t' (cached_at fc as ip)" t' t]
        by (cases "t' < t"; cases "ip = address")
          (simp_all add: fun_upd_def insert_commute [of t t'] not_less)
    qed
  qed
qed

lemma build_alloc_times_latest: "build_alloc_times fc allocs ip = latest (cached_at fc allocs ip)"
  by (simp add: build_alloc_times_def alloc_times_loop_latest)

section \<open>Resolve and Confirm\<close>

text \<open>The times at which an address is in use, as \<open>Resolve\<close> sees it.\<close>

definition used_at :: "find_condition \<Rightarrow> ip_allocation list \<Rightarrow> string \<Rightarrow> expectations \<Rightarrow> addr \<Rightarrow> time set" where
  "used_at fc allocs exclude e ip = cached_at fc allocs ip \<union>
     {p_time p |p. pending_allocs e ip = Some p \<and> \<not> (exclude \<noteq> '''' \<and> p_id p = exclude)}"

lemma finite_used_at [simp]: "finite (used_at fc allocs exclude e ip)"
  by (cases "pending_allocs e ip") (auto simp: used_at_def)

lemma apply_pending_latest:
  "apply_pending (pending_allocs e) exclude (build_alloc_times fc allocs) ip =
     latest (used_at fc allocs exclude e ip)"
  by (cases "pending_allocs e ip")
    (auto simp: apply_pending_def build_alloc_times_latest used_at_def latest_insert)

lemma resolve_latest:
  "resolve fc allocs exclude e ip =
     (case latest (used_at fc allocs exclude e ip) of
        None \<Rightarrow> None
      | Some t \<Rightarrow> if \<exists>r. pending_releases e ip = Some r \<and> t < r then None else Some t)"
  by (auto simp: resolve_def apply_releases_def apply_pending_latest split: option.splits)

lemma resolve_dom:
  "ip \<in> dom (resolve fc allocs exclude e) \<longleftrightarrow>
     (\<exists>t \<in> used_at fc allocs exclude e ip. \<forall>r. pending_releases e ip = Some r \<longrightarrow> r \<le> t)"
proof (cases "latest (used_at fc allocs exclude e ip)")
  case None
  then show ?thesis by (simp add: domIff resolve_latest latest_iff)
next
  case (Some t)
  then have t: "t \<in> used_at fc allocs exclude e ip" "\<And>t'. t' \<in> used_at fc allocs exclude e ip \<Longrightarrow> t' \<le> t"
    using latest_iff(1) [OF finite_used_at] by auto
  have "ip \<in> dom (resolve fc allocs exclude e) \<longleftrightarrow> (\<forall>r. pending_releases e ip = Some r \<longrightarrow> r \<le> t)"
    using Some by (auto simp: domIff resolve_latest not_less)
  then show ?thesis using t by (meson order_trans)
qed

lemma confirm_pending:
  "pending_allocs (confirm fc now allocs e) ip = Some p \<longleftrightarrow>
     pending_allocs e ip = Some p \<and> (\<forall>t \<in> cached_at fc allocs ip. t < p_time p)"
proof (cases "latest (cached_at fc allocs ip)")
  case None
  then show ?thesis
    by (simp add: confirm_def Let_def confirm_allocs_def build_alloc_times_latest latest_iff)
next
  case (Some m)
  then show ?thesis
    unfolding latest_bounds(1) [OF Some finite_cached_at]
    by (auto simp: confirm_def Let_def confirm_allocs_def build_alloc_times_latest
        split: option.splits)
qed

lemma confirm_release:
  "pending_releases (confirm fc now allocs e) ip = Some r \<longleftrightarrow>
     pending_releases e ip = Some r \<and> (\<forall>t \<in> cached_at fc allocs ip. t \<le> r) \<and>
     (cached_at fc allocs ip = {} \<longrightarrow> now ip - r \<le> allocation_timeout e)"
proof (cases "latest (cached_at fc allocs ip)")
  case None
  then show ?thesis
    by (auto simp: confirm_def Let_def confirm_releases_def build_alloc_times_latest latest_iff
        split: option.splits)
next
  case (Some m)
  then show ?thesis
    unfolding latest_bounds(2) [OF Some finite_cached_at]
    using latest_bounds(3) [OF Some finite_cached_at]
    by (auto simp: confirm_def Let_def confirm_releases_def build_alloc_times_latest
        split: option.splits)
qed

lemma confirm_sub:
  "pending_allocs (confirm fc now allocs e) \<subseteq>\<^sub>m pending_allocs e"
  "pending_releases (confirm fc now allocs e) \<subseteq>\<^sub>m pending_releases e"
  by (auto simp: map_le_def domIff confirm_pending confirm_release)

section \<open>The invariant\<close>

text \<open>
  A pending entry is filed under its own address, and no address is both pending allocation
  and pending release.
\<close>

definition exp_inv :: "expectations \<Rightarrow> bool" where
  "exp_inv e \<longleftrightarrow> (\<forall>ip p. pending_allocs e ip = Some p \<longrightarrow> p_address p = ip) \<and>
     dom (pending_allocs e) \<inter> dom (pending_releases e) = {}"

lemma exp_inv_ops:
  "exp_inv (new_expectations timeout)"
  "exp_inv e \<Longrightarrow> exp_inv (snd (stage_allocation p e))"
  "exp_inv e \<Longrightarrow> exp_inv (unstage_allocation p e)"
  "exp_inv e \<Longrightarrow> exp_inv (stage_release ip r e)"
  "exp_inv e \<Longrightarrow> exp_inv (unstage_release ip r e)"
  "exp_inv e \<Longrightarrow> exp_inv (confirm fc now allocs e)"
proof -
  show "exp_inv (new_expectations timeout)" by (simp add: exp_inv_def new_expectations_def)
  show "exp_inv e \<Longrightarrow> exp_inv (snd (stage_allocation p e))"
    by (auto simp: exp_inv_def stage_allocation_def split: option.splits)
  show "exp_inv e \<Longrightarrow> exp_inv (unstage_allocation p e)"
    by (auto simp: exp_inv_def unstage_allocation_def split: option.splits)
  show "exp_inv e \<Longrightarrow> exp_inv (stage_release ip r e)"
    by (auto simp: exp_inv_def stage_release_def split: option.splits)
  show "exp_inv e \<Longrightarrow> exp_inv (unstage_release ip r e)"
    by (auto simp: exp_inv_def unstage_release_def split: option.splits)
  show "exp_inv e \<Longrightarrow> exp_inv (confirm fc now allocs e)"
    unfolding exp_inv_def using map_le_implies_dom_le [OF confirm_sub(1) [of fc now allocs e]]
      map_le_implies_dom_le [OF confirm_sub(2) [of fc now allocs e]] confirm_pending by blast
qed

lemma stage_allocation_cases:
  assumes "exp_inv e"
  shows "fst (stage_allocation p e) \<longleftrightarrow>
      (\<forall>q. pending_allocs e (p_address p) = Some q \<longrightarrow> p_id q = p_id p)"
    and "\<not> fst (stage_allocation p e) \<Longrightarrow> snd (stage_allocation p e) = e"
    and "fst (stage_allocation p e) \<Longrightarrow>
      pending_allocs (snd (stage_allocation p e)) = (pending_allocs e)(p_address p \<mapsto> p) \<and>
      pending_releases (snd (stage_allocation p e)) = (pending_releases e)(p_address p := None) \<and>
      allocation_timeout (snd (stage_allocation p e)) = allocation_timeout e"
  by (auto simp: stage_allocation_def split: option.splits)

text \<open>A reservation of another allocation makes its address used, whatever the cache says.\<close>

lemma pending_used:
  assumes "exp_inv e" "pending_allocs e ip = Some p" "p_id p \<noteq> exclude"
  shows "ip \<in> dom (resolve fc allocs exclude e)"
proof -
  have "pending_releases e ip = None" using assms(1,2) by (auto simp: exp_inv_def)
  moreover have "p_time p \<in> used_at fc allocs exclude e ip" using assms by (auto simp: used_at_def)
  ultimately show ?thesis by (auto simp: resolve_dom)
qed

lemma cached_used:
  assumes "a \<in> set allocs" "alloc_time_of fc a = Some (ip, t)"
    and "\<forall>r. pending_releases e ip = Some r \<longrightarrow> r \<le> t"
  shows "ip \<in> dom (resolve fc allocs exclude e)"
proof -
  have "t \<in> used_at fc allocs exclude e ip" using assms(1,2) by (auto simp: used_at_def cached_at_def)
  then show ?thesis using assms(3) unfolding resolve_dom by blast
qed

section \<open>Sequences of operations\<close>

datatype exp_op =
    StageAlloc pending
  | UnstageAlloc pending
  | StageRelease addr time
  | UnstageRelease addr time
  | Confirm find_condition "addr \<Rightarrow> time" "ip_allocation list"

fun exp_apply :: "exp_op \<Rightarrow> expectations \<Rightarrow> expectations" where
  "exp_apply (StageAlloc p) e = snd (stage_allocation p e)"
| "exp_apply (UnstageAlloc p) e = unstage_allocation p e"
| "exp_apply (StageRelease ip r) e = stage_release ip r e"
| "exp_apply (UnstageRelease ip r) e = unstage_release ip r e"
| "exp_apply (Confirm fc now allocs) e = confirm fc now allocs e"

lemma exp_inv_apply: "exp_inv e \<Longrightarrow> exp_inv (exp_apply op e)"
  by (cases op) (simp_all add: exp_inv_ops)

lemma expectations_inv_reach: "exp_inv (fold exp_apply ops (new_expectations timeout))"
proof -
  have "exp_inv e \<Longrightarrow> exp_inv (fold exp_apply ops e)" for e
    by (induction ops arbitrary: e) (simp_all add: exp_inv_apply)
  then show ?thesis using exp_inv_ops(1) by blast
qed

text \<open>The operations that end a reservation: its own withdrawal, a release of its address that is
  not older, and a confirmation by a cached allocation that is not older.\<close>

fun ends_reservation :: "exp_op \<Rightarrow> pending \<Rightarrow> bool" where
  "ends_reservation (StageAlloc q) p = False"
| "ends_reservation (UnstageAlloc q) p =
     (p_address q = p_address p \<and> p_id q = p_id p \<and> p_time q = p_time p)"
| "ends_reservation (StageRelease ip r) p = (ip = p_address p \<and> p_time p \<le> r)"
| "ends_reservation (UnstageRelease ip r) p = False"
| "ends_reservation (Confirm fc now allocs) p =
     (\<exists>t \<in> cached_at fc allocs (p_address p). p_time p \<le> t)"

lemma reservation_kept:
  assumes "exp_inv e" "pending_allocs e ip = Some p"
  shows "ends_reservation op p \<longleftrightarrow> pending_allocs (exp_apply op e) ip = None"
    and "\<not> ends_reservation op p \<Longrightarrow>
      \<exists>p'. pending_allocs (exp_apply op e) ip = Some p' \<and> p_id p' = p_id p"
proof -
  have ip: "p_address p = ip" using assms by (simp add: exp_inv_def)
  have "(ends_reservation op p \<and> pending_allocs (exp_apply op e) ip = None) \<or>
    (\<not> ends_reservation op p \<and>
      (\<exists>p'. pending_allocs (exp_apply op e) ip = Some p' \<and> p_id p' = p_id p))"
  proof (cases op)
    case (Confirm fc now allocs)
    show ?thesis
    proof (cases "ends_reservation op p")
      case True
      then have "pending_allocs (confirm fc now allocs e) ip \<noteq> Some q" for q
        using Confirm confirm_pending [of fc now allocs e ip q] assms(2) ip
        by (auto simp: not_le [symmetric])
      then show ?thesis using Confirm True by (cases "pending_allocs (confirm fc now allocs e) ip") auto
    next
      case False
      then show ?thesis using Confirm confirm_pending [of fc now allocs e ip p] assms(2) ip
        by (auto simp: not_le)
    qed
  qed (use assms(2) ip in \<open>auto simp: stage_allocation_def unstage_allocation_def stage_release_def
      unstage_release_def split: option.splits\<close>)
  then show "ends_reservation op p \<longleftrightarrow> pending_allocs (exp_apply op e) ip = None"
    "\<not> ends_reservation op p \<Longrightarrow>
      \<exists>p'. pending_allocs (exp_apply op e) ip = Some p' \<and> p_id p' = p_id p" by auto
qed

section \<open>Properties\<close>

text \<open>C24: Resolve, exactly: an address is reported as used when the cache holds it, or a pending
  allocation not of the excluded ID does, at a time that no pending release of the address is
  later than.\<close>

theorem resolve_exact:
  "resolve fc allocs exclude e ip \<noteq> None \<longleftrightarrow>
     (\<exists>t. (t \<in> cached_at fc allocs ip \<or>
        (\<exists>p. pending_allocs e ip = Some p \<and> (exclude = '''' \<or> p_id p \<noteq> exclude) \<and> t = p_time p)) \<and>
       (\<forall>r. pending_releases e ip = Some r \<longrightarrow> r \<le> t))"
  using resolve_dom [of ip fc allocs exclude e] by (auto simp: used_at_def domIff)

theorem resolve_exact_witness:
  "resolve (\<lambda>_ _. None) [] ''a''
     (snd (stage_allocation \<lparr>p_id = ''b'', p_address = Addr4 7, p_time = 5\<rparr> (new_expectations 60)))
     (Addr4 7) \<noteq> None"
  unfolding resolve_exact
  by (auto simp: stage_allocation_def new_expectations_def)

text \<open>Over every sequence of operations from a new tracker, no address is both a pending
  allocation and a pending release, and every pending allocation is filed under its address.\<close>

theorem expectations_invariant:
  "exp_inv (fold exp_apply ops (new_expectations timeout))"
  by (rule expectations_inv_reach)

text \<open>C18: A reservation holds: in every reachable tracker, one operation removes the pending
  allocation of an address exactly when it withdraws that very reservation, releases the address
  at a time not before it, or confirms it from a cached allocation not older than it; otherwise
  the address stays reserved for the same ID, and no other ID can stage it.\<close>

theorem reservation_holds:
  assumes "e = fold exp_apply ops (new_expectations timeout)" "pending_allocs e ip = Some p"
  shows "(pending_allocs (exp_apply op e) ip = None \<longleftrightarrow> ends_reservation op p) \<and>
    (\<not> ends_reservation op p \<longrightarrow>
      (\<exists>p'. pending_allocs (exp_apply op e) ip = Some p' \<and> p_id p' = p_id p)) \<and>
    (\<forall>q. p_address q = ip \<and> p_id q \<noteq> p_id p \<longrightarrow> stage_allocation q e = (False, e))"
proof -
  have inv: "exp_inv e" using expectations_inv_reach assms(1) by simp
  then show ?thesis
    using reservation_kept [OF inv assms(2), of op] assms(2)
    by (auto simp: stage_allocation_def)
qed

theorem reservation_holds_witness:
  "stage_allocation \<lparr>p_id = ''b'', p_address = Addr4 7, p_time = 9\<rparr>
     (fold exp_apply [StageAlloc \<lparr>p_id = ''a'', p_address = Addr4 7, p_time = 5\<rparr>] (new_expectations 60)) =
   (False, fold exp_apply [StageAlloc \<lparr>p_id = ''a'', p_address = Addr4 7, p_time = 5\<rparr>] (new_expectations 60))"
proof -
  have "pending_allocs (fold exp_apply [StageAlloc \<lparr>p_id = ''a'', p_address = Addr4 7, p_time = 5\<rparr>]
      (new_expectations 60)) (Addr4 7) = Some \<lparr>p_id = ''a'', p_address = Addr4 7, p_time = 5\<rparr>"
    by (simp add: stage_allocation_def new_expectations_def)
  from reservation_holds [OF refl this] show ?thesis by simp
qed

text \<open>C25: Confirm, exactly: it keeps a pending allocation when every cached allocation of the
  address is older, and a pending release when no cached allocation of the address is newer and,
  with none cached, the timeout has not passed; it never adds an entry.\<close>

theorem confirm_exact:
  "(pending_allocs (confirm fc now allocs e) ip = Some p \<longleftrightarrow>
      pending_allocs e ip = Some p \<and> (\<forall>t \<in> cached_at fc allocs ip. t < p_time p)) \<and>
   (pending_releases (confirm fc now allocs e) ip = Some r \<longleftrightarrow>
      pending_releases e ip = Some r \<and> (\<forall>t \<in> cached_at fc allocs ip. t \<le> r) \<and>
      (cached_at fc allocs ip = {} \<longrightarrow> now ip - r \<le> allocation_timeout e))"
  using confirm_pending confirm_release by blast

theorem confirm_exact_witness:
  "pending_releases (confirm (\<lambda>_ _. None) (\<lambda>_. 100) []
     (stage_release (Addr4 7) 5 (new_expectations 60))) (Addr4 7) \<noteq> Some 5"
  using confirm_exact [of "\<lambda>_ _. None" "\<lambda>_. 100" "[]" "stage_release (Addr4 7) 5 (new_expectations 60)"
      "Addr4 7" undefined 5]
  by (simp add: stage_release_def new_expectations_def)

end
