(* ===== verification/IP_Pool.thy ===== *)
theory IP_Pool
  imports Api_Types
begin

text \<open>
  \<open>internal/controller/ip_pool.go\<close> and \<open>ip_pool_webhook.go\<close>: the addresses of a pool
  from the texts of its spec, and the admission webhook that refuses a pool with an invalid
  entry or an overlap with another pool.
\<close>

section \<open>ParseIPPoolAddresses\<close>

datatype pool_error = EntryError range_error | FamilyMismatch ip_family

text \<open>One entry of the loop: the range and whether it is an exclusion, or the error.\<close>

definition pool_entry :: "ip_family \<Rightarrow> bool \<Rightarrow> string \<Rightarrow> pool_error + (ip_range \<times> bool)" where
  "pool_entry fam ex s =
     (case parse_ip_range s ex of
        Inl err \<Rightarrow> Inl (EntryError err)
      | Inr (r, excluded) \<Rightarrow>
          if range_family r \<noteq> fam then Inl (FamilyMismatch (range_family r))
          else Inr (r, excluded))"

fun pool_loop :: "ip_family \<Rightarrow> bool \<Rightarrow> string list \<Rightarrow>
    ip_range list \<times> ip_range list \<times> pool_error option list" where
  "pool_loop fam ex [] = ([], [], [])"
| "pool_loop fam ex (s # ss) =
     (case pool_loop fam ex ss of (ins, outs, errs) \<Rightarrow>
        (case pool_entry fam ex s of
           Inl err \<Rightarrow> (ins, outs, Some err # errs)
         | Inr (r, True) \<Rightarrow> (ins, r # outs, None # errs)
         | Inr (r, False) \<Rightarrow> (r # ins, outs, None # errs)))"

definition parse_pool_addresses ::
  "string list \<Rightarrow> ip_family \<Rightarrow> bool \<Rightarrow> ip_range_set \<times> pool_error option list" where
  "parse_pool_addresses addresses fam ex =
     (case pool_loop fam ex addresses of (ins, outs, errs) \<Rightarrow>
        (rs_subtract (new_range_set ins) outs, errs))"

definition spec_addresses :: "ippool_spec \<Rightarrow> ip_range_set \<times> pool_error option list" where
  "spec_addresses sp = parse_pool_addresses (pool_addresses sp) (pool_family sp) (pool_avoid_buggy sp)"

section \<open>The webhook\<close>

datatype field_error =
    InvalidEntry nat string pool_error
  | OverlapsPool string ip_range_set

datatype 'e webhook_error =
    InternalError 'e
  | InvalidPool string "field_error list"

text \<open>The entries with an error, with their index.\<close>

definition entry_errors :: "string list \<Rightarrow> pool_error option list \<Rightarrow> field_error list" where
  "entry_errors addresses errs =
     concat (map (\<lambda>i. case errs ! i of None \<Rightarrow> [] | Some e \<Rightarrow> [InvalidEntry i (addresses ! i) e])
       [0..<length errs])"

fun overlap_errors :: "string \<Rightarrow> ip_range_set \<Rightarrow> ip_pool list \<Rightarrow> field_error list" where
  "overlap_errors name s [] = []"
| "overlap_errors name s (p # ps) =
     (if pool_name p = name then overlap_errors name s ps
      else
        (let inter = rs_intersections s (fst (spec_addresses (pool_spec p))) in
         if length (all_ranges inter) > 0
         then OverlapsPool (pool_name p) inter # overlap_errors name s ps
         else overlap_errors name s ps))"

definition validate_pool :: "'e + ip_pool list \<Rightarrow> ip_pool \<Rightarrow> 'e webhook_error option" where
  "validate_pool listing pool =
     (case listing of
        Inl e \<Rightarrow> Some (InternalError e)
      | Inr pools \<Rightarrow>
          (case spec_addresses (pool_spec pool) of (s, errs) \<Rightarrow>
            (let all_errs = entry_errors (pool_addresses (pool_spec pool)) errs @
                   overlap_errors (pool_name pool) s pools
             in if length all_errs > 0 then Some (InvalidPool (pool_name pool) all_errs) else None)))"

definition validate_create :: "'e + ip_pool list \<Rightarrow> ip_pool \<Rightarrow> 'e webhook_error option" where
  "validate_create listing pool = validate_pool listing pool"

definition validate_update :: "'e + ip_pool list \<Rightarrow> ip_pool \<Rightarrow> ip_pool \<Rightarrow> 'e webhook_error option" where
  "validate_update listing old new = validate_pool listing new"

definition validate_delete :: "'e + ip_pool list \<Rightarrow> ip_pool \<Rightarrow> 'e webhook_error option" where
  "validate_delete listing pool = None"

end
