(* ===== verification/IP_Pool_Props.thy ===== *)
theory IP_Pool_Props
  imports IP_Pool
begin

text \<open>
  What a pool's entries mean as a set of addresses, through the contract \<open>address_set\<close> of
  the range sets, and what the webhook guarantees: it accepts exactly the pools whose entries
  all parse and which share no address with another pool, so pools admitted one after the
  other are pairwise disjoint.
\<close>

section \<open>Entries\<close>

definition entry_ok :: "ip_family \<Rightarrow> bool \<Rightarrow> string \<Rightarrow> bool" where
  "entry_ok fam ex s \<longleftrightarrow> (case pool_entry fam ex s of Inl _ \<Rightarrow> False | Inr _ \<Rightarrow> True)"

definition entry_ranges :: "bool \<Rightarrow> ip_family \<Rightarrow> bool \<Rightarrow> string list \<Rightarrow> ip_range list" where
  "entry_ranges b fam ex ss =
     concat (map (\<lambda>s. case pool_entry fam ex s of Inr (r, b') \<Rightarrow> if b' = b then [r] else [] | _ \<Rightarrow> []) ss)"

definition included :: "ip_family \<Rightarrow> bool \<Rightarrow> string list \<Rightarrow> addr set" where
  "included fam ex ss = addrs_of (entry_ranges False fam ex ss)"

definition excluded :: "ip_family \<Rightarrow> bool \<Rightarrow> string list \<Rightarrow> addr set" where
  "excluded fam ex ss = addrs_of (entry_ranges True fam ex ss)"

lemma pool_loop_eq:
  "pool_loop fam ex ss =
     (entry_ranges False fam ex ss, entry_ranges True fam ex ss,
      map (\<lambda>s. case pool_entry fam ex s of Inl e \<Rightarrow> Some e | Inr _ \<Rightarrow> None) ss)"
  by (induction ss) (auto simp: entry_ranges_def split: sum.splits prod.splits bool.splits)

lemma parse_pool_addresses_eq:
  "parse_pool_addresses ss fam ex =
     (rs_subtract (rs_merge empty_range_set (entry_ranges False fam ex ss)) (entry_ranges True fam ex ss),
      map (\<lambda>s. case pool_entry fam ex s of Inl e \<Rightarrow> Some e | Inr _ \<Rightarrow> None) ss)"
  by (simp add: parse_pool_addresses_def pool_loop_eq new_range_set_def)

lemma pool_entry_wf:
  "zone_free s \<Longrightarrow> pool_entry fam ex s = Inr (r, b) \<Longrightarrow> wf_range r \<and> range_family r = fam"
  using parse_ip_range_wf [of s ex r b]
  by (auto simp: pool_entry_def split: sum.splits prod.splits if_splits)

lemma entry_ranges_wf:
  assumes "\<forall>s \<in> set ss. zone_free s"
  shows "\<forall>r \<in> set (entry_ranges b fam ex ss). wf_range r \<and> range_family r = fam"
  using assms
proof (induction ss)
  case (Cons s ss)
  then show ?case using pool_entry_wf [of s fam ex]
    by (cases "pool_entry fam ex s") (auto simp: entry_ranges_def split: if_splits)
qed (simp add: entry_ranges_def)

lemma pool_set_meaning:
  assumes "\<forall>s \<in> set ss. zone_free s"
  shows "wf_range_set (fst (parse_pool_addresses ss fam ex))"
    and "denote (fst (parse_pool_addresses ss fam ex)) \<inter> excluded fam ex ss = {}"
    and "included fam ex ss - excluded fam ex ss \<subseteq> denote (fst (parse_pool_addresses ss fam ex))"
    and "excluded fam ex ss \<subseteq> included fam ex ss \<Longrightarrow>
      denote (fst (parse_pool_addresses ss fam ex)) = included fam ex ss - excluded fam ex ss"
  using rset.pool_meaning [of "entry_ranges False fam ex ss" "entry_ranges True fam ex ss"]
    entry_ranges_wf [OF assms]
  by (simp_all add: parse_pool_addresses_eq included_def excluded_def)

lemma of_family_other:
  "\<forall>r \<in> set rs. range_family r = fam \<Longrightarrow> f \<noteq> fam \<Longrightarrow> of_family f rs = []"
  by (simp add: of_family_def filter_empty_conv)

lemma pool_set_family:
  assumes "\<forall>s \<in> set ss. zone_free s"
  shows "fam \<noteq> IPv4 \<Longrightarrow> ranges4 (fst (parse_pool_addresses ss fam ex)) = []"
    and "fam \<noteq> IPv6 \<Longrightarrow> ranges6 (fst (parse_pool_addresses ss fam ex)) = []"
  using entry_ranges_wf [OF assms] of_family_other [of "entry_ranges _ fam ex ss" fam]
  by (auto simp: parse_pool_addresses_eq rs_subtract_def rs_merge_def empty_range_set_def
      merge_ranges_def subtract_ranges_def)

lemma denote_family:
  assumes "wf_range_set s" "a \<in> denote s"
  shows "get_ip_family a = IPv4 \<and> ranges4 s \<noteq> [] \<or> get_ip_family a = IPv6 \<and> ranges6 s \<noteq> []"
proof -
  have s: "\<forall>r \<in> set (ranges4 s). wf_range r \<and> range_family r = IPv4"
    "\<forall>r \<in> set (ranges6 s). wf_range r \<and> range_family r = IPv6"
    using assms(1) wf_range_families by (auto simp: wf_range_set_def norm_ranges_def wf_range_def)
  obtain r where r: "r \<in> set (ranges4 s) \<or> r \<in> set (ranges6 s)" "a \<in> range_addrs r"
    using assms(2) by (auto simp: denote_def all_ranges_def)
  show ?thesis
  proof (cases "r \<in> set (ranges4 s)")
    case True
    then show ?thesis using s r range_addrs_family [of r a] by auto
  next
    case False
    then show ?thesis using s r range_addrs_family [of r a] by auto
  qed
qed

lemma pool_denote_family:
  assumes "\<forall>s \<in> set ss. zone_free s" "a \<in> denote (fst (parse_pool_addresses ss fam ex))"
  shows "get_ip_family a = fam"
  using denote_family [OF pool_set_meaning(1) [OF assms(1)] assms(2)]
    pool_set_family [OF assms(1), of fam ex] by metis

section \<open>The webhook\<close>

definition zone_free_pool :: "ip_pool \<Rightarrow> bool" where
  "zone_free_pool p \<longleftrightarrow> (\<forall>s \<in> set (pool_addresses (pool_spec p)). zone_free s)"

definition pool_set :: "ip_pool \<Rightarrow> ip_range_set" where
  "pool_set p = fst (spec_addresses (pool_spec p))"

definition pool_denote :: "ip_pool \<Rightarrow> addr set" where
  "pool_denote p = denote (pool_set p)"

definition entries_ok :: "ip_pool \<Rightarrow> bool" where
  "entries_ok p \<longleftrightarrow> list_all (entry_ok (pool_family (pool_spec p)) (pool_avoid_buggy (pool_spec p)))
     (pool_addresses (pool_spec p))"

lemma pool_set_wf: "zone_free_pool p \<Longrightarrow> wf_range_set (pool_set p)"
  using pool_set_meaning(1) by (simp add: zone_free_pool_def pool_set_def spec_addresses_def)

lemma entry_errors_empty:
  "entry_errors ss errs = [] \<longleftrightarrow> (\<forall>e \<in> set errs. e = None)"
  by (fastforce simp: entry_errors_def in_set_conv_nth split: option.splits)

lemma overlap_errors_empty:
  assumes "zone_free_pool p" "\<forall>q \<in> set ps. zone_free_pool q"
  shows "overlap_errors n (pool_set p) ps = [] \<longleftrightarrow>
    (\<forall>q \<in> set ps. pool_name q \<noteq> n \<longrightarrow> pool_denote p \<inter> pool_denote q = {})"
  using assms(2)
proof (induction ps)
  case (Cons q ps)
  have "all_ranges (rs_intersections (pool_set p) (pool_set q)) \<noteq> [] \<longleftrightarrow>
      pool_denote p \<inter> pool_denote q \<noteq> {}"
    unfolding pool_denote_def
    using rset.overlap_iff [OF pool_set_wf pool_set_wf] assms(1) Cons.prems by simp
  then show ?case using Cons by (auto simp: pool_set_def Let_def)
qed simp

lemma validate_pool_iff:
  assumes "zone_free_pool p" "\<forall>q \<in> set ps. zone_free_pool q"
  shows "validate_pool (Inr ps) p = None \<longleftrightarrow> entries_ok p \<and>
    (\<forall>q \<in> set ps. pool_name q \<noteq> pool_name p \<longrightarrow> pool_denote p \<inter> pool_denote q = {})"
  using overlap_errors_empty [OF assms]
  by (auto simp: validate_pool_def entries_ok_def entry_ok_def entry_errors_empty list_all_iff
      spec_addresses_def parse_pool_addresses_eq pool_set_def split: sum.splits)

text \<open>Pools admitted one after the other, each against the stored list.\<close>

inductive admitted :: "ip_pool list \<Rightarrow> bool" where
  start: "admitted []"
| create: "admitted ps \<Longrightarrow> zone_free_pool p \<Longrightarrow> pool_name p \<notin> pool_name ` set ps \<Longrightarrow>
    validate_create (Inr ps :: string + ip_pool list) p = None \<Longrightarrow> admitted (p # ps)"
| update: "admitted (us @ old # vs) \<Longrightarrow> zone_free_pool p \<Longrightarrow> pool_name p = pool_name old \<Longrightarrow>
    validate_update (Inr (us @ old # vs) :: string + ip_pool list) old p = None \<Longrightarrow>
    admitted (us @ p # vs)"
| delete: "admitted (us @ p # vs) \<Longrightarrow> admitted (us @ vs)"

definition disjoint_pools :: "ip_pool list \<Rightarrow> bool" where
  "disjoint_pools ps \<longleftrightarrow> distinct (map pool_name ps) \<and> list_all zone_free_pool ps \<and>
     list_all entries_ok ps \<and>
     (\<forall>p \<in> set ps. \<forall>q \<in> set ps. pool_name p \<noteq> pool_name q \<longrightarrow> pool_denote p \<inter> pool_denote q = {})"

lemma admitted_disjoint: "admitted ps \<Longrightarrow> disjoint_pools ps"
proof (induction rule: admitted.induct)
  case start
  then show ?case by (simp add: disjoint_pools_def)
next
  case (create ps p)
  then have "\<forall>q \<in> set ps. zone_free_pool q" by (simp add: disjoint_pools_def list_all_iff)
  then have new: "entries_ok p"
      "\<forall>q \<in> set ps. pool_name q \<noteq> pool_name p \<longrightarrow> pool_denote p \<inter> pool_denote q = {}"
    using create validate_pool_iff unfolding validate_create_def by blast+
  then show ?case using create unfolding disjoint_pools_def
    by (simp add: Int_commute [of "pool_denote p"])
next
  case (update us old vs p)
  then have z: "\<forall>q \<in> set (us @ old # vs). zone_free_pool q"
    by (auto simp: disjoint_pools_def list_all_iff)
  then have new: "entries_ok p" "\<forall>q \<in> set (us @ old # vs). pool_name q \<noteq> pool_name p \<longrightarrow>
      pool_denote p \<inter> pool_denote q = {}"
    using update validate_pool_iff [OF update.hyps(2) z] unfolding validate_update_def by blast+
  moreover have "\<forall>q \<in> set (us @ vs). pool_name q \<noteq> pool_name p"
  proof -
    have "distinct (map pool_name (us @ old # vs))" using update.IH by (simp add: disjoint_pools_def)
    then have "pool_name old \<notin> pool_name ` set (us @ vs)" by auto
    then show ?thesis using update.hyps(3) image_eqI by metis
  qed
  ultimately have "\<forall>q \<in> set (us @ vs). pool_denote p \<inter> pool_denote q = {} \<and> pool_denote q \<inter> pool_denote p = {}"
    by auto
  then show ?case
    using update new(1) unfolding disjoint_pools_def by simp
next
  case (delete us p vs)
  then show ?case by (auto simp: disjoint_pools_def)
qed

section \<open>Properties\<close>

text \<open>C21: The addresses of a pool, for entries without a zone: the set is in normal form, no
  address of an exclusion entry is in it, every address of an inclusion entry that no exclusion
  names is in it, every address is of the pool's family, and when the exclusions lie inside the
  inclusions it is exactly the difference.\<close>

theorem pool_addresses_meaning:
  assumes "\<forall>s \<in> set ss. zone_free s"
  shows "wf_range_set (fst (parse_pool_addresses ss fam ex)) \<and>
    denote (fst (parse_pool_addresses ss fam ex)) \<inter> excluded fam ex ss = {} \<and>
    included fam ex ss - excluded fam ex ss \<subseteq> denote (fst (parse_pool_addresses ss fam ex)) \<and>
    (\<forall>a \<in> denote (fst (parse_pool_addresses ss fam ex)). get_ip_family a = fam) \<and>
    (excluded fam ex ss \<subseteq> included fam ex ss \<longrightarrow>
      denote (fst (parse_pool_addresses ss fam ex)) = included fam ex ss - excluded fam ex ss)"
  using pool_set_meaning [OF assms, of fam ex] pool_denote_family [OF assms] by blast

theorem pool_addresses_meaning_witness:
  "denote (fst (parse_pool_addresses [''10.0.0.0/30'', ''!10.0.0.2''] IPv4 False)) =
     included IPv4 False [''10.0.0.0/30'', ''!10.0.0.2''] - excluded IPv4 False [''10.0.0.0/30'', ''!10.0.0.2'']"
proof -
  have i: "entry_ranges False IPv4 False [''10.0.0.0/30'', ''!10.0.0.2''] =
      [\<lparr>rstart = Addr4 0x0a000000, rend = Addr4 0x0a000003\<rparr>]"
    and o: "entry_ranges True IPv4 False [''10.0.0.0/30'', ''!10.0.0.2''] =
      [\<lparr>rstart = Addr4 0x0a000002, rend = Addr4 0x0a000002\<rparr>]"
    by code_simp+
  have "excluded IPv4 False [''10.0.0.0/30'', ''!10.0.0.2''] \<subseteq>
      included IPv4 False [''10.0.0.0/30'', ''!10.0.0.2'']"
    by (auto simp: excluded_def included_def i o range_addrs_def)
  then show ?thesis
    using pool_addresses_meaning [of "[''10.0.0.0/30'', ''!10.0.0.2'']" IPv4 False]
    by (simp add: zone_free_def)
qed

text \<open>The error list of a pool has one slot per entry: the entry's own error (it does not
  parse, or it parses to another family), or none.\<close>

theorem pool_errors_positional:
  "snd (parse_pool_addresses ss fam ex) =
     map (\<lambda>s. case parse_ip_range s ex of
        Inl err \<Rightarrow> Some (EntryError err)
      | Inr (r, _) \<Rightarrow> if range_family r = fam then None else Some (FamilyMismatch (range_family r))) ss"
  by (auto simp: parse_pool_addresses_eq pool_entry_def split: sum.splits)

text \<open>C16: The webhook accepts a pool exactly when every entry parses with the pool's family and the
  pool shares no address with a stored pool of another name, for pools without zones in their
  entries.\<close>

theorem webhook_accepts_iff:
  assumes "zone_free_pool p" "\<forall>q \<in> set ps. zone_free_pool q"
  shows "validate_pool (Inr ps) p = None \<longleftrightarrow> entries_ok p \<and>
    (\<forall>q \<in> set ps. pool_name q \<noteq> pool_name p \<longrightarrow> pool_denote p \<inter> pool_denote q = {})"
  using validate_pool_iff [OF assms] .

definition sample_pool :: "string \<Rightarrow> string list \<Rightarrow> ip_pool" where
  "sample_pool n ss =
     \<lparr>pool_meta = \<lparr>obj_name = n, obj_namespace = '''', obj_uid = n, obj_generation = 1,
        obj_deleting = False, obj_finalizers = [], obj_annotations = (\<lambda>_. None), obj_labels = (\<lambda>_. None)\<rparr>,
      pool_spec = \<lparr>pool_family = IPv4, pool_addresses = ss, pool_auto_assign = True,
        pool_avoid_buggy = False, pool_advertise = True, pool_interface = ''''\<rparr>,
      pool_status = \<lparr>total_addresses = '''', allocated_addresses = '''', free_addresses = '''',
        pool_conditions = [], pool_observed = 0\<rparr>\<rparr>"

lemma sample_pool_simps:
  "pool_name (sample_pool n ss) = n"
  "zone_free_pool (sample_pool n ss) \<longleftrightarrow> (\<forall>s \<in> set ss. zone_free s)"
  by (simp_all add: sample_pool_def zone_free_pool_def)

theorem webhook_accepts_iff_witness:
  "entries_ok (sample_pool ''b'' [''10.0.0.4-10.0.0.9'']) \<and>
    pool_denote (sample_pool ''b'' [''10.0.0.4-10.0.0.9'']) \<inter>
      pool_denote (sample_pool ''a'' [''10.0.0.0/30'']) = {}"
proof -
  let ?a = "sample_pool ''a'' [''10.0.0.0/30'']" and ?b = "sample_pool ''b'' [''10.0.0.4-10.0.0.9'']"
  have "validate_pool (Inr [?a] :: string + ip_pool list) ?b = None" by code_simp
  then show ?thesis
    using webhook_accepts_iff [of ?b "[?a]", where 'a = string]
    by (simp add: sample_pool_simps zone_free_def)
qed

text \<open>C17: Pools created, updated and deleted one after the other through the webhook, each
  validated against the stored pools, are pairwise disjoint: no address is in two pools.\<close>

theorem admitted_pools_disjoint:
  assumes "admitted ps" "p \<in> set ps" "q \<in> set ps" "a \<in> pool_denote p" "a \<in> pool_denote q"
  shows "pool_name p = pool_name q"
  using admitted_disjoint [OF assms(1)] assms by (auto simp: disjoint_pools_def)

theorem admitted_pools_disjoint_witness:
  "\<exists>ps. admitted ps \<and> length ps = 2 \<and> (\<forall>p \<in> set ps. \<forall>q \<in> set ps. \<forall>a \<in> pool_denote p \<inter> pool_denote q.
     pool_name p = pool_name q)"
proof -
  let ?a = "sample_pool ''a'' [''10.0.0.0/30'']" and ?b = "sample_pool ''b'' [''10.0.0.4-10.0.0.9'']"
  have z: "zone_free_pool ?a" "zone_free_pool ?b"
    by (simp_all add: sample_pool_simps zone_free_def)
  have "validate_create (Inr [] :: string + ip_pool list) ?a = None"
    "validate_create (Inr [?a] :: string + ip_pool list) ?b = None" by code_simp+
  then have "admitted [?b, ?a]"
    by (intro admitted.create admitted.start z) (simp_all add: sample_pool_simps)
  then have "\<forall>p \<in> set [?b, ?a]. \<forall>q \<in> set [?b, ?a]. \<forall>a \<in> pool_denote p \<inter> pool_denote q.
      pool_name p = pool_name q"
    using admitted_pools_disjoint [of "[?b, ?a]"] by blast
  moreover have "length [?b, ?a] = 2" by simp
  ultimately show ?thesis using \<open>admitted [?b, ?a]\<close> by blast
qed

end
