(* ===== verification/Allocation_Reconciler.thy ===== *)
theory Allocation_Reconciler
  imports Expectations_Props IP_Pool_Props
begin

text \<open>
  \<open>internal/controller/ip_allocation_reconciler.go\<close>: one call of \<open>Reconcile\<close> for an
  \<open>IPAllocation\<close>. The Kubernetes client and the backend answer through the record
  \<open>alloc_env\<close> (each call happens at most once per reconcile, or once per address), the
  functions of the Kubernetes helper packages are the record \<open>kube_lib\<close>, the texts that
  \<open>fmt.Sprintf\<close> renders are the function \<open>render\<close>. The result is the outcome, the new
  expectations and the calls made, in order.
\<close>

section \<open>The outside world\<close>

record kube_lib =
  find_cond :: find_condition
  set_cond :: "condition list \<Rightarrow> condition \<Rightarrow> condition list \<times> bool"
  contains_finalizer :: "object_meta \<Rightarrow> string \<Rightarrow> bool"
  add_finalizer :: "object_meta \<Rightarrow> string \<Rightarrow> object_meta"
  remove_finalizer :: "object_meta \<Rightarrow> string \<Rightarrow> object_meta"

text \<open>A backend error: its text, and its detail when it is an \<open>*api.Error\<close>.\<close>

record backend_error =
  be_detail :: "string option"
  be_text :: string

datatype ('e, 'a) get_result = NotFound | GetError 'e | Found 'a

datatype alloc_message =
    MsgAddressInvalid string
  | MsgAlreadyUsed addr
  | MsgNotInNamedPool addr string
  | MsgNotInPool addr
  | MsgPoolNotFound string
  | MsgFamilyMismatch string
  | MsgPoolExhausted string
  | MsgNoFreeAddress
  | MsgAllocated addr string

datatype 'e reconcile_error =
    ClientError 'e
  | StatusAddressInvalid string
  | BackendFailed backend_error
  | AllocationFailed string
  | ProgrammingFailed string

datatype 'e outcome = Success | Failure "'e reconcile_error" | Panic

datatype alloc_call =
    PatchFinalizers object_meta
  | UpdateStatus ip_allocation
  | DeleteAdvertisement addr
  | EnsureAdvertisement addr string
  | RecordEvent string string

record 'e alloc_env =
  env_get :: "('e, ip_allocation) get_result"
  env_pools :: "'e + ip_pool list"
  env_allocs :: "'e + ip_allocation list"
  env_since :: "addr \<Rightarrow> time"
  env_release_time :: time
  env_stage_time :: "addr \<Rightarrow> time"
  env_patch :: "object_meta \<Rightarrow> 'e option"
  env_update :: "ip_allocation \<Rightarrow> 'e option"
  env_delete_adv :: "addr \<Rightarrow> backend_error option"
  env_ensure_adv :: "addr \<Rightarrow> string \<Rightarrow> backend_error + string"

type_synonym 'e result = "'e outcome \<times> expectations \<times> alloc_call list"

definition finalizer_name :: string where "finalizer_name = ''mikrolb.de/finalizer''"
definition event_warning :: string where "event_warning = ''Warning''"
definition event_normal :: string where "event_normal = ''Normal''"

section \<open>Deletion\<close>

definition release_alloc ::
  "kube_lib \<Rightarrow> 'e alloc_env \<Rightarrow> ip_allocation \<Rightarrow> addr \<Rightarrow> expectations \<Rightarrow> 'e result" where
  "release_alloc K env alloc ip e =
     (let r = env_release_time env;
          e1 = (if is_valid ip then stage_release ip r e else e);
          meta = remove_finalizer K (alloc_meta alloc) finalizer_name
      in case env_patch env meta of
           Some err \<Rightarrow> (Failure (ClientError err), unstage_release ip r e1, [PatchFinalizers meta])
         | None \<Rightarrow> (Success, e1, [PatchFinalizers meta]))"

definition reconcile_deleted ::
  "kube_lib \<Rightarrow> 'e alloc_env \<Rightarrow> ip_allocation \<Rightarrow> expectations \<Rightarrow> 'e result" where
  "reconcile_deleted K env alloc e =
     (if \<not> contains_finalizer K (alloc_meta alloc) finalizer_name then (Success, e, [])
      else if st_phase (alloc_status alloc) = phase_allocated \<or>
          st_phase (alloc_status alloc) = phase_programmed then
        (case parse_addr (st_address (alloc_status alloc)) of
           None \<Rightarrow> (Failure (StatusAddressInvalid (st_address (alloc_status alloc))), e,
             [RecordEvent event_warning ''AddressInvalid''])
         | Some ip \<Rightarrow>
             (case env_delete_adv env ip of
                Some err \<Rightarrow> (Failure (BackendFailed err), e,
                  [DeleteAdvertisement ip, RecordEvent event_warning ''CleanupFailed''])
              | None \<Rightarrow>
                  (case release_alloc K env alloc ip e of
                     (out, e', calls) \<Rightarrow> (out, e', DeleteAdvertisement ip # calls))))
      else release_alloc K env alloc AddrNone e)"

section \<open>The choice of an address\<close>

datatype alloc_decision =
    Refused string alloc_message
  | Chosen pending ip_pool

definition pool_matches :: "ipallocation_spec \<Rightarrow> ip_pool \<Rightarrow> bool" where
  "pool_matches sp p \<longleftrightarrow>
     \<not> (req_pool sp \<noteq> '''' \<and> pool_name p \<noteq> req_pool sp) \<and>
     \<not> (req_family sp \<noteq> '''' \<and> pool_family (pool_spec p) \<noteq> req_family sp)"

text \<open>The first matching pool that contains the requested address.\<close>

fun pool_of_address :: "ipallocation_spec \<Rightarrow> addr \<Rightarrow> ip_pool list \<Rightarrow> ip_pool option" where
  "pool_of_address sp ip [] = None"
| "pool_of_address sp ip (p # ps) =
     (if \<not> pool_matches sp p then pool_of_address sp ip ps
      else if rs_contains (fst (spec_addresses (pool_spec p))) ip then Some p
      else pool_of_address sp ip ps)"

definition decide_specific ::
  "'e alloc_env \<Rightarrow> string \<Rightarrow> ipallocation_spec \<Rightarrow> ip_pool list \<Rightarrow> (addr \<rightharpoonup> time) \<Rightarrow> expectations \<Rightarrow>
    alloc_decision \<times> expectations" where
  "decide_specific env name sp pools used e =
     (case parse_addr (req_address sp) of
        None \<Rightarrow> (Refused ''AddressInvalid'' (MsgAddressInvalid (req_address sp)), e)
      | Some ip \<Rightarrow>
          if used ip \<noteq> None then (Refused ''AddressAlreadyUsed'' (MsgAlreadyUsed ip), e)
          else (case pool_of_address sp ip pools of
            None \<Rightarrow> (Refused ''AddressNotInPool''
              (if req_pool sp \<noteq> '''' then MsgNotInNamedPool ip (req_pool sp) else MsgNotInPool ip), e)
          | Some p \<Rightarrow>
              (let pend = \<lparr>p_id = name, p_address = ip, p_time = env_stage_time env ip\<rparr> in
               case stage_allocation pend e of
                 (True, e') \<Rightarrow> (Chosen pend p, e')
               | (False, e') \<Rightarrow> (Refused ''AddressAlreadyUsed'' (MsgAlreadyUsed ip), e'))))"

text \<open>The body of the loop over an iterator: \<open>False\<close> is the \<open>break\<close> out of all loops.\<close>

definition try_address ::
  "'e alloc_env \<Rightarrow> string \<Rightarrow> (addr \<rightharpoonup> time) \<Rightarrow> expectations \<times> pending option \<Rightarrow> addr \<Rightarrow>
    bool \<times> expectations \<times> pending option" where
  "try_address env name used s ip =
     (if used ip \<noteq> None then (True, s)
      else (let pend = \<lparr>p_id = name, p_address = ip, p_time = env_stage_time env ip\<rparr> in
            case stage_allocation pend (fst s) of
              (True, e') \<Rightarrow> (False, e', Some pend)
            | (False, e') \<Rightarrow> (True, e', snd s)))"

text \<open>The ranges of a pool, then the pools. \<open>None\<close> is a panic in an iterator.\<close>

fun try_ranges ::
  "'e alloc_env \<Rightarrow> string \<Rightarrow> byte list \<Rightarrow> (addr \<rightharpoonup> time) \<Rightarrow> ip_range list \<Rightarrow> expectations \<Rightarrow>
    (expectations \<times> pending option) option" where
  "try_ranges env name h used [] e = Some (e, None)"
| "try_ranges env name h used (r # rs) e =
     (case range_iter r h (try_address env name used) (e, None) of
        None \<Rightarrow> None
      | Some (e', Some pend) \<Rightarrow> Some (e', Some pend)
      | Some (e', None) \<Rightarrow> try_ranges env name h used rs e')"

fun try_pools ::
  "'e alloc_env \<Rightarrow> string \<Rightarrow> byte list \<Rightarrow> ipallocation_spec \<Rightarrow> (addr \<rightharpoonup> time) \<Rightarrow> ip_pool list \<Rightarrow>
    expectations \<Rightarrow> (expectations \<times> (pending \<times> ip_pool) option) option" where
  "try_pools env name h sp used [] e = Some (e, None)"
| "try_pools env name h sp used (p # ps) e =
     (if \<not> pool_matches sp p then try_pools env name h sp used ps e
      else if req_pool sp = '''' \<and> \<not> pool_auto_assign (pool_spec p)
      then try_pools env name h sp used ps e
      else
        (case try_ranges env name h used
            (ranges_for_family (fst (spec_addresses (pool_spec p))) (pool_family (pool_spec p))) e of
           None \<Rightarrow> None
         | Some (e', Some pend) \<Rightarrow> Some (e', Some (pend, p))
         | Some (e', None) \<Rightarrow> try_pools env name h sp used ps e'))"

text \<open>Why a dynamic allocation found nothing.\<close>

definition dynamic_failure :: "ipallocation_spec \<Rightarrow> ip_pool list \<Rightarrow> alloc_decision" where
  "dynamic_failure sp pools =
     (if req_pool sp \<noteq> '''' then
        (case filter (\<lambda>p. pool_name p = req_pool sp) pools of
           [] \<Rightarrow> Refused ''PoolNotFound'' (MsgPoolNotFound (req_pool sp))
         | p # _ \<Rightarrow>
             if req_family sp \<noteq> '''' \<and> pool_family (pool_spec p) \<noteq> req_family sp
             then Refused ''PoolIPFamilyMismatch'' (MsgFamilyMismatch (req_pool sp))
             else Refused ''PoolExhausted'' (MsgPoolExhausted (req_pool sp)))
      else Refused ''PoolExhausted'' MsgNoFreeAddress)"

definition decide ::
  "'e alloc_env \<Rightarrow> byte list \<Rightarrow> string \<Rightarrow> ipallocation_spec \<Rightarrow> ip_pool list \<Rightarrow> (addr \<rightharpoonup> time) \<Rightarrow>
    expectations \<Rightarrow> (alloc_decision \<times> expectations) option" where
  "decide env h name sp pools used e =
     (if req_address sp \<noteq> '''' then Some (decide_specific env name sp pools used e)
      else (case try_pools env name h sp used pools e of
        None \<Rightarrow> None
      | Some (e', Some (pend, p)) \<Rightarrow> Some (Chosen pend p, e')
      | Some (e', None) \<Rightarrow> Some (dynamic_failure sp pools, e')))"

section \<open>The status\<close>

definition mk_condition :: "string \<Rightarrow> string \<Rightarrow> string \<Rightarrow> string \<Rightarrow> int \<Rightarrow> condition" where
  "mk_condition ty status reason msg gen =
     \<lparr>cond_type = ty, cond_status = status, cond_reason = reason, cond_message = msg,
      cond_generation = gen, cond_time = 0\<rparr>"

text \<open>The status fields and whether they changed, the Allocated condition, the event.\<close>

definition apply_decision ::
  "(alloc_message \<Rightarrow> string) \<Rightarrow> alloc_decision \<Rightarrow> ip_allocation \<Rightarrow>
    ip_allocation \<times> condition \<times> bool \<times> alloc_call list" where
  "apply_decision render d alloc =
     (let st = alloc_status alloc in
      case d of
        Refused reason msg \<Rightarrow>
          (if st_phase st \<noteq> phase_failed
           then alloc\<lparr>alloc_status := st\<lparr>st_phase := phase_failed, st_address := '''',
             st_advertised := False, st_interface := ''''\<rparr>\<rparr>
           else alloc,
           mk_condition type_allocated cond_false reason (render msg) (obj_generation (alloc_meta alloc)),
           st_phase st \<noteq> phase_failed,
           [RecordEvent event_warning reason])
      | Chosen pend p \<Rightarrow>
          (let ip_text = addr_string (p_address pend);
               changed = (st_phase st \<noteq> phase_allocated \<or> st_address st \<noteq> ip_text) in
           (if changed
            then alloc\<lparr>alloc_status := st\<lparr>st_phase := phase_allocated, st_address := ip_text,
              st_advertised := pool_advertise (pool_spec p),
              st_interface := pool_interface (pool_spec p)\<rparr>\<rparr>
            else alloc,
            mk_condition type_allocated cond_true ''Success''
              (render (MsgAllocated (p_address pend) (pool_name p))) 0,
            changed,
            [RecordEvent event_normal ''IPAllocated''])))"

text \<open>\<open>meta.SetStatusCondition\<close> on the allocation, with the change flag accumulated.\<close>

definition put_condition :: "kube_lib \<Rightarrow> condition \<Rightarrow> ip_allocation \<times> bool \<Rightarrow> ip_allocation \<times> bool" where
  "put_condition K c s =
     (case set_cond K (st_conditions (alloc_status (fst s))) c of
        (cs, changed) \<Rightarrow>
          ((fst s)\<lparr>alloc_status := (alloc_status (fst s))\<lparr>st_conditions := cs\<rparr>\<rparr>, snd s \<or> changed))"

text \<open>
  \<open>strings.ToUpper(m[:1]) + m[1:]\<close>, which panics on the empty message. Messages are ASCII.
\<close>

definition to_upper_char :: "char \<Rightarrow> char" where
  "to_upper_char c =
     (let n = (of_char c :: nat) in if 97 \<le> n \<and> n \<le> 122 then char_of (n - 32) else c)"

definition capitalize :: "string \<Rightarrow> string option" where
  "capitalize m = (case m of [] \<Rightarrow> None | c # s \<Rightarrow> Some (to_upper_char c # s))"

text \<open>What the programming step leaves: the Programmed condition, the Ready condition, the failure.\<close>

record programming =
  pr_alloc :: ip_allocation
  pr_changed :: bool
  pr_programmed :: condition
  pr_ready_status :: string
  pr_ready_reason :: string
  pr_ready_message :: string
  pr_failure :: "string option"
  pr_calls :: "alloc_call list"

definition program_advertised ::
  "'e alloc_env \<Rightarrow> addr \<Rightarrow> string \<Rightarrow> ip_allocation \<Rightarrow> programming option" where
  "program_advertised env ip iface alloc =
     (let gen = obj_generation (alloc_meta alloc) in
      case env_ensure_adv env ip iface of
        Inl err \<Rightarrow>
          (let msg = (case be_detail err of Some detail \<Rightarrow> detail | None \<Rightarrow> be_text err) in
           case capitalize msg of
             None \<Rightarrow> None
           | Some m \<Rightarrow> Some
              \<lparr>pr_alloc = alloc, pr_changed = False,
               pr_programmed = mk_condition type_programmed cond_false ''BackendError'' m gen,
               pr_ready_status = cond_false, pr_ready_reason = ''BackendError'', pr_ready_message = msg,
               pr_failure = Some msg,
               pr_calls = [EnsureAdvertisement ip iface, RecordEvent event_warning ''ProgrammingFailed'']\<rparr>)
      | Inr actual \<Rightarrow> Some
          \<lparr>pr_alloc = alloc\<lparr>alloc_status := (alloc_status alloc)\<lparr>st_phase := phase_programmed,
             st_advertised := True, st_interface := actual\<rparr>\<rparr>,
           pr_changed = True,
           pr_programmed = mk_condition type_programmed cond_true ''Configured''
             ''Advertised on RouterOS'' gen,
           pr_ready_status = cond_true, pr_ready_reason = ''AllocatedAndProgrammed'',
           pr_ready_message = ''Address is allocated and advertised'',
           pr_failure = None, pr_calls = [EnsureAdvertisement ip iface]\<rparr>)"

definition program_unadvertised :: "'e alloc_env \<Rightarrow> addr \<Rightarrow> ip_allocation \<Rightarrow> programming" where
  "program_unadvertised env ip alloc =
     \<lparr>pr_alloc = alloc\<lparr>alloc_status := (alloc_status alloc)\<lparr>st_phase := phase_allocated\<rparr>\<rparr>,
      pr_changed = True,
      pr_programmed = mk_condition type_programmed cond_false ''NotAdvertised''
        ''Address is not advertised according to pool configuration'' (obj_generation (alloc_meta alloc)),
      pr_ready_status = cond_true, pr_ready_reason = ''AllocatedButNotAdvertised'',
      pr_ready_message = ''Address is allocated but not advertised'',
      pr_failure = None,
      pr_calls = DeleteAdvertisement ip #
        (case env_delete_adv env ip of
           Some err \<Rightarrow> [RecordEvent event_warning ''CleanupFailed''] | None \<Rightarrow> [])\<rparr>"

definition program ::
  "(alloc_message \<Rightarrow> string) \<Rightarrow> 'e alloc_env \<Rightarrow> alloc_decision \<Rightarrow> ip_allocation \<Rightarrow> programming option" where
  "program render env d alloc =
     (case d of
        Chosen pend p \<Rightarrow>
          if pool_advertise (pool_spec p)
          then program_advertised env (p_address pend) (pool_interface (pool_spec p)) alloc
          else Some (program_unadvertised env (p_address pend) alloc)
      | Refused reason msg \<Rightarrow> Some
          \<lparr>pr_alloc = alloc, pr_changed = False,
           pr_programmed = mk_condition type_programmed cond_false ''NotAllocated''
             ''Waiting for address allocation'' (obj_generation (alloc_meta alloc)),
           pr_ready_status = cond_false, pr_ready_reason = reason, pr_ready_message = render msg,
           pr_failure = None, pr_calls = []\<rparr>)"

section \<open>Reconcile\<close>

definition staged_of :: "alloc_decision \<Rightarrow> pending option" where
  "staged_of d = (case d of Chosen pend _ \<Rightarrow> Some pend | Refused _ _ \<Rightarrow> None)"

definition final_outcome ::
  "(alloc_message \<Rightarrow> string) \<Rightarrow> alloc_decision \<Rightarrow> programming \<Rightarrow> 'e outcome" where
  "final_outcome render d pr =
     (case d of
        Refused _ msg \<Rightarrow> Failure (AllocationFailed (render msg))
      | Chosen _ _ \<Rightarrow> (case pr_failure pr of
            Some m \<Rightarrow> Failure (ProgrammingFailed m) | None \<Rightarrow> Success))"

text \<open>The part of \<open>Reconcile\<close> after the decision. On a panic the router call was made.\<close>

definition commit ::
  "kube_lib \<Rightarrow> (alloc_message \<Rightarrow> string) \<Rightarrow> 'e alloc_env \<Rightarrow> alloc_decision \<Rightarrow> ip_allocation \<Rightarrow>
    expectations \<Rightarrow> 'e result" where
  "commit K render env d alloc e =
     (case apply_decision render d alloc of
        (alloc1, allocated, changed, calls) \<Rightarrow>
          (let s1 = put_condition K allocated (alloc1, changed) in
           case program render env d (fst s1) of
             None \<Rightarrow> (Panic, e, calls @ (case d of
               Chosen pend p \<Rightarrow> [EnsureAdvertisement (p_address pend) (pool_interface (pool_spec p))]
             | Refused _ _ \<Rightarrow> []))
           | Some pr \<Rightarrow>
               (let s2 = put_condition K (pr_programmed pr) (pr_alloc pr, snd s1 \<or> pr_changed pr);
                    s3 = put_condition K
                      (mk_condition type_ready (pr_ready_status pr) (pr_ready_reason pr)
                        (pr_ready_message pr) (obj_generation (alloc_meta alloc))) s2;
                    calls' = calls @ pr_calls pr
                in if \<not> snd s3 then (final_outcome render d pr, e, calls')
                   else (case env_update env (fst s3) of
                     Some err \<Rightarrow> (Failure (ClientError err),
                       (case staged_of d of Some pend \<Rightarrow> unstage_allocation pend e | None \<Rightarrow> e),
                       calls' @ [UpdateStatus (fst s3)])
                   | None \<Rightarrow> (final_outcome render d pr, e, calls' @ [UpdateStatus (fst s3)])))))"

definition reconcile_live ::
  "kube_lib \<Rightarrow> (alloc_message \<Rightarrow> string) \<Rightarrow> (string \<Rightarrow> byte list) \<Rightarrow> 'e alloc_env \<Rightarrow> ip_allocation \<Rightarrow>
    expectations \<Rightarrow> 'e result" where
  "reconcile_live K render sha env alloc e =
     (case env_pools env of
        Inl err \<Rightarrow> (Failure (ClientError err), e, [])
      | Inr pools \<Rightarrow>
          (case env_allocs env of
             Inl err \<Rightarrow> (Failure (ClientError err), e, [])
           | Inr allocs \<Rightarrow>
               (let e1 = confirm (find_cond K) (env_since env) allocs e;
                    others = filter (\<lambda>a. obj_uid (alloc_meta a) \<noteq> obj_uid (alloc_meta alloc)) allocs;
                    used = resolve (find_cond K) others (alloc_name alloc) e1;
                    h = take 16 (sha (alloc_name alloc))
                in case decide env h (alloc_name alloc) (alloc_spec alloc) pools used e1 of
                     None \<Rightarrow> (Panic, e1, [])
                   | Some (d, e2) \<Rightarrow> commit K render env d alloc e2)))"

definition reconcile ::
  "kube_lib \<Rightarrow> (alloc_message \<Rightarrow> string) \<Rightarrow> (string \<Rightarrow> byte list) \<Rightarrow> 'e alloc_env \<Rightarrow>
    expectations \<Rightarrow> 'e result" where
  "reconcile K render sha env e =
     (case env_get env of
        NotFound \<Rightarrow> (Success, e, [])
      | GetError err \<Rightarrow> (Failure (ClientError err), e, [])
      | Found alloc \<Rightarrow>
          if obj_deleting (alloc_meta alloc) then reconcile_deleted K env alloc e
          else if \<not> contains_finalizer K (alloc_meta alloc) finalizer_name then
            (let meta = add_finalizer K (alloc_meta alloc) finalizer_name in
             (case env_patch env meta of Some err \<Rightarrow> Failure (ClientError err) | None \<Rightarrow> Success,
              e, [PatchFinalizers meta]))
          else reconcile_live K render sha env alloc e)"

end
