(* ===== verification/Allocation_Decision.thy ===== *)
theory Allocation_Decision
  imports Allocation_Reconciler
begin

text \<open>
  What the allocation reconciler decides: the loops over pools, ranges and the iterator find an
  address exactly when an eligible pool holds one that nobody else uses or has reserved, and
  they reserve it. A pool's set is read through \<open>pool_denote\<close>.
\<close>

section \<open>Availability\<close>

definition available :: "string \<Rightarrow> (addr \<rightharpoonup> time) \<Rightarrow> expectations \<Rightarrow> addr \<Rightarrow> bool" where
  "available name used e ip \<longleftrightarrow>
     used ip = None \<and> (\<forall>q. pending_allocs e ip = Some q \<longrightarrow> p_id q = name)"

definition new_pending :: "'e alloc_env \<Rightarrow> string \<Rightarrow> addr \<Rightarrow> pending" where
  "new_pending env name ip = \<lparr>p_id = name, p_address = ip, p_time = env_stage_time env ip\<rparr>"

definition reserved :: "'e alloc_env \<Rightarrow> string \<Rightarrow> addr \<Rightarrow> expectations \<Rightarrow> expectations" where
  "reserved env name ip e =
     e\<lparr>pending_allocs := (pending_allocs e)(ip \<mapsto> new_pending env name ip),
       pending_releases := (pending_releases e)(ip := None)\<rparr>"

lemma new_pending_sel [simp]:
  "p_id (new_pending env name ip) = name" "p_address (new_pending env name ip) = ip"
  "p_time (new_pending env name ip) = env_stage_time env ip"
  by (simp_all add: new_pending_def)

lemma stage_new_pending:
  "stage_allocation (new_pending env name ip) e =
     (if \<forall>q. pending_allocs e ip = Some q \<longrightarrow> p_id q = name
      then (True, reserved env name ip e) else (False, e))"
  by (auto simp: stage_allocation_def reserved_def split: option.splits)

lemma try_address_eq:
  "try_address env name used (e, x) ip =
     (if available name used e ip
      then (False, reserved env name ip e, Some (new_pending env name ip))
      else (True, e, x))"
  by (auto simp: try_address_def available_def Let_def stage_new_pending
      new_pending_def [symmetric])

lemma yield_try_address:
  "yield_then (try_address env name used) as Some (e, None) =
     (case List.find (available name used e) as of
        None \<Rightarrow> Some (e, None)
      | Some ip \<Rightarrow> Some (reserved env name ip e, Some (new_pending env name ip)))"
  by (induction as) (auto simp: try_address_eq)

text \<open>The result of a search among a set of addresses.\<close>

definition search_result ::
  "'e alloc_env \<Rightarrow> string \<Rightarrow> (addr \<rightharpoonup> time) \<Rightarrow> expectations \<Rightarrow> addr set \<Rightarrow>
    (expectations \<times> pending option) option \<Rightarrow> bool" where
  "search_result env name used e A res \<longleftrightarrow>
     (\<exists>ip \<in> A. available name used e ip \<and>
        res = Some (reserved env name ip e, Some (new_pending env name ip))) \<or>
     ((\<forall>ip \<in> A. \<not> available name used e ip) \<and> res = Some (e, None))"

lemma search_range:
  assumes "wf_range r"
  shows "search_result env name used e (range_addrs r)
    (range_iter r h (try_address env name used) (e, None))"
proof -
  obtain as where as: "set as = range_addrs r"
      "range_iter r h (try_address env name used) (e, None) =
        yield_then (try_address env name used) as Some (e, None)"
    using range_iter_list [OF assms] by metis
  show ?thesis
  proof (cases "List.find (available name used e) as")
    case None
    then have "\<forall>ip \<in> set as. \<not> available name used e ip" by (simp add: find_None_iff)
    then show ?thesis using as None by (simp add: search_result_def yield_try_address)
  next
    case (Some ip)
    then have "ip \<in> set as" "available name used e ip"
      using find_Some_iff [of _ as ip] by (auto simp: in_set_conv_nth)
    then show ?thesis using as Some by (auto simp: search_result_def yield_try_address)
  qed
qed

lemma search_ranges:
  assumes "\<forall>r \<in> set rs. wf_range r"
  shows "search_result env name used e (addrs_of rs) (try_ranges env name h used rs e)"
  using assms
proof (induction rs)
  case Nil
  then show ?case by (simp add: search_result_def)
next
  case (Cons r rs)
  then have r: "search_result env name used e (range_addrs r)
      (range_iter r h (try_address env name used) (e, None))"
    and rs: "search_result env name used e (addrs_of rs) (try_ranges env name h used rs e)"
    using search_range by auto
  from r show ?case unfolding search_result_def [of _ _ _ _ "range_addrs r"]
  proof (elim disjE bexE conjE)
    fix ip
    assume ip: "ip \<in> range_addrs r" "available name used e ip"
      "range_iter r h (try_address env name used) (e, None) =
        Some (reserved env name ip e, Some (new_pending env name ip))"
    then show ?thesis by (auto simp: search_result_def)
  next
    assume none: "\<forall>ip \<in> range_addrs r. \<not> available name used e ip"
      "range_iter r h (try_address env name used) (e, None) = Some (e, None)"
    then show ?thesis using rs by (auto simp: search_result_def)
  qed
qed

section \<open>Pools\<close>

definition eligible :: "ipallocation_spec \<Rightarrow> ip_pool \<Rightarrow> bool" where
  "eligible sp p \<longleftrightarrow> pool_matches sp p \<and> (req_pool sp = '''' \<longrightarrow> pool_auto_assign (pool_spec p))"

lemma pool_ranges:
  assumes "zone_free_pool p"
  shows "\<forall>r \<in> set (ranges_for_family (pool_set p) (pool_family (pool_spec p))). wf_range r"
    and "addrs_of (ranges_for_family (pool_set p) (pool_family (pool_spec p))) = pool_denote p"
proof -
  have ne: "IPv4 \<noteq> IPv6" by (simp add: IPv4_def IPv6_def)
  have z: "\<forall>s \<in> set (pool_addresses (pool_spec p)). zone_free s"
    using assms by (simp add: zone_free_pool_def)
  note fam = pool_set_family [OF z, of "pool_family (pool_spec p)" "pool_avoid_buggy (pool_spec p)"]
  have "\<forall>r \<in> set (all_ranges (pool_set p)). wf_range r"
    using pool_set_wf [OF assms]
    by (auto simp: wf_range_set_def norm_ranges_def wf_range_def all_ranges_def)
  then show "\<forall>r \<in> set (ranges_for_family (pool_set p) (pool_family (pool_spec p))). wf_range r"
    by (auto simp: ranges_for_family_def all_ranges_def)
  show "addrs_of (ranges_for_family (pool_set p) (pool_family (pool_spec p))) = pool_denote p"
  proof (cases "pool_family (pool_spec p) = IPv4")
    case True
    then show ?thesis using fam(2) ne
      by (simp add: ranges_for_family_def pool_denote_def denote_def all_ranges_def pool_set_def
          spec_addresses_def)
  next
    case False
    then show ?thesis using fam
      by (cases "pool_family (pool_spec p) = IPv6")
        (simp_all add: ranges_for_family_def pool_denote_def denote_def all_ranges_def pool_set_def
          spec_addresses_def)
  qed
qed

lemma search_pools:
  assumes "\<forall>p \<in> set pools. zone_free_pool p"
  shows "(\<exists>p \<in> set pools. eligible sp p \<and> (\<exists>ip \<in> pool_denote p. available name used e ip \<and>
        try_pools env name h sp used pools e =
          Some (reserved env name ip e, Some (new_pending env name ip, p)))) \<or>
      ((\<forall>p \<in> set pools. eligible sp p \<longrightarrow> (\<forall>ip \<in> pool_denote p. \<not> available name used e ip)) \<and>
        try_pools env name h sp used pools e = Some (e, None))"
  using assms
proof (induction pools)
  case Nil
  then show ?case by simp
next
  case (Cons p ps)
  show ?case
  proof (cases "eligible sp p")
    case False
    then have "try_pools env name h sp used (p # ps) e = try_pools env name h sp used ps e"
      by (auto simp: eligible_def)
    then show ?thesis using Cons False by auto
  next
    case True
    then have unfold: "try_pools env name h sp used (p # ps) e =
        (case try_ranges env name h used
            (ranges_for_family (pool_set p) (pool_family (pool_spec p))) e of
           None \<Rightarrow> None
         | Some (e', Some pend) \<Rightarrow> Some (e', Some (pend, p))
         | Some (e', None) \<Rightarrow> try_pools env name h sp used ps e')"
      by (auto simp: eligible_def pool_set_def)
    have "search_result env name used e (pool_denote p)
        (try_ranges env name h used (ranges_for_family (pool_set p) (pool_family (pool_spec p))) e)"
      using search_ranges [OF pool_ranges(1)] pool_ranges(2) Cons.prems
      by (metis list.set_intros(1))
    then show ?thesis unfolding search_result_def
    proof (elim disjE bexE conjE)
      fix ip
      assume "ip \<in> pool_denote p" "available name used e ip"
        "try_ranges env name h used (ranges_for_family (pool_set p) (pool_family (pool_spec p))) e =
          Some (reserved env name ip e, Some (new_pending env name ip))"
      then show ?thesis using True unfold by auto
    next
      assume "\<forall>ip \<in> pool_denote p. \<not> available name used e ip"
        "try_ranges env name h used (ranges_for_family (pool_set p) (pool_family (pool_spec p))) e =
          Some (e, None)"
      then show ?thesis using Cons unfold by auto
    qed
  qed
qed

end
