(* ===== verification/Netip_Roundtrip.thy ===== *)
theory Netip_Roundtrip
  imports Range_Parse
begin

text \<open>
  The text forms of \<open>net/netip\<close> are inverse to each other: \<open>ParseAddr\<close> reads back what
  \<open>Addr.String\<close> writes, for every valid address: dotted decimal, the groups of IPv6 with
  the longest run of zeros left out, the mapped form and the zone. The controllers rely on it
  when they store an address in a status and read it again. So are the texts of ranges.
\<close>

section \<open>Numerals\<close>

lemma dec_step: "dec n = (if n < 10 then [char_of (48 + n)] else dec (n div 10) @ [char_of (48 + n mod 10)])"
  unfolding dec_def by (subst dec_rev.simps) simp

lemma hex_step: "hex n = (if n < 16 then [hex_digit n] else hex (n div 16) @ [hex_digit (n mod 16)])"
  unfolding hex_def by (subst hex_rev.simps) simp

lemma digit_val_char [simp]: "d < 10 \<Longrightarrow> digit_val (char_of (48 + d)) = Some d"
  by (simp add: digit_val_def Let_def)

lemma hex_val_digit [simp]: "d < 16 \<Longrightarrow> hex_val (hex_digit d) = Some d"
  by (auto simp: hex_val_def hex_digit_def Let_def)

lemma avoids_three:
  assumes "S \<subseteq> f ` D" "\<And>d. d \<in> D \<Longrightarrow> f d \<notin> {a, b, c}"
  shows "a \<notin> S" "b \<notin> S" "c \<notin> S"
  using assms by blast+

lemma hex_digit_plain:
  assumes "d < 16"
  shows "hex_digit d \<notin> {CHR '':'', CHR ''.'', CHR ''%''}"
proof -
  have "hex_val c = None" if "c \<in> {CHR '':'', CHR ''.'', CHR ''%''}" for c
    using that by (auto simp: hex_val_def)
  then show ?thesis using hex_val_digit [OF assms] by fastforce
qed

lemma hex_chars: "set (hex n) \<subseteq> hex_digit ` {..<16}"
proof (induction n rule: hex_rev.induct)
  case (1 n)
  then show ?case by (cases "n < 16") (simp_all add: hex_step [of n])
qed

lemma hex_not_Nil [simp]: "hex n \<noteq> []"
  by (subst hex_step) simp

lemma dec_not_Nil [simp]: "dec n \<noteq> []"
  by (subst dec_step) simp

lemma hex_plain: "CHR '':'' \<notin> set (hex n)" "CHR ''.'' \<notin> set (hex n)" "CHR ''%'' \<notin> set (hex n)"
  by (rule avoids_three [OF hex_chars hex_digit_plain], simp)+

lemma digit_plain:
  assumes "(d :: nat) < 10"
  shows "char_of (48 + d) \<notin> {CHR '':'', CHR ''.'', CHR ''%''}"
proof -
  have "digit_val c = None" if "c \<in> {CHR '':'', CHR ''.'', CHR ''%''}" for c
    using that by (auto simp: digit_val_def)
  then show ?thesis using digit_val_char [OF assms] by fastforce
qed

lemma dec_char_set: "set (dec n) \<subseteq> (\<lambda>d :: nat. char_of (48 + d)) ` {..<10}"
proof (induction n rule: dec_rev.induct)
  case (1 n)
  then show ?case
    by (cases "n < 10") (simp_all add: dec_step [of n] del: of_nat_add char_of_quasi_inj)
qed

lemma dec_plain: "CHR '':'' \<notin> set (dec n)" "CHR ''.'' \<notin> set (dec n)" "CHR ''%'' \<notin> set (dec n)"
  by (rule avoids_three [OF dec_char_set digit_plain], simp)+

lemma hex_length: "n < 16 ^ Suc k \<Longrightarrow> length (hex n) \<le> Suc k"
proof (induction k arbitrary: n)
  case 0
  then show ?case by (subst hex_step) simp
next
  case (Suc k)
  then have "n div 16 < 16 ^ Suc k" by (simp add: less_mult_imp_div_less)
  then show ?case using Suc.IH [of "n div 16"] by (subst hex_step) simp
qed

section \<open>Fields\<close>

lemma v4_fields_dec:
  "k \<le> 255 \<Longrightarrow> v4_fields dot 0 0 fs (dec k @ rest) = v4_fields False k (length (dec k)) fs rest"
proof (induction k arbitrary: rest rule: dec_rev.induct)
  case (1 k)
  show ?case
  proof (cases "k < 10")
    case True
    then have "dec k = [char_of (48 + k)]" by (subst dec_step) simp
    then show ?thesis using True by simp
  next
    case False
    then have d: "dec k = dec (k div 10) @ [char_of (48 + k mod 10)]" by (subst dec_step) simp
    have "k div 10 * 10 + k mod 10 = k" "k div 10 \<noteq> 0" "k div 10 \<le> 255"
      using div_mult_mod_eq 1(2) False by auto
    then show ?thesis using 1(1) [OF False] 1(2) by (simp add: d)
  qed
qed

lemma take_hex_hex:
  "k < 65536 \<Longrightarrow> take_hex 0 0 (hex k @ rest) = take_hex (length (hex k)) k rest"
proof (induction k arbitrary: rest rule: hex_rev.induct)
  case (1 k)
  show ?case
  proof (cases "k < 16")
    case True
    then have "hex k = [hex_digit k]" by (subst hex_step) simp
    then show ?thesis using True by simp
  next
    case False
    then have h: "hex k = hex (k div 16) @ [hex_digit (k mod 16)]" by (subst hex_step) simp
    have "k div 16 * 16 + k mod 16 = k" by (rule div_mult_mod_eq)
    moreover have "length (hex (k div 16)) \<le> 3" using 1 hex_length [of "k div 16" 2] by simp
    ultimately show ?thesis using 1 False by (simp add: h)
  qed
qed

lemma dot_not_digit [simp]: "digit_val CHR ''.'' = None"
  by (simp add: digit_val_def)

lemma parse_v4_fields_string:
  assumes "n < 2 ^ 32"
  shows "parse_v4_fields (v4_string n) =
    Some [n div 16777216, n div 65536 mod 256, n div 256 mod 256, n mod 256]"
proof -
  have a: "n div 16777216 \<le> 255" using assms by (simp add: div_le_mono less_mult_imp_div_less flip: less_Suc_eq_le)
  have b: "m mod 256 \<le> 255" for m :: nat using mod_less_divisor [of 256 m] by linarith
  have d: "v4_fields False k m fs [] = Some (fs @ [k])" if "length fs = 3" for k m fs
    using that by simp
  show ?thesis
    using v4_fields_dec [where rest = "[]"] a b
    by (simp add: parse_v4_fields_def v4_string_def v4_fields_dec d)
qed

lemma four_bytes:
  "((n div 16777216 * 256 + n div 65536 mod 256) * 256 + n div 256 mod 256) * 256 + n mod 256 = (n :: nat)"
proof -
  have "n div 65536 = n div 256 div 256" "n div 16777216 = n div 65536 div 256"
    by (simp_all flip: div_mult2_eq)
  then show ?thesis by (simp only: div_mult_mod_eq)
qed

lemma parse_ipv4_string: "parse_ipv4 (v4_string (unat w)) = Some (Addr4 w)"
proof -
  have n: "unat w < 2 ^ 32" using unsigned_less [of w] by simp
  have small: "unat (word_of_nat k :: byte) = k" if "k < 256" for k
    using that by (simp add: unat_of_nat)
  have "unat w div 16777216 < 256" using n by (simp add: less_mult_imp_div_less)
  moreover have "be_nat (map of_nat [a, b, c, d]) = ((a * 256 + b) * 256 + c) * 256 + d"
    if "a < 256" "b < 256" "c < 256" "d < 256" for a b c d
    using that by (simp add: small)
  ultimately show ?thesis
    using four_bytes [of "unat w"] by (simp add: parse_ipv4_def parse_v4_fields_string [OF n] del: be_nat.simps)
qed

section \<open>Groups\<close>

lemma v6_loop_group:
  assumes "length gs < 8" "k < 65536" "rest = [] \<or> hex_val (hd rest) = None"
  shows "v6_loop gs el (hex k @ rest) =
    (case rest of
       [] \<Rightarrow> Some (gs @ [k], el, [])
     | c # t \<Rightarrow>
         if c = CHR ''.'' then
           (if el = None \<and> length gs \<noteq> 6 then None
            else if 8 < length gs + 2 then None
            else case parse_v4_fields (hex k @ rest) of
              Some [a, b, x, y] \<Rightarrow> Some (gs @ [a * 256 + b, x * 256 + y], el, [])
            | _ \<Rightarrow> None)
         else if c \<noteq> CHR '':'' then None
         else (case t of
           [] \<Rightarrow> None
         | c' # t' \<Rightarrow>
             if c' \<noteq> CHR '':'' then v6_loop (gs @ [k]) el t
             else if el \<noteq> None then None
             else if t' = [] then Some (gs @ [k], Some (length gs + 1), [])
             else v6_loop (gs @ [k]) (Some (length gs + 1)) t'))"
proof -
  have "take_hex (length (hex k)) k rest = Some (length (hex k), k, rest)"
    using assms(3) by (cases rest) auto
  then show ?thesis using assms(1,2) by (subst v6_loop.simps) (simp add: take_hex_hex)
qed

lemma colon_not_hex [simp]: "hex_val CHR '':'' = None"
  by (simp add: hex_val_def)

lemma hex_Cons: obtains c s where "hex k = c # s" "c \<noteq> CHR '':''" "c \<noteq> CHR ''.''" "c \<noteq> CHR ''%''"
  using hex_plain [of k] hex_not_Nil [of k] by (cases "hex k") auto

text \<open>The groups of a list, and the groups before and after an ellipsis.\<close>

lemma join_Cons: "xs \<noteq> [] \<Longrightarrow> str_join sep (x # xs) = x @ sep @ str_join sep xs"
  by (cases xs) simp_all

lemma join_hex_Cons:
  assumes "xs \<noteq> []"
  obtains c s where "str_join '':'' (map hex xs) = c # s" "c \<noteq> CHR '':''"
proof -
  obtain x ys where xs: "xs = x # ys" using assms by (cases xs) auto
  obtain c s where "hex x = c # s" "c \<noteq> CHR '':''" using hex_Cons [of x] by blast
  then show ?thesis using that xs by (cases ys) auto
qed

lemma v6_loop_groups:
  assumes "xs \<noteq> []" "length gs + length xs \<le> 8" "\<forall>g \<in> set xs. g < 65536"
  shows "v6_loop gs el (str_join '':'' (map hex xs)) = Some (gs @ xs, el, [])"
  using assms
proof (induction xs arbitrary: gs)
  case Nil
  then show ?case by simp
next
  case (Cons x xs)
  show ?case
  proof (cases "xs = []")
    case True
    then show ?thesis using Cons.prems v6_loop_group [of gs x "[]" el] by simp
  next
    case False
    obtain c s where j: "str_join '':'' (map hex xs) = c # s" "c \<noteq> CHR '':''"
      using join_hex_Cons [OF False] .
    have "v6_loop gs el (hex x @ CHR '':'' # c # s) = v6_loop (gs @ [x]) el (c # s)"
      using Cons.prems j(2) by (simp add: v6_loop_group)
    then show ?thesis using Cons.IH [of "gs @ [x]"] Cons.prems False j by (simp add: join_Cons)
  qed
qed

lemma v6_loop_ellipsis:
  assumes "xs \<noteq> []" "length gs + length xs + length ys \<le> 8" "length gs + length xs < 8"
    and "\<forall>g \<in> set xs \<union> set ys. g < 65536"
  shows "v6_loop gs None (str_join '':'' (map hex xs) @ ''::'' @ str_join '':'' (map hex ys)) =
    Some (gs @ xs @ ys, Some (length gs + length xs), [])"
  using assms
proof (induction xs arbitrary: gs)
  case Nil
  then show ?case by simp
next
  case (Cons x xs)
  show ?case
  proof (cases "xs = []")
    case True
    show ?thesis
    proof (cases "ys = []")
      case ys: True
      then show ?thesis using Cons.prems True by (simp add: v6_loop_group)
    next
      case ys: False
      obtain c s where j: "str_join '':'' (map hex ys) = c # s" using join_hex_Cons [OF ys] by blast
      have "v6_loop gs None (hex x @ CHR '':'' # CHR '':'' # c # s) =
          v6_loop (gs @ [x]) (Some (length gs + 1)) (c # s)"
        using Cons.prems by (simp add: v6_loop_group)
      then show ?thesis
        using v6_loop_groups [OF ys, of "gs @ [x]" "Some (length gs + 1)"] Cons.prems True j by simp
    qed
  next
    case False
    obtain c s where j: "str_join '':'' (map hex xs) = c # s" "c \<noteq> CHR '':''"
      using join_hex_Cons [OF False] .
    have "v6_loop gs None (hex x @ CHR '':'' # c # s @ t) = v6_loop (gs @ [x]) None (c # s @ t)" for t
      using Cons.prems j(2) by (simp add: v6_loop_group)
    then show ?thesis using Cons.IH [of "gs @ [x]"] Cons.prems False j by (simp add: join_Cons)
  qed
qed

section \<open>The ellipsis\<close>

text \<open>The run of zeros that is left out lies in the groups and holds only zeros.\<close>

lemma zero_run_bound: "zero_run gs i \<le> length gs - i"
  using length_takeWhile_le [of "\<lambda>g. g = 0" "drop i gs"] by (simp add: zero_run_def)

lemma zero_run_zeros: "i \<le> j \<Longrightarrow> j < i + zero_run gs i \<Longrightarrow> gs ! j = 0"
proof -
  assume j: "i \<le> j" "j < i + zero_run gs i"
  then have "takeWhile (\<lambda>g. g = 0) (drop i gs) ! (j - i) \<in> set (takeWhile (\<lambda>g. g = 0) (drop i gs))"
    by (intro nth_mem) (simp add: zero_run_def less_diff_conv2)
  then have "takeWhile (\<lambda>g. g = 0) (drop i gs) ! (j - i) = 0" by (rule set_takeWhileD [THEN conjunct2])
  moreover have "takeWhile (\<lambda>g. g = 0) (drop i gs) ! (j - i) = drop i gs ! (j - i)"
    using j by (intro takeWhile_nth) (simp add: zero_run_def less_diff_conv2)
  ultimately show ?thesis using j zero_run_bound [of gs i] by simp
qed

definition left_out :: "nat list \<Rightarrow> nat \<times> nat \<Rightarrow> bool" where
  "left_out gs r \<longleftrightarrow> r = (8, 8) \<or>
     (fst r + 2 \<le> snd r \<and> snd r \<le> length gs \<and> (\<forall>j. fst r \<le> j \<and> j < snd r \<longrightarrow> gs ! j = 0))"

lemma best_run_left_out:
  assumes "length gs = 8"
  shows "left_out gs (best_run gs)"
proof -
  have step: "left_out gs (foldl (\<lambda>(zs, ze) i.
      if 2 \<le> zero_run gs i \<and> ze - zs < zero_run gs i then (i, i + zero_run gs i) else (zs, ze)) r is)"
    if "left_out gs r" for r "is"
    using that
  proof (induction "is" arbitrary: r)
    case Nil
    then show ?case by simp
  next
    case (Cons i "is")
    have "left_out gs (i, i + zero_run gs i)" if "2 \<le> zero_run gs i"
      using that zero_run_bound [of gs i] zero_run_zeros [of i _ gs] by (auto simp: left_out_def)
    then have "left_out gs ((\<lambda>(zs, ze) i.
      if 2 \<le> zero_run gs i \<and> ze - zs < zero_run gs i then (i, i + zero_run gs i) else (zs, ze)) r i)"
      using Cons.prems by (cases r) simp
    then show ?case using Cons.IH by simp
  qed
  show ?thesis unfolding best_run_def by (rule step) (simp add: left_out_def)
qed

lemma fill_in:
  assumes "left_out gs (zs, ze)" "length gs = 8" "zs \<noteq> 8"
  shows "take zs gs @ replicate (ze - zs) 0 @ drop ze gs = gs" "zs + 2 \<le> ze" "ze \<le> 8"
proof -
  show b: "zs + 2 \<le> ze" "ze \<le> 8" using assms by (auto simp: left_out_def)
  have "take (ze - zs) (drop zs gs) = replicate (ze - zs) 0"
    using assms b by (intro nth_equalityI) (auto simp: left_out_def)
  moreover have "drop zs gs = take (ze - zs) (drop zs gs) @ drop ze gs"
    using b by (metis add_leD1 append_take_drop_id drop_drop le_add_diff_inverse2)
  ultimately show "take zs gs @ replicate (ze - zs) 0 @ drop ze gs = gs"
    by (metis append_take_drop_id)
qed

text \<open>Reading the groups of a text gives them back.\<close>

definition parse_groups :: "string \<Rightarrow> nat list option" where
  "parse_groups s =
     Option.bind (if has_prefix ''::'' s
        then (if drop 2 s = [] then Some ([], Some 0, []) else v6_loop [] (Some 0) (drop 2 s))
        else v6_loop [] None s)
      (\<lambda>(gs, el, rest).
        if rest \<noteq> [] then None
        else if length gs < 8 then
          (case el of None \<Rightarrow> None
           | Some e \<Rightarrow> Some (take e gs @ replicate (8 - length gs) 0 @ drop e gs))
        else if el \<noteq> None then None else Some gs)"

lemma parse_groups_string:
  assumes "length gs = 8" "\<forall>g \<in> set gs. g < 65536"
  shows "parse_groups (v6_string gs) = Some gs"
proof -
  obtain zs ze where run: "best_run gs = (zs, ze)" by (cases "best_run gs")
  then have lo: "left_out gs (zs, ze)" using best_run_left_out [OF assms(1)] by simp
  have first: "\<not> has_prefix ''::'' (str_join '':'' (map hex xs) @ t)" if "xs \<noteq> []" for xs t
    using join_hex_Cons [OF that] by (metis append_Cons has_prefix_iff list.inject)
  show ?thesis
  proof (cases "zs = 8")
    case True
    then have s: "v6_string gs = str_join '':'' (map hex gs)" using run by (simp add: v6_string_def)
    have "gs \<noteq> []" using assms(1) by auto
    then have "\<not> has_prefix ''::'' (v6_string gs)" using first [of gs "[]"] s by simp
    moreover have "v6_loop [] None (v6_string gs) = Some (gs, None, [])"
      using v6_loop_groups [of gs "[]" None] assms \<open>gs \<noteq> []\<close> s by simp
    ultimately show ?thesis using assms(1) by (simp add: parse_groups_def)
  next
    case False
    note f = fill_in [OF lo assms(1) False]
    let ?xs = "take zs gs" and ?ys = "drop ze gs"
    have s: "v6_string gs = str_join '':'' (map hex ?xs) @ ''::'' @ str_join '':'' (map hex ?ys)"
      using run False by (simp add: v6_string_def)
    have small: "\<forall>g \<in> set ?xs \<union> set ?ys. g < 65536"
      using assms(2) by (auto dest: in_set_takeD in_set_dropD)
    show ?thesis
    proof (cases "?xs = []")
      case True
      then have z: "zs = 0" using assms(1) by auto
      then have d: "drop 2 (v6_string gs) = str_join '':'' (map hex ?ys)" "has_prefix ''::'' (v6_string gs)"
        using s True by (simp_all add: has_prefix_def)
      show ?thesis
      proof (cases "?ys = []")
        case True
        then have "ze = 8" using f assms(1) by simp
        then show ?thesis using True d f z by (simp add: parse_groups_def)
      next
        case False
        obtain c t where "str_join '':'' (map hex ?ys) = c # t" using join_hex_Cons [OF False] .
        moreover have "v6_loop [] (Some 0) (str_join '':'' (map hex ?ys)) = Some (?ys, Some 0, [])"
          using v6_loop_groups [OF False, of "[]" "Some 0"] small f assms(1) by simp
        ultimately show ?thesis using d f z assms(1) by (simp add: parse_groups_def)
      qed
    next
      case xs: False
      have "v6_loop [] None (v6_string gs) = Some (?xs @ ?ys, Some zs, [])"
        using v6_loop_ellipsis [OF xs, of "[]" ?ys] small f assms(1) s by simp
      moreover have "\<not> has_prefix ''::'' (v6_string gs)" using first [OF xs] s by simp
      moreover have "8 - length (?xs @ ?ys) = ze - zs" "length (?xs @ ?ys) < 8"
        "take zs (?xs @ ?ys) = ?xs" "drop zs (?xs @ ?ys) = ?ys"
        using f assms(1) by simp_all
      ultimately show ?thesis using f(1) by (simp add: parse_groups_def del: length_append take_append drop_append)
    qed
  qed
qed

section \<open>Addresses\<close>

lemma cut_zone:
  assumes "CHR ''%'' \<notin> set s"
  shows "cut_before CHR ''%'' (s @ zone_suffix z) = s" "cut_after CHR ''%'' (s @ zone_suffix z) = z"
    and "CHR ''%'' \<in> set (s @ zone_suffix z) \<longleftrightarrow> z \<noteq> []"
proof -
  have whole: "c \<notin> set s \<Longrightarrow> takeWhile (\<lambda>x. x \<noteq> c) s = s \<and> dropWhile (\<lambda>x. x \<noteq> c) s = []" for c
    by (induction s) auto
  have "cut_before CHR ''%'' s = s" "cut_after CHR ''%'' s = []"
    unfolding cut_before_def cut_after_def using whole [OF assms] by (metis, metis list.sel(2))
  then show "cut_before CHR ''%'' (s @ zone_suffix z) = s" "cut_after CHR ''%'' (s @ zone_suffix z) = z"
    "CHR ''%'' \<in> set (s @ zone_suffix z) \<longleftrightarrow> z \<noteq> []"
    using assms by (simp_all add: zone_suffix_def cut_append)
qed

lemma parse_ipv6_groups:
  assumes "CHR ''%'' \<notin> set s"
  shows "parse_ipv6 (s @ zone_suffix z) =
    map_option (\<lambda>gs. Addr6 (of_nat (groups_val gs)) z) (parse_groups s)"
proof -
  have zero: "groups_val (replicate 8 0) = 0" by code_simp
  show ?thesis
    unfolding parse_ipv6_def parse_groups_def Let_def cut_zone [OF assms]
    by (auto simp: v6_finish_def zero split: option.splits bind_splits)
qed

lemma v6_groups_small: "g \<in> set (v6_groups n) \<Longrightarrow> g < 65536"
  by (auto simp: v6_groups_def)

lemma groups_val_groups:
  assumes "n < 2 ^ 128"
  shows "groups_val (v6_groups n) = n"
proof -
  define d where "d i = n div 65536 ^ i" for i :: nat
  have step: "j = Suc i \<Longrightarrow> d j * 65536 + d i mod 65536 = d i" for i j
    by (simp only: d_def power_Suc2 div_mult2_eq div_mult_mod_eq)
  have top: "d 7 mod 65536 = d 7" using assms by (simp add: d_def less_mult_imp_div_less)
  have "d 7 * 65536 + d 6 mod 65536 = d 6" "d 6 * 65536 + d 5 mod 65536 = d 5"
    "d 5 * 65536 + d 4 mod 65536 = d 4" "d 4 * 65536 + d 3 mod 65536 = d 3"
    "d 3 * 65536 + d 2 mod 65536 = d 2" "d 2 * 65536 + d 1 mod 65536 = d 1"
    "d 1 * 65536 + d 0 mod 65536 = d 0"
    by (rule step, simp)+
  then have "foldl (\<lambda>v g. v * 65536 + g) 0 (map (\<lambda>i. d i mod 65536) [7, 6, 5, 4, 3, 2, 1, 0]) = d 0"
    by (simp only: list.map foldl.simps mult_0 add_0 top)
  then show ?thesis by (simp add: groups_val_def v6_groups_def d_def)
qed

lemma take_hex_digits:
  assumes "off + length s \<le> 4" "acc < 16 ^ off" "\<forall>c \<in> set s. \<exists>d < 16. hex_val c = Some d"
    and "hex_val c = None"
  shows "\<exists>acc'. take_hex off acc (s @ c # t) = Some (off + length s, acc', c # t)"
  using assms(1-3)
proof (induction s arbitrary: off acc)
  case Nil
  then show ?case using assms(4) by simp
next
  case (Cons x s)
  then obtain d where d: "d < 16" "hex_val x = Some d" by auto
  have "acc * 16 + d < 16 ^ Suc off" using Cons.prems(2) d(1) by simp
  moreover have "(16 :: nat) ^ Suc off \<le> 16 ^ 4" using Cons.prems(1) by (intro power_increasing) simp_all
  ultimately show ?case using Cons.IH [of "Suc off" "acc * 16 + d"] Cons.prems d by simp
qed

lemma dec_length: "n < 10 ^ Suc k \<Longrightarrow> length (dec n) \<le> Suc k"
proof (induction k arbitrary: n)
  case 0
  then show ?case by (subst dec_step) simp
next
  case (Suc k)
  then have "n div 10 < 10 ^ Suc k" by (simp add: less_mult_imp_div_less)
  then show ?case using Suc.IH [of "n div 10"] by (subst dec_step) simp
qed

lemma dec_hex: "c \<in> set (dec n) \<Longrightarrow> \<exists>d < 16. hex_val c = Some d"
proof -
  assume "c \<in> set (dec n)"
  then obtain d :: nat where "d < 10" "c = char_of (48 + d)" using dec_char_set [of n] by auto
  then have "hex_digit d = c" "d < 16" by (simp_all add: hex_digit_def)
  then show ?thesis using hex_val_digit by blast
qed

lemma dec_Cons: obtains c s where "dec k = c # s" "c \<noteq> CHR '':''" "c \<noteq> CHR ''.''"
  using dec_plain [of k] dec_not_Nil [of k] by (cases "dec k") auto

lemma v6_loop_tail:
  assumes "n < 2 ^ 32"
  shows "v6_loop [65535] (Some 0) (v4_string n) = Some ([65535, n div 65536, n mod 65536], Some 0, [])"
proof -
  let ?a = "n div 16777216"
  obtain t where t: "v4_string n = dec ?a @ CHR ''.'' # t" by (simp add: v4_string_def)
  have "?a < 10 ^ Suc 2" using assms by (simp add: less_mult_imp_div_less)
  then have "length (dec ?a) \<le> 3" using dec_length [of ?a 2] by simp
  then obtain acc where "take_hex 0 0 (v4_string n) = Some (length (dec ?a), acc, CHR ''.'' # t)"
    using take_hex_digits [of 0 "dec ?a" 0 "CHR ''.''" t] dec_hex t by (auto simp: hex_val_def)
  moreover have "?a * 256 + n div 65536 mod 256 = n div 65536"
    using div_mult_mod_eq [of "n div 65536" 256] by (simp flip: div_mult2_eq)
  moreover have "n div 256 mod 256 * 256 + n mod 256 = n mod 65536"
    using mod_mult2_eq [of n 256 256] by simp
  ultimately show ?thesis
    by (subst v6_loop.simps) (simp add: parse_v4_fields_string [OF assms])
qed

lemma parse_groups_mapped:
  assumes "n < 2 ^ 32"
  shows "parse_groups (''::ffff:'' @ v4_string n) = Some (replicate 5 0 @ [65535, n div 65536, n mod 65536])"
proof -
  have f: "hex 65535 = ''ffff''" by code_simp
  obtain c s where c: "v4_string n = c # s" "c \<noteq> CHR '':''"
    using dec_Cons [of "n div 16777216"] by (metis append_Cons str_join.simps(3) v4_string_def)
  have "v6_loop [] (Some 0) (''ffff:'' @ v4_string n) = v6_loop [65535] (Some 0) (v4_string n)"
    using v6_loop_group [of "[]" 65535 "CHR '':'' # v4_string n" "Some 0"] c f by simp
  then show ?thesis using v6_loop_tail [OF assms] by (simp add: parse_groups_def has_prefix_def)
qed

lemma mapped_value:
  "groups_val (replicate 5 0 @ [65535, n mod 2 ^ 32 div 65536, n mod 2 ^ 32 mod 65536]) =
    65535 * 2 ^ 32 + n mod 2 ^ 32"
proof -
  have "(65535 * 65536 + m div 65536) * 65536 + m mod 65536 = 65535 * 2 ^ 32 + m" for m :: nat
    using div_mult_mod_eq [of m 65536] by simp
  moreover have "replicate 5 0 = [0, 0, 0, 0, 0 :: nat]" by (simp add: eval_nat_numeral)
  ultimately show ?thesis by (simp only: groups_val_def foldl.simps append.simps mult_0 add_0)
qed

section \<open>Which form a text has\<close>

lemma first_special:
  assumes "CHR ''.'' \<notin> set s" "CHR ''%'' \<notin> set s" "CHR '':'' \<in> set s"
  shows "parse_addr (s @ t) = parse_ipv6 (s @ t)"
proof -
  have "\<exists>r. dropWhile (\<lambda>c. c \<noteq> CHR ''.'' \<and> c \<noteq> CHR '':'' \<and> c \<noteq> CHR ''%'') (s @ t) = CHR '':'' # r"
    using assms by (induction s) auto
  then show ?thesis by (auto simp: parse_addr_def)
qed

lemma first_dot: "parse_addr (dec k @ CHR ''.'' # t) = parse_ipv4 (dec k @ CHR ''.'' # t)"
proof -
  have "CHR '':'' \<notin> set s \<Longrightarrow> CHR ''.'' \<notin> set s \<Longrightarrow> CHR ''%'' \<notin> set s \<Longrightarrow>
      dropWhile (\<lambda>c. c \<noteq> CHR ''.'' \<and> c \<noteq> CHR '':'' \<and> c \<noteq> CHR ''%'') (s @ CHR ''.'' # t) = CHR ''.'' # t" for s
    by (induction s) auto
  from this [OF dec_plain] show ?thesis by (simp add: parse_addr_def)
qed

lemma join_hex_plain:
  "CHR ''.'' \<notin> set (str_join '':'' (map hex xs))" "CHR ''%'' \<notin> set (str_join '':'' (map hex xs))"
  by (induction xs rule: induct_list012) (simp_all add: hex_plain)

lemma v6_string_plain:
  assumes "length gs = 8"
  shows "CHR ''.'' \<notin> set (v6_string gs)" "CHR ''%'' \<notin> set (v6_string gs)" "CHR '':'' \<in> set (v6_string gs)"
proof -
  obtain x y ys where "gs = x # y # ys"
    using assms by (cases gs rule: remdups_adj.cases) auto
  then have "CHR '':'' \<in> set (str_join '':'' (map hex gs))" by simp
  then show "CHR '':'' \<in> set (v6_string gs)"
    by (cases "best_run gs") (simp add: v6_string_def)
  show "CHR ''.'' \<notin> set (v6_string gs)" "CHR ''%'' \<notin> set (v6_string gs)"
    using join_hex_plain by (simp_all add: v6_string_def split: prod.split)
qed

lemma v4_string_plain: "CHR ''%'' \<notin> set (v4_string n)"
  by (simp add: v4_string_def dec_plain)

lemma parse_mapped:
  assumes "unat w div 2 ^ 32 = 65535"
  shows "parse_addr (''::ffff:'' @ v4_string (unat w mod 2 ^ 32) @ zone_suffix z) = Some (Addr6 w z)"
proof -
  let ?m = "unat w mod 2 ^ 32"
  have m: "?m < 2 ^ 32" by simp
  have "unat w = 65535 * 2 ^ 32 + ?m" using div_mult_mod_eq [of "unat w" "2 ^ 32"] assms by metis
  then have "groups_val (replicate 5 0 @ [65535, ?m div 65536, ?m mod 65536]) = unat w"
    using mapped_value [of "unat w"] by simp
  moreover have "parse_ipv6 ((''::ffff:'' @ v4_string ?m) @ zone_suffix z) =
      map_option (\<lambda>gs. Addr6 (of_nat (groups_val gs)) z) (parse_groups (''::ffff:'' @ v4_string ?m))"
    by (rule parse_ipv6_groups) (simp add: v4_string_plain)
  moreover have "parse_addr (''::ffff:'' @ v4_string ?m @ zone_suffix z) =
      parse_ipv6 (''::ffff:'' @ v4_string ?m @ zone_suffix z)"
    by (rule first_special) simp_all
  ultimately show ?thesis using parse_groups_mapped [OF m] by simp
qed

lemma parse_v6_string: "parse_addr (v6_string (v6_groups (unat w)) @ zone_suffix z) = Some (Addr6 w z)"
proof -
  let ?gs = "v6_groups (unat w)"
  have len: "length ?gs = 8" by (simp add: v6_groups_def)
  have "unat w < 2 ^ 128" using unsigned_less [of w] by simp
  then have "groups_val ?gs = unat w" by (rule groups_val_groups)
  moreover have "parse_groups (v6_string ?gs) = Some ?gs"
    using parse_groups_string [OF len] v6_groups_small by blast
  ultimately show ?thesis
    by (simp add: first_special [OF v6_string_plain [OF len]] parse_ipv6_groups [OF v6_string_plain(2) [OF len]])
qed

lemma parse_addr_string:
  assumes "is_valid a"
  shows "parse_addr (addr_string a) = Some a"
proof (cases a)
  case AddrNone
  then show ?thesis using assms by (simp add: is_valid_def)
next
  case (Addr4 w)
  obtain t where "v4_string (unat w) = dec (unat w div 16777216) @ CHR ''.'' # t" by (simp add: v4_string_def)
  then show ?thesis using Addr4 first_dot [of "unat w div 16777216" t] parse_ipv4_string [of w] by simp
next
  case (Addr6 w z)
  then show ?thesis using parse_mapped [of w z] parse_v6_string [of w z] by simp
qed

lemma is_valid_simps [simp]: "is_valid (Addr4 w)" "is_valid (Addr6 v z)"
  by (simp_all add: is_valid_def)

lemma parse_addr_Nil [simp]: "parse_addr '''' = None"
  by (simp add: parse_addr_def)

section \<open>Ranges\<close>

text \<open>The texts of addresses without a zone hold digits, colons and dots only.\<close>

definition text_char :: "char \<Rightarrow> bool" where
  "text_char c \<longleftrightarrow> c = CHR '':'' \<or> c = CHR ''.'' \<or> c \<in> hex_digit ` {..<16}"

lemma text_char_safe:
  assumes "text_char c"
  shows "\<not> go_space c" "c \<noteq> CHR ''-''" "c \<noteq> CHR ''/''" "c \<noteq> CHR ''!''"
proof -
  have "(of_char c :: nat) \<in> {46, 58} \<union> {48..57} \<union> {97..102}"
    using assms by (auto simp: text_char_def hex_digit_def)
  then show "\<not> go_space c" "c \<noteq> CHR ''-''" "c \<noteq> CHR ''/''" "c \<noteq> CHR ''!''"
    by (auto simp: go_space_def)
qed

lemma join_chars:
  "\<forall>w \<in> set ws. list_all P w \<Longrightarrow> list_all P sep \<Longrightarrow> list_all P (str_join sep ws)"
  by (induction ws rule: induct_list012) simp_all

lemma dec_text: "list_all text_char (dec n)"
proof -
  have "text_char (char_of (48 + d))" if "d < 10" for d :: nat
  proof -
    have "char_of (48 + d) = hex_digit d" using that by (simp add: hex_digit_def)
    then show ?thesis using that by (auto simp: text_char_def)
  qed
  then show ?thesis using dec_char_set [of n] by (auto simp: list_all_iff)
qed

lemma hex_text: "list_all text_char (hex n)"
  using hex_chars [of n] by (auto simp: list_all_iff text_char_def)

lemma address_text:
  assumes "plain a"
  shows "list_all text_char (addr_string a)" "addr_string a \<noteq> []"
proof -
  have sep [simp]: "text_char CHR '':''" "text_char CHR ''.''" by (simp_all add: text_char_def)
  have v4: "list_all text_char (v4_string n)" for n
    unfolding v4_string_def by (rule join_chars) (simp_all add: dec_text)
  have groups: "list_all text_char (str_join '':'' (map hex xs))" for xs
    by (rule join_chars) (auto simp: hex_text)
  have "text_char CHR ''f''" 
  proof -
    have "hex_digit 15 = CHR ''f''" by code_simp
    then have "CHR ''f'' \<in> hex_digit ` {..<16}" by (intro rev_image_eqI [of 15]) simp_all
    then show ?thesis by (simp add: text_char_def)
  qed
  then have mapped: "list_all text_char ''::ffff:''" by simp
  show "list_all text_char (addr_string a)"
    using assms v4 groups mapped
    by (cases a) (auto simp: plain_def is_valid_def zone_suffix_def v6_string_def split: prod.splits)
  show "addr_string a \<noteq> []" using parse_addr_string [of a] assms by (auto simp: plain_def)
qed

lemma trim_space_none: "list_all (\<lambda>c. \<not> go_space c) s \<Longrightarrow> trim_space s = s"
proof -
  assume "list_all (\<lambda>c. \<not> go_space c) s"
  moreover have "trim_left t = t" if "list_all (\<lambda>c. \<not> go_space c) t" for t
    using that by (cases t) (simp_all add: trim_left_def)
  ultimately show ?thesis by (simp add: trim_space_def list_all_iff)
qed

lemma parse_range_body_string:
  assumes "wf_range r"
  shows "parse_range_body (range_string r) ex = Inr r"
proof -
  have w: "plain (rstart r)" "plain (rend r)" "bit_len (rstart r) = bit_len (rend r)" "rstart r \<le> rend r"
    using assms by (simp_all add: wf_range_iff)
  let ?s = "addr_string (rstart r)" and ?e = "addr_string (rend r)"
  have chars: "list_all text_char ?s" "list_all text_char ?e" using address_text w by simp_all
  have trim: "trim_space ?s = ?s" "trim_space ?e = ?e"
    using chars text_char_safe(1) by (auto intro!: trim_space_none simp: list_all_iff)
  have clean: "CHR ''-'' \<notin> set ?s" "CHR ''/'' \<notin> set ?s"
    using chars(1) text_char_safe(2,3) by (auto simp: list_all_iff)
  have parse: "parse_addr_res ?s = Inr (rstart r)" "parse_addr_res ?e = Inr (rend r)"
    using parse_addr_string w(1,2) by (simp_all add: parse_addr_res_Inr plain_def)
  have new: "new_ip_range (rstart r) (rend r) = Inr r"
    using w by (simp add: new_ip_range_Inr)
  show ?thesis
  proof (cases "rstart r = rend r")
    case True
    then show ?thesis using clean parse new
      by (simp add: range_string_def parse_range_body_def str_contains_char)
  next
    case False
    then have "range_string r = ?s @ CHR ''-'' # ?e" by (simp add: range_string_def)
    then show ?thesis using clean parse new trim
      by (simp add: parse_range_body_def str_contains_char cut_append)
  qed
qed

text \<open>C22: A range survives its text: \<open>ParseIPRange\<close> reads back every well-formed range that
  \<open>IPRange.String\<close> writes, of either family and with whatever zeros of IPv6 left out, and
  with an exclamation mark in front it is read back as an exclusion.\<close>

theorem range_text_roundtrip:
  assumes "wf_range r"
  shows "parse_ip_range (range_string r) ex = Inr (r, False) \<and>
    parse_ip_range (''!'' @ range_string r) ex = Inr (r, True)"
proof -
  have w: "plain (rstart r)" "plain (rend r)" using assms by (simp_all add: wf_range_iff)
  have chars: "\<not> go_space c \<and> c \<noteq> CHR ''!''" if "c \<in> set (range_string r)" for c
    using that address_text(1) [OF w(1)] address_text(1) [OF w(2)] text_char_safe(1,4)
    by (auto simp: range_string_def list_all_iff go_space_def split: if_splits)
  then have "trim_space (range_string r) = range_string r"
    "trim_space (''!'' @ range_string r) = ''!'' @ range_string r"
    by (auto intro!: trim_space_none simp: list_all_iff go_space_def)
  moreover have "\<not> has_prefix ''!'' (range_string r)"
    using chars by (cases "range_string r") (auto simp: has_prefix_def)
  ultimately show ?thesis
    using parse_range_body_string [OF assms]
    by (simp add: parse_ip_range_def Let_def trim_prefix_def has_prefix_def)
qed

theorem range_text_roundtrip_witness:
  "parse_ip_range (''!'' @ range_string \<lparr>rstart = Addr6 0x20010db8000000000000000000000001 [],
     rend = Addr6 0x20010db8000000000000000000ff0000 []\<rparr>) True =
   Inr (\<lparr>rstart = Addr6 0x20010db8000000000000000000000001 [],
     rend = Addr6 0x20010db8000000000000000000ff0000 []\<rparr>, True)"
proof -
  have "wf_range \<lparr>rstart = Addr6 0x20010db8000000000000000000000001 [],
     rend = Addr6 0x20010db8000000000000000000ff0000 []\<rparr>"
    by (simp add: wf_range_iff plain_def less_eq_addr_def addr_key_def)
  from range_text_roundtrip [OF this] show ?thesis by blast
qed

end
