(* ===== verification/Allocation_Props.thy ===== *)
theory Allocation_Props
  imports Allocation_Decision Netip_Roundtrip
begin

text \<open>
  Properties of the expectations and of one reconcile of an allocation: what it decides, what
  it writes, which router calls it makes, and that it never takes another allocation's
  reservation.
\<close>

section \<open>Lemmas on the decision\<close>

lemma decide_dynamic_cases:
  assumes "req_address sp = ''''" "\<forall>p \<in> set pools. zone_free_pool p"
  shows "(\<exists>p \<in> set pools. eligible sp p \<and> (\<exists>ip \<in> pool_denote p. available name used e ip \<and>
        decide env h name sp pools used e = Some (Chosen (new_pending env name ip) p, reserved env name ip e))) \<or>
      ((\<forall>p \<in> set pools. eligible sp p \<longrightarrow> (\<forall>ip \<in> pool_denote p. \<not> available name used e ip)) \<and>
        decide env h name sp pools used e = Some (dynamic_failure sp pools, e))"
  using search_pools [OF assms(2), of sp name used e env h]
proof (elim disjE bexE conjE)
  fix p ip
  assume "p \<in> set pools" "eligible sp p" "ip \<in> pool_denote p" "available name used e ip"
    "try_pools env name h sp used pools e =
      Some (reserved env name ip e, Some (new_pending env name ip, p))"
  then show ?thesis using assms(1) by (auto simp: decide_def)
next
  assume "\<forall>p \<in> set pools. eligible sp p \<longrightarrow> (\<forall>ip \<in> pool_denote p. \<not> available name used e ip)"
    "try_pools env name h sp used pools e = Some (e, None)"
  then show ?thesis using assms(1) by (simp add: decide_def)
qed

lemma dynamic_failure_refused: "\<exists>reason msg. dynamic_failure sp pools = Refused reason msg"
  by (auto simp: dynamic_failure_def split: list.splits)

lemma pool_of_address_Some:
  "pool_of_address sp ip pools = Some p \<Longrightarrow>
    p \<in> set pools \<and> pool_matches sp p \<and> rs_contains (pool_set p) ip \<and>
    List.find (\<lambda>q. pool_matches sp q \<and> rs_contains (pool_set q) ip) pools = Some p"
  by (induction pools) (auto simp: pool_set_def split: if_splits)

lemma pool_of_address_None:
  "pool_of_address sp ip pools = None \<longleftrightarrow>
    (\<forall>p \<in> set pools. pool_matches sp p \<longrightarrow> \<not> rs_contains (pool_set p) ip)"
  by (induction pools) (auto simp: pool_set_def)

lemma decide_specific_cases:
  "(\<exists>ip p. parse_addr (req_address sp) = Some ip \<and> available name used e ip \<and>
      pool_of_address sp ip pools = Some p \<and>
      decide_specific env name sp pools used e = (Chosen (new_pending env name ip) p, reserved env name ip e)) \<or>
   (\<exists>reason msg. (\<forall>ip. parse_addr (req_address sp) = Some ip \<longrightarrow>
        \<not> available name used e ip \<or> pool_of_address sp ip pools = None) \<and>
      decide_specific env name sp pools used e = (Refused reason msg, e))"
  by (cases "parse_addr (req_address sp)")
    (auto simp: decide_specific_def available_def Let_def new_pending_def [symmetric]
      stage_new_pending split: option.splits)

lemma pool_denote_valid: "ip \<in> pool_denote p \<Longrightarrow> is_valid ip"
  by (auto simp: pool_denote_def denote_def range_addrs_def plain_def)

text \<open>Every decision: an available address of a matching pool is reserved, or nothing changes.\<close>

lemma decide_cases:
  assumes "\<forall>p \<in> set pools. zone_free_pool p"
  obtains ip p where "decide env h name sp pools used e =
      Some (Chosen (new_pending env name ip) p, reserved env name ip e)"
      "p \<in> set pools" "pool_matches sp p" "available name used e ip" "is_valid ip"
    | reason msg where "decide env h name sp pools used e = Some (Refused reason msg, e)"
proof (cases "req_address sp = ''''")
  case True
  then show ?thesis
    using decide_dynamic_cases [OF True assms, of name used e env h] dynamic_failure_refused that
    by (elim disjE bexE conjE) (auto simp: eligible_def pool_denote_valid, metis)
next
  case False
  then show ?thesis
    using decide_specific_cases [of sp name used e pools env] that pool_of_address_Some parse_addr_valid
    by (elim disjE exE conjE) (auto simp: decide_def)
qed

section \<open>Lemmas on the rest of the reconcile\<close>

lemma put_condition_keeps [simp]:
  "st_address (alloc_status (fst (put_condition K c s))) = st_address (alloc_status (fst s))"
  "st_phase (alloc_status (fst (put_condition K c s))) = st_phase (alloc_status (fst s))"
  "alloc_meta (fst (put_condition K c s)) = alloc_meta (fst s)"
  "alloc_spec (fst (put_condition K c s)) = alloc_spec (fst s)"
  "snd s \<Longrightarrow> snd (put_condition K c s)"
  by (auto simp: put_condition_def split: prod.splits)

lemma commit_expectations:
  "fst (snd (commit K render env d alloc e)) =
     (case staged_of d of
        Some pend \<Rightarrow> if \<exists>err. fst (commit K render env d alloc e) = Failure (ClientError err)
          then unstage_allocation pend e else e
      | None \<Rightarrow> e)"
  by (auto simp: commit_def Let_def final_outcome_def staged_of_def
      split: prod.splits option.splits alloc_decision.splits if_splits)

lemma unstage_new_pending:
  "unstage_allocation (new_pending env name ip) (reserved env name ip e) =
     e\<lparr>pending_allocs := (pending_allocs e)(ip := None),
       pending_releases := (pending_releases e)(ip := None)\<rparr>"
  by (simp add: unstage_allocation_def reserved_def)

text \<open>The tracker after the decision: unchanged, reserved, or reserved and withdrawn.\<close>

lemma commit_tracker:
  "fst (snd (commit K render env (Refused reason msg) alloc e)) = e"
  "fst (snd (commit K render env (Chosen (new_pending env name ip) p) alloc (reserved env name ip e))) \<in>
     {reserved env name ip e, e\<lparr>pending_allocs := (pending_allocs e)(ip := None),
       pending_releases := (pending_releases e)(ip := None)\<rparr>}"
  unfolding commit_expectations staged_of_def by (auto simp: unstage_new_pending)

lemma reserved_inv: "exp_inv e \<Longrightarrow> exp_inv (reserved env name ip e)"
  by (auto simp: exp_inv_def reserved_def)

lemma withdrawn_inv:
  "exp_inv e \<Longrightarrow> exp_inv (e\<lparr>pending_allocs := (pending_allocs e)(ip := None),
     pending_releases := (pending_releases e)(ip := None)\<rparr>)"
  by (auto simp: exp_inv_def)

text \<open>The tracker of the decision, the uses it resolves, and the live reconcile by cases.\<close>

definition confirmed_tracker :: "kube_lib \<Rightarrow> 'e alloc_env \<Rightarrow> ip_allocation list \<Rightarrow> expectations \<Rightarrow> expectations" where
  "confirmed_tracker K env allocs e = confirm (find_cond K) (env_since env) allocs e"

definition used_by_others ::
  "kube_lib \<Rightarrow> 'e alloc_env \<Rightarrow> ip_allocation \<Rightarrow> ip_allocation list \<Rightarrow> expectations \<Rightarrow> (addr \<rightharpoonup> time)" where
  "used_by_others K env alloc allocs e =
     resolve (find_cond K) (filter (\<lambda>a. obj_uid (alloc_meta a) \<noteq> obj_uid (alloc_meta alloc)) allocs)
       (alloc_name alloc) (confirmed_tracker K env allocs e)"

lemma reconcile_live_cases:
  assumes "\<forall>pools. env_pools env = Inr pools \<longrightarrow> (\<forall>p \<in> set pools. zone_free_pool p)"
  obtains (client) err where "reconcile_live K render sha env alloc e = (Failure (ClientError err), e, [])"
    | (chosen) pools allocs ip p where "env_pools env = Inr pools" "env_allocs env = Inr allocs"
      "p \<in> set pools" "pool_matches (alloc_spec alloc) p"
      "available (alloc_name alloc) (used_by_others K env alloc allocs e)
        (confirmed_tracker K env allocs e) ip" "is_valid ip"
      "reconcile_live K render sha env alloc e =
        commit K render env (Chosen (new_pending env (alloc_name alloc) ip) p) alloc
          (reserved env (alloc_name alloc) ip (confirmed_tracker K env allocs e))"
    | (refused) allocs reason msg where "env_allocs env = Inr allocs"
      "reconcile_live K render sha env alloc e =
        commit K render env (Refused reason msg) alloc (confirmed_tracker K env allocs e)"
proof (cases "env_pools env")
  case (Inl err)
  then show ?thesis using client by (simp add: reconcile_live_def)
next
  case pools: (Inr pools)
  show ?thesis
  proof (cases "env_allocs env")
    case (Inl err)
    then show ?thesis using client pools by (simp add: reconcile_live_def)
  next
    case (Inr allocs)
    then have unfold: "reconcile_live K render sha env alloc e =
        (case decide env (take 16 (sha (alloc_name alloc))) (alloc_name alloc) (alloc_spec alloc) pools
            (used_by_others K env alloc allocs e) (confirmed_tracker K env allocs e) of
           None \<Rightarrow> (Panic, confirmed_tracker K env allocs e, [])
         | Some (d, e2) \<Rightarrow> commit K render env d alloc e2)"
      using pools unfolding used_by_others_def confirmed_tracker_def
      by (simp add: reconcile_live_def Let_def)
    have z: "\<forall>p \<in> set pools. zone_free_pool p" using assms pools by simp
    show ?thesis
      by (rule decide_cases [OF z, of env "take 16 (sha (alloc_name alloc))" "alloc_name alloc"
            "alloc_spec alloc" "used_by_others K env alloc allocs e" "confirmed_tracker K env allocs e"])
        (use unfold pools Inr chosen refused in auto)
  qed
qed


lemma apply_decision_calls:
  assumes "apply_decision render d alloc = (a1, c, changed, calls)"
  shows "(\<forall>pend p. d = Chosen pend p \<longrightarrow> st_address (alloc_status a1) = addr_string (p_address pend)) \<and>
    (\<exists>t reason. calls = [RecordEvent t reason])"
  using assms by (cases d) (auto simp: apply_decision_def Let_def split: if_splits)

lemma program_calls:
  assumes "program render env d alloc = Some pr"
  shows "st_address (alloc_status (pr_alloc pr)) = st_address (alloc_status alloc)"
    and "DeleteAdvertisement x \<in> set (pr_calls pr) \<Longrightarrow> \<exists>pend p. d = Chosen pend p \<and> x = p_address pend"
    and "UpdateStatus a \<notin> set (pr_calls pr)"
  using assms
  by (auto simp: program_def program_advertised_def program_unadvertised_def Let_def
      split: alloc_decision.splits if_splits sum.splits option.splits)

lemma commit_deletes:
  assumes "commit K render env d alloc e = (out, e', calls)"
    and "DeleteAdvertisement x \<in> set calls" "UpdateStatus a \<in> set calls"
  shows "st_address (alloc_status a) = addr_string x"
proof -
  obtain a1 c changed calls1 where ap: "apply_decision render d alloc = (a1, c, changed, calls1)"
    by (metis prod_cases4)
  then obtain t reason where c1: "calls1 = [RecordEvent t reason]"
    using apply_decision_calls by blast
  show ?thesis
  proof (cases "program render env d (fst (put_condition K c (a1, changed)))")
    case None
    then show ?thesis using assms ap c1 by (auto simp: commit_def Let_def split: alloc_decision.splits)
  next
    case (Some pr)
    note pr = program_calls [OF Some]
    have "DeleteAdvertisement x \<in> set (pr_calls pr)"
      using assms ap c1 Some by (auto simp: commit_def Let_def split: if_splits option.splits)
    then obtain pend p where d: "d = Chosen pend p" "x = p_address pend" using pr(2) by blast
    have "st_address (alloc_status a) = st_address (alloc_status (pr_alloc pr))"
      using assms ap c1 Some pr(3) by (auto simp: commit_def Let_def split: if_splits option.splits)
    then show ?thesis using pr(1) d apply_decision_calls [OF ap] by simp
  qed
qed

section \<open>Properties\<close>

text \<open>C4: A dynamic allocation, for pools without zones, ends and does not panic; it chooses an
  address of an eligible pool (name and family match, auto-assign when no pool is named) that
  neither the resolved uses nor another reservation hold and reserves it, or, only when there is
  no such address in any eligible pool, is refused and leaves the tracker as it was.\<close>

theorem dynamic_allocation_exact:
  assumes "req_address sp = ''''" "\<forall>p \<in> set pools. zone_free_pool p"
  shows "(\<exists>p \<in> set pools. \<exists>ip \<in> pool_denote p. eligible sp p \<and> available name used e ip \<and>
        decide env h name sp pools used e =
          Some (Chosen \<lparr>p_id = name, p_address = ip, p_time = env_stage_time env ip\<rparr> p,
            reserved env name ip e)) \<or>
      ((\<forall>p \<in> set pools. \<forall>ip \<in> pool_denote p. eligible sp p \<longrightarrow> \<not> available name used e ip) \<and>
        (\<exists>reason msg. decide env h name sp pools used e = Some (Refused reason msg, e)))"
proof -
  obtain reason msg where "dynamic_failure sp pools = Refused reason msg"
    using dynamic_failure_refused by blast
  then show ?thesis
    using decide_dynamic_cases [OF assms, of name used e env h]
    by (auto simp: new_pending_def)
qed

definition quiet_env :: "ip_pool list \<Rightarrow> ip_allocation list \<Rightarrow> ip_allocation \<Rightarrow> string alloc_env" where
  "quiet_env pools allocs alloc =
     \<lparr>env_get = Found alloc, env_pools = Inr pools, env_allocs = Inr allocs, env_since = (\<lambda>_. 0),
      env_release_time = 100, env_stage_time = (\<lambda>_. 50), env_patch = (\<lambda>_. None), env_update = (\<lambda>_. None),
      env_delete_adv = (\<lambda>_. None), env_ensure_adv = (\<lambda>_ i. Inr i)\<rparr>"

definition sample_alloc :: "string \<Rightarrow> string \<Rightarrow> string \<Rightarrow> ip_allocation" where
  "sample_alloc name phase address =
     \<lparr>alloc_meta = \<lparr>obj_name = name, obj_namespace = '''', obj_uid = name, obj_generation = 1,
        obj_deleting = False, obj_finalizers = [finalizer_name], obj_annotations = (\<lambda>_. None),
        obj_labels = (\<lambda>_. None)\<rparr>,
      alloc_spec = \<lparr>req_family = IPv4, req_pool = '''', req_address = ''''\<rparr>,
      alloc_status = \<lparr>st_phase = phase, st_address = address, st_advertised = False,
        st_interface = '''', st_conditions = [], st_observed = 0\<rparr>\<rparr>"

definition plain_kube :: kube_lib where
  "plain_kube =
     \<lparr>find_cond = (\<lambda>cs t. List.find (\<lambda>c. cond_type c = t) cs),
      set_cond = (\<lambda>cs c. (c # filter (\<lambda>d. cond_type d \<noteq> cond_type c) cs, True)),
      contains_finalizer = (\<lambda>m f. f \<in> set (obj_finalizers m)),
      add_finalizer = (\<lambda>m f. m\<lparr>obj_finalizers := f # obj_finalizers m\<rparr>),
      remove_finalizer = (\<lambda>m f. m\<lparr>obj_finalizers := filter (\<lambda>g. g \<noteq> f) (obj_finalizers m)\<rparr>)\<rparr>"

theorem dynamic_allocation_exact_witness:
  "\<exists>d e'. decide (quiet_env [] [] (sample_alloc ''x'' '''' '''')) [3] ''x''
     (alloc_spec (sample_alloc ''x'' '''' '''')) [sample_pool ''a'' [''10.0.0.0/30'']] Map.empty
     (new_expectations 60) = Some (d, e')"
  using dynamic_allocation_exact [of "alloc_spec (sample_alloc ''x'' '''' '''')"
      "[sample_pool ''a'' [''10.0.0.0/30'']]" "''x''" Map.empty "new_expectations 60"
      "quiet_env [] [] (sample_alloc ''x'' '''' '''')" "[3]"]
  by (force simp: sample_alloc_def sample_pool_simps zone_free_def)

text \<open>C38: A requested address is chosen exactly when its text parses, nobody else uses or has
  reserved it, and some matching pool contains it; the first such pool gives the interface and
  the advertisement. Otherwise the request is refused and the tracker keeps its state.\<close>

theorem specific_allocation_exact:
  assumes "req_address sp \<noteq> ''''"
  shows "case decide env h name sp pools used e of
      Some (Chosen pend p, e') \<Rightarrow>
        parse_addr (req_address sp) = Some (p_address pend) \<and> p_id pend = name \<and>
        available name used e (p_address pend) \<and> p \<in> set pools \<and> pool_matches sp p \<and>
        rs_contains (pool_set p) (p_address pend) \<and>
        List.find (\<lambda>q. pool_matches sp q \<and> rs_contains (pool_set q) (p_address pend)) pools = Some p \<and>
        e' = reserved env name (p_address pend) e
    | Some (Refused reason msg, e') \<Rightarrow> e' = e \<and>
        (\<forall>ip. parse_addr (req_address sp) = Some ip \<longrightarrow> \<not> available name used e ip \<or>
          (\<forall>p \<in> set pools. pool_matches sp p \<longrightarrow> \<not> rs_contains (pool_set p) ip))
    | None \<Rightarrow> False"
  using decide_specific_cases [of sp name used e pools env] assms
  by (auto simp: decide_def pool_of_address_None dest!: pool_of_address_Some)

theorem specific_allocation_exact_witness:
  "\<exists>p e'. decide (quiet_env [] [] (sample_alloc ''x'' '''' '''')) [3] ''x''
     \<lparr>req_family = '''', req_pool = '''', req_address = ''10.0.0.2''\<rparr> [sample_pool ''a'' [''10.0.0.0/30'']]
     Map.empty (new_expectations 60) =
     Some (Chosen \<lparr>p_id = ''x'', p_address = Addr4 0x0a000002, p_time = 50\<rparr> p, e') \<and>
     rs_contains (pool_set p) (Addr4 0x0a000002)"
proof -
  let ?sp = "\<lparr>req_family = '''', req_pool = '''', req_address = ''10.0.0.2''\<rparr>"
  let ?d = "decide (quiet_env [] [] (sample_alloc ''x'' '''' '''')) [3] ''x'' ?sp
     [sample_pool ''a'' [''10.0.0.0/30'']] Map.empty (new_expectations 60)"
  have "case ?d of Some (Chosen pend p, e') \<Rightarrow> pend = \<lparr>p_id = ''x'', p_address = Addr4 0x0a000002, p_time = 50\<rparr>
      | _ \<Rightarrow> False" by code_simp
  then obtain p e' where d: "?d =
      Some (Chosen \<lparr>p_id = ''x'', p_address = Addr4 0x0a000002, p_time = 50\<rparr> p, e')"
    by (auto split: option.splits prod.splits alloc_decision.splits)
  then show ?thesis
    using specific_allocation_exact [where sp = ?sp and name = "''x''" and used = Map.empty
        and e = "new_expectations 60" and pools = "[sample_pool ''a'' [''10.0.0.0/30'']]"
        and env = "quiet_env [] [] (sample_alloc ''x'' '''' '''')" and h = "[3]"]
    by auto
qed

lemma live_keeps_reservations:
  assumes "exp_inv e" "env_get env = Found alloc" "\<not> obj_deleting (alloc_meta alloc)"
    and "\<forall>pools. env_pools env = Inr pools \<longrightarrow> (\<forall>p \<in> set pools. zone_free_pool p)"
    and "reconcile K render sha env e = (out, e', calls)"
  shows "exp_inv e' \<and> (\<forall>ip q. pending_allocs e ip = Some q \<and> p_id q \<noteq> alloc_name alloc \<and>
      (\<forall>allocs. env_allocs env = Inr allocs \<longrightarrow>
        (\<forall>t \<in> cached_at (find_cond K) allocs ip. t < p_time q)) \<longrightarrow>
      pending_allocs e' ip = Some q)"
proof (cases "contains_finalizer K (alloc_meta alloc) finalizer_name")
  case False
  then show ?thesis using assms by (auto simp: reconcile_def Let_def)
next
  case True
  then have e': "e' = fst (snd (reconcile_live K render sha env alloc e))"
    using assms by (simp add: reconcile_def)
  show ?thesis
  proof (rule reconcile_live_cases [OF assms(4), of K render sha alloc e])
    fix err assume "reconcile_live K render sha env alloc e = (Failure (ClientError err), e, [])"
    then show ?thesis using e' assms(1) by simp
  next
    fix pools allocs ip p
    let ?c = "confirmed_tracker K env allocs e"
    assume chosen: "env_allocs env = Inr allocs"
      "available (alloc_name alloc) (used_by_others K env alloc allocs e) ?c ip"
      "reconcile_live K render sha env alloc e =
        commit K render env (Chosen (new_pending env (alloc_name alloc) ip) p) alloc
          (reserved env (alloc_name alloc) ip ?c)"
    have c: "exp_inv ?c" using exp_inv_ops(6) [OF assms(1)] by (simp add: confirmed_tracker_def)
    have "e' \<in> {reserved env (alloc_name alloc) ip ?c, ?c\<lparr>pending_allocs := (pending_allocs ?c)(ip := None),
        pending_releases := (pending_releases ?c)(ip := None)\<rparr>}"
      using e' chosen(3) commit_tracker(2) [of K render env "alloc_name alloc" ip p alloc ?c] by simp
    then have "exp_inv e'" "\<forall>x. x \<noteq> ip \<longrightarrow> pending_allocs e' x = pending_allocs ?c x"
      using reserved_inv [OF c] withdrawn_inv [OF c] by (auto simp: reserved_def)
    then show ?thesis using chosen(1,2) confirm_pending [of "find_cond K" "env_since env" allocs e]
      by (fastforce simp: available_def confirmed_tracker_def)
  next
    fix allocs reason msg
    assume refused: "env_allocs env = Inr allocs" "reconcile_live K render sha env alloc e =
        commit K render env (Refused reason msg) alloc (confirmed_tracker K env allocs e)"
    then have "e' = confirmed_tracker K env allocs e" using e' commit_tracker(1) by simp
    then show ?thesis
      using refused(1) exp_inv_ops(6) [OF assms(1)] confirm_pending [of "find_cond K" "env_since env" allocs e]
      by (auto simp: confirmed_tracker_def)
  qed
qed

text \<open>The deletion of an allocation withdraws no reservation but an older one of the address that it
  releases.\<close>

definition releases :: "ip_allocation \<Rightarrow> addr \<Rightarrow> bool" where
  "releases a ip \<longleftrightarrow> st_phase (alloc_status a) \<in> {phase_allocated, phase_programmed} \<and>
     parse_addr (st_address (alloc_status a)) = Some ip"

lemma release_alloc_keeps:
  assumes "exp_inv e" "release_alloc K env alloc x e = (out, e', calls)"
  shows "exp_inv e'"
    and "ip \<noteq> x \<or> x = AddrNone \<or> env_release_time env < p_time q \<Longrightarrow> pending_allocs e ip = Some q \<Longrightarrow>
      pending_allocs e' ip = Some q"
proof -
  let ?r = "env_release_time env"
  let ?e = "if is_valid x then stage_release x ?r e else e"
  have e': "e' \<in> {?e, unstage_release x ?r ?e}"
    using assms(2) by (auto simp: release_alloc_def Let_def split: option.splits)
  have "exp_inv ?e" using exp_inv_ops(4) [OF assms(1)] assms(1) by simp
  then show "exp_inv e'" using e' exp_inv_ops(5) by auto
  have same: "pending_allocs (unstage_release x ?r ?e) = pending_allocs ?e"
    by (auto simp: unstage_release_def split: option.splits)
  show "pending_allocs e' ip = Some q"
    if "ip \<noteq> x \<or> x = AddrNone \<or> ?r < p_time q" "pending_allocs e ip = Some q"
  proof -
    have "pending_allocs ?e ip = Some q"
      using that by (auto simp: stage_release_def is_valid_def split: option.splits)
    then show ?thesis using e' same by auto
  qed
qed

lemma deleted_keeps_reservations:
  assumes "exp_inv e" "reconcile_deleted K env alloc e = (out, e', calls)"
  shows "exp_inv e'"
    and "\<not> releases alloc ip \<or> env_release_time env < p_time q \<Longrightarrow> pending_allocs e ip = Some q \<Longrightarrow>
      pending_allocs e' ip = Some q"
proof -
  obtain x out' calls' where "e' = e \<or> (release_alloc K env alloc x e = (out', e', calls') \<and>
      (x = AddrNone \<or> releases alloc x))"
    using assms(2)
    by (auto simp: reconcile_deleted_def releases_def split: if_splits option.splits prod.splits)
  then show "exp_inv e'"
    "\<not> releases alloc ip \<or> env_release_time env < p_time q \<Longrightarrow> pending_allocs e ip = Some q \<Longrightarrow>
      pending_allocs e' ip = Some q"
    using assms(1) release_alloc_keeps [OF assms(1)] by metis+
qed

text \<open>C5: A reconcile keeps the tracker's invariant and the reservations of every other allocation,
  whatever the calls to the cluster and the router return, with two exceptions: the reconcile of
  a live allocation drops those that the cache confirms, and the reconcile of a deleted one drops
  the reservation of the very address that it releases when that reservation is not newer.\<close>

theorem reconcile_keeps_reservations:
  assumes "exp_inv e" "env_get env = Found alloc"
    and "\<forall>pools. env_pools env = Inr pools \<longrightarrow> (\<forall>p \<in> set pools. zone_free_pool p)"
    and "reconcile K render sha env e = (out, e', calls)"
  shows "exp_inv e' \<and> (\<forall>ip q. pending_allocs e ip = Some q \<and> p_id q \<noteq> alloc_name alloc \<and>
      (if obj_deleting (alloc_meta alloc) then \<not> releases alloc ip \<or> env_release_time env < p_time q
       else \<forall>allocs. env_allocs env = Inr allocs \<longrightarrow>
         (\<forall>t \<in> cached_at (find_cond K) allocs ip. t < p_time q)) \<longrightarrow>
      pending_allocs e' ip = Some q)"
proof (cases "obj_deleting (alloc_meta alloc)")
  case True
  then have "reconcile_deleted K env alloc e = (out, e', calls)"
    using assms(2,4) by (simp add: reconcile_def)
  from deleted_keeps_reservations [OF assms(1) this] show ?thesis using True by simp
next
  case False
  then show ?thesis using live_keeps_reservations [OF assms(1,2) False assms(3,4)] by simp
qed

theorem reconcile_keeps_reservations_witness:
  "pending_allocs (fst (snd (reconcile plain_kube (\<lambda>_. '''') (\<lambda>_. [0])
      (quiet_env [] [] (sample_alloc ''x'' '''' ''''))
      (snd (stage_allocation \<lparr>p_id = ''y'', p_address = Addr4 7, p_time = 5\<rparr> (new_expectations 60))))))
    (Addr4 7) = Some \<lparr>p_id = ''y'', p_address = Addr4 7, p_time = 5\<rparr>"
proof -
  let ?e = "snd (stage_allocation \<lparr>p_id = ''y'', p_address = Addr4 7, p_time = 5\<rparr> (new_expectations 60))"
  let ?alloc = "sample_alloc ''x'' '''' ''''"
  let ?env = "quiet_env [] [] ?alloc"
  obtain out e' calls where r: "reconcile plain_kube (\<lambda>_. '''') (\<lambda>_. [0]) ?env ?e = (out, e', calls)"
    by (metis prod_cases3)
  have "exp_inv ?e" by (intro exp_inv_ops)
  moreover have "env_get ?env = Found ?alloc"
    "\<forall>pools. env_pools ?env = Inr pools \<longrightarrow> (\<forall>p \<in> set pools. zone_free_pool p)"
    by (simp_all add: quiet_env_def sample_alloc_def)
  moreover have "pending_allocs ?e (Addr4 7) = Some \<lparr>p_id = ''y'', p_address = Addr4 7, p_time = 5\<rparr>"
    "alloc_name ?alloc = ''x''" "env_allocs ?env = Inr []" "\<not> obj_deleting (alloc_meta ?alloc)"
    by (simp_all add: stage_allocation_def new_expectations_def quiet_env_def sample_alloc_def)
  ultimately show ?thesis using reconcile_keeps_reservations [OF _ _ _ r] r by simp
qed


lemma three_calls:
  assumes "case cs of [RecordEvent t reason, EnsureAdvertisement ip iface, UpdateStatus a] \<Rightarrow>
      P t reason ip iface a | _ \<Rightarrow> False"
  shows "\<exists>t reason ip iface a. cs = [RecordEvent t reason, EnsureAdvertisement ip iface, UpdateStatus a] \<and>
    P t reason ip iface a"
proof -
  obtain c1 r1 where 1: "cs = c1 # r1" using assms by (cases cs) auto
  obtain t reason where 2: "c1 = RecordEvent t reason" using assms 1 by (cases c1) auto
  obtain c2 r2 where 3: "r1 = c2 # r2" using assms 1 2 by (cases r1) auto
  obtain ip iface where 4: "c2 = EnsureAdvertisement ip iface" using assms 1 2 3 by (cases c2) auto
  obtain c3 r3 where 5: "r2 = c3 # r3" using assms 1 2 3 4 by (cases r2) auto
  obtain a where 6: "c3 = UpdateStatus a" using assms 1 2 3 4 5 by (cases c3) auto
  show ?thesis using assms 1 2 3 4 5 6 by (cases r3) auto
qed

lemma triple_eq: "fst r = x \<Longrightarrow> snd (snd r) = z \<Longrightarrow> r = (x, fst (snd r), z)"
  by (cases r) simp


text \<open>A live reconcile asks the router to remove the advertisement of no address but the one
  it chooses: when an allocation moves to another address, or is refused, the advertisement of
  its previous address stays on the router.\<close>

theorem reconcile_never_unadvertises_old:
  assumes "env_get env = Found alloc" "\<not> obj_deleting (alloc_meta alloc)"
    and "reconcile K render sha env e = (out, e', calls)" "DeleteAdvertisement x \<in> set calls"
    and "UpdateStatus a \<in> set calls"
  shows "st_address (alloc_status a) = addr_string x"
proof -
  have "contains_finalizer K (alloc_meta alloc) finalizer_name"
    using assms by (auto simp: reconcile_def Let_def split: if_splits)
  then have live: "reconcile_live K render sha env alloc e = (out, e', calls)"
    using assms by (simp add: reconcile_def)
  obtain d e2 where "commit K render env d alloc e2 = (out, e', calls)"
    using live assms(4) by (auto simp: reconcile_live_def Let_def split: sum.splits option.splits)
  then show ?thesis using commit_deletes assms(4,5) by blast
qed

theorem reconcile_never_unadvertises_old_witness:
  "\<exists>out e' calls a x. reconcile plain_kube (\<lambda>_. '''') (\<lambda>_. [0])
      (quiet_env [(sample_pool ''a'' [''10.0.0.1''])\<lparr>pool_spec := (pool_spec (sample_pool ''a'' [''10.0.0.1'']))
          \<lparr>pool_advertise := False\<rparr>\<rparr>] [] (sample_alloc ''x'' '''' ''''))
      (new_expectations 60) = (out, e', calls) \<and> DeleteAdvertisement x \<in> set calls \<and>
    UpdateStatus a \<in> set calls \<and> st_address (alloc_status a) = addr_string x"
proof -
  let ?alloc = "sample_alloc ''x'' '''' ''''"
  let ?env = "quiet_env [(sample_pool ''a'' [''10.0.0.1''])\<lparr>pool_spec := (pool_spec (sample_pool ''a'' [''10.0.0.1'']))
          \<lparr>pool_advertise := False\<rparr>\<rparr>] [] ?alloc"
  let ?r = "reconcile plain_kube (\<lambda>_. '''') (\<lambda>_. [0]) ?env (new_expectations 60)"
  have "case snd (snd ?r) of [_, DeleteAdvertisement x, UpdateStatus a] \<Rightarrow> True | _ \<Rightarrow> False" by code_simp
  then obtain x a where m: "DeleteAdvertisement x \<in> set (snd (snd ?r))" "UpdateStatus a \<in> set (snd (snd ?r))"
    by (auto split: list.splits alloc_call.splits)
  have r: "?r = (fst ?r, fst (snd ?r), snd (snd ?r))" by simp
  have "env_get ?env = Found ?alloc" "\<not> obj_deleting (alloc_meta ?alloc)"
    by (simp_all add: quiet_env_def sample_alloc_def)
  from reconcile_never_unadvertises_old [OF this r m] m r
  show ?thesis by (intro exI [of _ "fst ?r"] exI [of _ "fst (snd ?r)"] exI [of _ "snd (snd ?r)"]
    exI [of _ a] exI [of _ x] conjI)
qed

text \<open>A programmed allocation is moved by its next reconcile when an address earlier in its
  order has become free: the allocation holding 10.0.0.2 takes 10.0.0.1, and no call removes the
  advertisement of 10.0.0.2.\<close>

theorem reconcile_moves_address:
  "\<exists>a e'. reconcile plain_kube (\<lambda>_. '''') (\<lambda>_. [0])
     (quiet_env [sample_pool ''a'' [''10.0.0.1-10.0.0.2'']]
       [sample_alloc ''x'' phase_programmed ''10.0.0.2''] (sample_alloc ''x'' phase_programmed ''10.0.0.2''))
     (new_expectations 60) =
   (Success, e', [RecordEvent event_normal ''IPAllocated'', EnsureAdvertisement (Addr4 0x0a000001) '''',
      UpdateStatus a]) \<and> st_address (alloc_status a) = ''10.0.0.1''"
proof -
  let ?r = "reconcile plain_kube (\<lambda>_. '''') (\<lambda>_. [0])
     (quiet_env [sample_pool ''a'' [''10.0.0.1-10.0.0.2'']]
       [sample_alloc ''x'' phase_programmed ''10.0.0.2''] (sample_alloc ''x'' phase_programmed ''10.0.0.2''))
     (new_expectations 60)"
  have s: "fst ?r = Success" by code_simp
  have "case snd (snd ?r) of [RecordEvent t reason, EnsureAdvertisement ip iface, UpdateStatus a] \<Rightarrow>
      t = event_normal \<and> reason = ''IPAllocated'' \<and> ip = Addr4 0x0a000001 \<and> iface = '''' \<and>
      st_address (alloc_status a) = ''10.0.0.1'' | _ \<Rightarrow> False"
    by code_simp
  from three_calls [OF this]
  obtain a where a: "snd (snd ?r) = [RecordEvent event_normal ''IPAllocated'',
      EnsureAdvertisement (Addr4 0x0a000001) '''', UpdateStatus a]" "st_address (alloc_status a) = ''10.0.0.1''"
    by (elim exE conjE) (simp only:)
  show ?thesis
    by (rule exI [of _ a], rule exI [of _ "fst (snd ?r)"], intro conjI)
      (rule triple_eq [OF s a(1)], rule a(2))
qed

end
