(* ===== verification/Allocation_Cluster.thy ===== *)
theory Allocation_Cluster
  imports Allocation_Props
begin

text \<open>
  The allocation controller against the API server: the stored allocations, the informer
  cache the reconciler reads, its expectations and the clock, and the steps of users, of the
  API server, of the informer and of the controller, whose step is one call of \<open>reconcile\<close>.
  The status is written by the controller alone.
\<close>

section \<open>The cluster\<close>

type_synonym alloc_store = "string \<rightharpoonup> ip_allocation"

record cluster =
  cl_api :: alloc_store
  cl_cache :: alloc_store
  cl_tracker :: expectations
  cl_clock :: time

definition new_cluster :: "int \<Rightarrow> cluster" where
  "new_cluster timeout =
     \<lparr>cl_api = Map.empty, cl_cache = Map.empty, cl_tracker = new_expectations timeout, cl_clock = 0\<rparr>"

text \<open>What a call of the reconciler does to the stored object: a merge patch of the finalizers, an
  update of the status subresource, or nothing.\<close>

fun store_call :: "'e alloc_env \<Rightarrow> string \<Rightarrow> alloc_call \<Rightarrow> alloc_store \<Rightarrow> alloc_store" where
  "store_call env n (PatchFinalizers m) api =
     (if env_patch env m = None
      then api(n := map_option (\<lambda>a. a\<lparr>alloc_meta := (alloc_meta a)\<lparr>obj_finalizers := obj_finalizers m\<rparr>\<rparr>) (api n))
      else api)"
| "store_call env n (UpdateStatus b) api =
     (if env_update env b = None
      then api(n := map_option (\<lambda>a. a\<lparr>alloc_status := alloc_status b\<rparr>) (api n)) else api)"
| "store_call env n _ api = api"

definition after_reconcile ::
  "kube_lib \<Rightarrow> (alloc_message \<Rightarrow> string) \<Rightarrow> (string \<Rightarrow> byte list) \<Rightarrow> 'e alloc_env \<Rightarrow> string \<Rightarrow> time \<Rightarrow>
    cluster \<Rightarrow> cluster" where
  "after_reconcile K render sha env n now s =
     (case reconcile K render sha env (cl_tracker s) of
        (out, e, calls) \<Rightarrow>
          s\<lparr>cl_api := fold (store_call env n) calls (cl_api s), cl_tracker := e, cl_clock := now\<rparr>)"

text \<open>The helpers of the Kubernetes packages, as documented: \<open>SetStatusCondition\<close> leaves the
  conditions of other types alone and keeps the transition time when the status is the same,
  else it stamps the current time; the finalizer helpers add and remove one text.\<close>

definition kube_ok :: "find_condition \<Rightarrow> time \<Rightarrow> kube_lib \<Rightarrow> bool" where
  "kube_ok fc now K \<longleftrightarrow> find_cond K = fc \<and>
     (\<forall>cs c ty. ty \<noteq> cond_type c \<longrightarrow> fc (fst (set_cond K cs c)) ty = fc cs ty) \<and>
     (\<forall>cs c. \<exists>d. fc (fst (set_cond K cs c)) (cond_type c) = Some d \<and> cond_status d = cond_status c \<and>
        (cond_time d \<le> now \<or> (\<exists>old. fc cs (cond_type c) = Some old \<and> cond_time d = cond_time old))) \<and>
     (\<forall>m f. contains_finalizer K m f \<longleftrightarrow> f \<in> set (obj_finalizers m)) \<and>
     (\<forall>m f. f \<notin> set (obj_finalizers (remove_finalizer K m f)))"

text \<open>What the reconciler is answered: the object and the list come from the cache, a status update
  of an object that has changed since is refused (optimistic concurrency), and the times it
  reads lie between the clock and \<open>now\<close>.\<close>

definition env_ok :: "string alloc_env \<Rightarrow> string \<Rightarrow> time \<Rightarrow> cluster \<Rightarrow> bool" where
  "env_ok env n now s \<longleftrightarrow>
     (case env_get env of
        NotFound \<Rightarrow> cl_cache s n = None | GetError err \<Rightarrow> True | Found a \<Rightarrow> cl_cache s n = Some a) \<and>
     (\<forall>allocs. env_allocs env = Inr allocs \<longrightarrow> set allocs = ran (cl_cache s)) \<and>
     (\<forall>pools. env_pools env = Inr pools \<longrightarrow> (\<forall>p \<in> set pools. zone_free_pool p)) \<and>
     (cl_cache s n \<noteq> cl_api s n \<longrightarrow> (\<forall>b. env_update env b \<noteq> None)) \<and>
     (\<forall>ip. cl_clock s < env_stage_time env ip \<and> env_stage_time env ip \<le> now) \<and> cl_clock s \<le> now"

definition active :: "ip_allocation \<Rightarrow> bool" where
  "active a \<longleftrightarrow> \<not> (obj_deleting (alloc_meta a) \<and> finalizer_name \<notin> set (obj_finalizers (alloc_meta a)))"

section \<open>Steps\<close>

text \<open>With \<open>fresh\<close>, a reconcile sees its own object as it is stored (that of the others it may
  still see late, in any order).\<close>

inductive cluster_step :: "find_condition \<Rightarrow> bool \<Rightarrow> cluster \<Rightarrow> cluster \<Rightarrow> bool" for fc fresh where
  created: "cl_api s n = None \<Longrightarrow> alloc_name a = n \<Longrightarrow> st_address (alloc_status a) = '''' \<Longrightarrow>
    fc (st_conditions (alloc_status a)) type_allocated = None \<Longrightarrow>
    \<forall>m b. cl_api s m = Some b \<or> cl_cache s m = Some b \<longrightarrow> obj_uid (alloc_meta b) \<noteq> obj_uid (alloc_meta a) \<Longrightarrow>
    cluster_step fc fresh s (s\<lparr>cl_api := (cl_api s)(n \<mapsto> a)\<rparr>)"
| edited: "cl_api s n = Some a \<Longrightarrow> alloc_status b = alloc_status a \<Longrightarrow> alloc_name b = n \<Longrightarrow>
    obj_uid (alloc_meta b) = obj_uid (alloc_meta a) \<Longrightarrow> active b \<longrightarrow> active a \<Longrightarrow>
    cluster_step fc fresh s (s\<lparr>cl_api := (cl_api s)(n \<mapsto> b)\<rparr>)"
| removed: "cl_api s n = Some a \<Longrightarrow> obj_deleting (alloc_meta a) \<Longrightarrow> obj_finalizers (alloc_meta a) = [] \<Longrightarrow>
    cluster_step fc fresh s (s\<lparr>cl_api := (cl_api s)(n := None)\<rparr>)"
| observed: "cluster_step fc fresh s (s\<lparr>cl_cache := (cl_cache s)(n := cl_api s n)\<rparr>)"
| restarted: "cluster_step fc fresh s
    (s\<lparr>cl_cache := cl_api s, cl_tracker := new_expectations timeout\<rparr>)"
| reconciled: "kube_ok fc now K \<Longrightarrow> env_ok env n now s \<Longrightarrow> fresh \<longrightarrow> cl_cache s n = cl_api s n \<Longrightarrow>
    cluster_step fc fresh s (after_reconcile K render sha env n now s)"

inductive reachable :: "find_condition \<Rightarrow> bool \<Rightarrow> cluster \<Rightarrow> bool" for fc fresh where
  start: "reachable fc fresh (new_cluster timeout)"
| step: "reachable fc fresh s \<Longrightarrow> cluster_step fc fresh s s' \<Longrightarrow> reachable fc fresh s'"

section \<open>A stale object\<close>

text \<open>Concrete answers of the client at a time: they come from the cached list, the router
  answers, and a status update ends as given.\<close>

definition timed_env :: "ip_pool list \<Rightarrow> ip_allocation list \<Rightarrow> ip_allocation \<Rightarrow> time \<Rightarrow> string option \<Rightarrow> string alloc_env" where
  "timed_env pools allocs alloc t conflict =
     (quiet_env pools allocs alloc)\<lparr>env_stage_time := (\<lambda>_. t), env_release_time := t,
        env_update := (\<lambda>_. conflict)\<rparr>"

text \<open>\<open>FindStatusCondition\<close> and \<open>SetStatusCondition\<close> at a time.\<close>

definition first_of_type :: find_condition where
  "first_of_type cs t = List.find (\<lambda>c. cond_type c = t) cs"

definition stamp :: "time \<Rightarrow> condition list \<Rightarrow> condition \<Rightarrow> condition" where
  "stamp now cs c =
     (case first_of_type cs (cond_type c) of
        None \<Rightarrow> c\<lparr>cond_time := now\<rparr>
      | Some old \<Rightarrow> if cond_status old = cond_status c then c\<lparr>cond_time := cond_time old\<rparr>
          else c\<lparr>cond_time := now\<rparr>)"

definition stamped_kube :: "time \<Rightarrow> kube_lib" where
  "stamped_kube now =
     \<lparr>find_cond = first_of_type,
      set_cond = (\<lambda>cs c. (stamp now cs c # filter (\<lambda>d. cond_type d \<noteq> cond_type c) cs,
        first_of_type cs (cond_type c) \<noteq> Some (stamp now cs c))),
      contains_finalizer = (\<lambda>m f. f \<in> set (obj_finalizers m)),
      add_finalizer = (\<lambda>m f. m\<lparr>obj_finalizers := obj_finalizers m @ [f]\<rparr>),
      remove_finalizer = (\<lambda>m f. m\<lparr>obj_finalizers := filter (\<lambda>g. g \<noteq> f) (obj_finalizers m)\<rparr>)\<rparr>"

lemma stamped_kube_ok: "kube_ok first_of_type now (stamped_kube now)"
proof -
  have "List.find P (filter Q cs) = List.find P cs" if "\<And>c. P c \<Longrightarrow> Q c" for P Q :: "condition \<Rightarrow> bool" and cs
    using that by (induction cs) auto
  then show ?thesis
    by (auto simp: kube_ok_def stamped_kube_def first_of_type_def stamp_def split: option.splits)
qed

definition stored :: "ip_allocation list \<Rightarrow> alloc_store" where
  "stored as = map_of (map (\<lambda>a. (alloc_name a, a)) as)"

definition user_x :: ip_allocation where "user_x = sample_alloc ''x'' '''' ''''"
definition user_y :: ip_allocation where "user_y = sample_alloc ''y'' '''' ''''"
definition one_pool :: "ip_pool list" where "one_pool = [sample_pool ''a'' [''10.0.0.1-10.0.0.2'']]"

definition start_with :: "ip_allocation \<Rightarrow> ip_allocation \<Rightarrow> cluster" where
  "start_with x y = \<lparr>cl_api = stored [x, y], cl_cache = stored [x, y],
     cl_tracker = new_expectations 60, cl_clock = 0\<rparr>"

definition first_start :: cluster where
  "first_start = start_with user_x user_y"

text \<open>\<open>x\<close> is reconciled; it is reconciled again before the informer has shown the new status, so
  that the update conflicts; then \<open>y\<close> is reconciled.\<close>

definition stale_run :: cluster where
  "stale_run =
     (let r = (\<lambda>_. ''''); sha = (\<lambda>_. [0]); as = [user_x, user_y];
          s1 = after_reconcile (stamped_kube 1) r sha (timed_env one_pool as user_x 1 None) ''x'' 1 first_start;
          s2 = after_reconcile (stamped_kube 2) r sha (timed_env one_pool as user_x 2 (Some ''conflict'')) ''x'' 2 s1
      in after_reconcile (stamped_kube 3) r sha (timed_env one_pool as user_y 3 None) ''y'' 3 s2)"

definition address_in :: "cluster \<Rightarrow> string \<Rightarrow> string option" where
  "address_in s n = map_option (\<lambda>a. st_address (alloc_status a)) (cl_api s n)"

lemma stale_addresses:
  "address_in stale_run ''x'' = Some ''10.0.0.1'' \<and> address_in stale_run ''y'' = Some ''10.0.0.1''"
  by code_simp

lemma after_reconcile_other:
  "cl_cache (after_reconcile K render sha env n now s) = cl_cache s"
  "cl_clock (after_reconcile K render sha env n now s) = now"
  "m \<noteq> n \<Longrightarrow> cl_api (after_reconcile K render sha env n now s) m = cl_api s m"
proof -
  have call: "m \<noteq> n \<Longrightarrow> store_call env n c api m = api m" for c api
    by (cases c) simp_all
  have "m \<noteq> n \<Longrightarrow> fold (store_call env n) calls api m = api m" for calls api
    by (induction calls arbitrary: api) (simp_all add: call)
  then show "m \<noteq> n \<Longrightarrow> cl_api (after_reconcile K render sha env n now s) m = cl_api s m"
    by (simp add: after_reconcile_def split: prod.split)
qed (simp_all add: after_reconcile_def split: prod.split)

lemma sample_names [simp]:
  "alloc_name (sample_alloc n ph ad) = n" "obj_uid (alloc_meta (sample_alloc n ph ad)) = n"
  "st_address (alloc_status (sample_alloc n ph ad)) = ad"
  "st_conditions (alloc_status (sample_alloc n ph ad)) = []"
  by (simp_all add: sample_alloc_def)

text \<open>Two new objects of different names.\<close>

definition two_new :: "ip_allocation \<Rightarrow> ip_allocation \<Rightarrow> bool" where
  "two_new x y \<longleftrightarrow> alloc_name x \<noteq> alloc_name y \<and> obj_uid (alloc_meta x) \<noteq> obj_uid (alloc_meta y) \<and>
     list_all (\<lambda>a. st_address (alloc_status a) = '''' \<and> st_conditions (alloc_status a) = []) [x, y]"

lemma two_users: "two_new user_x user_y"
  by (simp add: two_new_def user_x_def user_y_def)

lemma stored_two: "stored [x, y] = [alloc_name y \<mapsto> y, alloc_name x \<mapsto> x]"
  by (simp add: stored_def)

lemma start_with_reachable:
  assumes "two_new x y"
  shows "reachable first_of_type fresh (start_with x y)"
proof -
  let ?s1 = "(new_cluster 60)\<lparr>cl_api := [alloc_name x \<mapsto> x]\<rparr>"
  let ?s2 = "?s1\<lparr>cl_api := (cl_api ?s1)(alloc_name y \<mapsto> y)\<rparr>"
  let ?s3 = "?s2\<lparr>cl_cache := (cl_cache ?s2)(alloc_name x := cl_api ?s2 (alloc_name x))\<rparr>"
  let ?s4 = "?s3\<lparr>cl_cache := (cl_cache ?s3)(alloc_name y := cl_api ?s3 (alloc_name y))\<rparr>"
  have "cluster_step first_of_type fresh (new_cluster 60)
      ((new_cluster 60)\<lparr>cl_api := (cl_api (new_cluster 60))(alloc_name x \<mapsto> x)\<rparr>)"
    by (rule created) (use assms in \<open>simp_all add: new_cluster_def two_new_def first_of_type_def\<close>)
  then have "reachable first_of_type fresh ?s1"
    using reachable.step [OF reachable.start [of _ _ 60]] by (simp add: new_cluster_def)
  moreover have "cluster_step first_of_type fresh ?s1 ?s2"
    by (rule created) (use assms in \<open>auto simp: new_cluster_def two_new_def first_of_type_def\<close>)
  moreover have "cluster_step first_of_type fresh ?s2 ?s3" "cluster_step first_of_type fresh ?s3 ?s4"
    by (rule observed)+
  ultimately have "reachable first_of_type fresh ?s4"
    by (blast intro: reachable.step)
  moreover have "?s4 = start_with x y"
    using assms by (simp add: start_with_def new_cluster_def stored_two two_new_def fun_eq_iff)
  ultimately show ?thesis by simp
qed

lemma timed_env_ok:
  assumes "two_new x y" "cl_cache s = stored [x, y]" "a \<in> {x, y}" "alloc_name a = n"
    and "cl_clock s < t" "conflict = None \<longrightarrow> cl_cache s n = cl_api s n"
  shows "env_ok (timed_env one_pool [x, y] a t conflict) n t s"
proof -
  have names: "alloc_name x \<noteq> alloc_name y" using assms(1) by (simp add: two_new_def)
  have "ran [alloc_name y \<mapsto> y] = {y}" by simp
  then have "ran (cl_cache s) = {x, y}"
    unfolding assms(2) stored_two by (subst ran_map_upd) (use names in simp_all)
  moreover have "cl_cache s n = Some a"
    using assms(3,4) names unfolding assms(2) stored_two by auto
  ultimately have "cl_cache s n = Some a" "{x, y} = ran (cl_cache s)" by simp_all
  then show ?thesis
    using assms(5,6)
    by (cases conflict)
      (simp_all add: env_ok_def timed_env_def quiet_env_def one_pool_def sample_pool_simps zone_free_def)
qed

lemma first_start_reachable: "reachable first_of_type fresh first_start"
  unfolding first_start_def by (rule start_with_reachable [OF two_users])

lemma stale_run_reachable: "reachable first_of_type False stale_run"
proof -
  let ?as = "[user_x, user_y]" and ?r = "\<lambda>_ :: alloc_message. ''''" and ?sha = "\<lambda>_ :: string. [0 :: byte]"
  let ?s1 = "after_reconcile (stamped_kube 1) ?r ?sha (timed_env one_pool ?as user_x 1 None) ''x'' 1 first_start"
  let ?s2 = "after_reconcile (stamped_kube 2) ?r ?sha
    (timed_env one_pool ?as user_x 2 (Some ''conflict'')) ''x'' 2 ?s1"
  have names: "alloc_name user_x = ''x''" "alloc_name user_y = ''y''"
    by (simp_all add: user_x_def user_y_def)
  have f: "cl_cache first_start = stored ?as" "cl_api first_start = stored ?as" "cl_clock first_start = 0"
    by (simp_all add: first_start_def start_with_def)
  have "cluster_step first_of_type False first_start ?s1"
    by (rule reconciled [OF stamped_kube_ok timed_env_ok [OF two_users]]) (simp_all add: f names)
  moreover have "cluster_step first_of_type False ?s1 ?s2"
    by (rule reconciled [OF stamped_kube_ok timed_env_ok [OF two_users]]) (simp_all add: f names after_reconcile_other)
  moreover have "cluster_step first_of_type False ?s2 stale_run"
    unfolding stale_run_def Let_def
    by (rule reconciled [OF stamped_kube_ok timed_env_ok [OF two_users]]) (simp_all add: f names after_reconcile_other)
  ultimately show ?thesis using first_start_reachable by (blast intro: reachable.step)
qed

lemma stale_active: "list_all (\<lambda>n. case cl_api stale_run n of Some a \<Rightarrow> active a | None \<Rightarrow> False) [''x'', ''y'']"
  by code_simp

text \<open>C6: The controller can give one address to two allocations: in a reachable cluster, where the
  second reconcile of an allocation saw its object as it was before the first (its status
  update then conflicts, and the withdrawal removes the reservation that belongs to the first),
  two live allocations hold 10.0.0.1.\<close>

theorem stale_reconcile_double_allocation:
  "\<exists>s a b. reachable first_of_type False s \<and> cl_api s ''x'' = Some a \<and> cl_api s ''y'' = Some b \<and>
     active a \<and> active b \<and> st_address (alloc_status a) = ''10.0.0.1'' \<and>
     st_address (alloc_status b) = ''10.0.0.1''"
proof -
  obtain a b where "cl_api stale_run ''x'' = Some a" "cl_api stale_run ''y'' = Some b"
    "st_address (alloc_status a) = ''10.0.0.1''" "st_address (alloc_status b) = ''10.0.0.1''"
    using stale_addresses unfolding address_in_def by (auto simp: map_option_eq_Some)
  then show ?thesis using stale_run_reachable stale_active by (fastforce split: option.splits)
qed

end
