(* ===== verification/Allocation_Protocol.thy ===== *)
theory Allocation_Protocol
  imports Allocation_Cluster
begin

text \<open>
  Why no address is given away twice when every reconcile sees its own object as it is stored:
  the invariant of the cluster, kept by every step. Every live holder of an address is protected
  by its own reservation or, without one, by its entry in the cache, which no release hides.
\<close>

section \<open>The invariant\<close>

abbreviation claims :: "find_condition \<Rightarrow> ip_allocation \<Rightarrow> addr \<Rightarrow> bool" where
  "claims fc a ip \<equiv> \<exists>t. alloc_time_of fc a = Some (ip, t)"

definition seen :: "cluster \<Rightarrow> string \<Rightarrow> ip_allocation \<Rightarrow> bool" where
  "seen s n a \<longleftrightarrow> cl_api s n = Some a \<or> cl_cache s n = Some a"

text \<open>A status the controller has written by \<open>now\<close>.\<close>

definition sound :: "find_condition \<Rightarrow> time \<Rightarrow> ip_allocation \<Rightarrow> bool" where
  "sound fc now a \<longleftrightarrow>
     (st_address (alloc_status a) = '''' \<or>
       st_phase (alloc_status a) \<in> {phase_allocated, phase_programmed} \<and> (\<exists>ip. claims fc a ip)) \<and>
     (\<forall>c. fc (st_conditions (alloc_status a)) type_allocated = Some c \<longrightarrow> cond_time c \<le> now)"

text \<open>The holder of an address is protected.\<close>

definition protected :: "find_condition \<Rightarrow> cluster \<Rightarrow> string \<Rightarrow> addr \<Rightarrow> bool" where
  "protected fc s n ip \<longleftrightarrow> pending_releases (cl_tracker s) ip = None \<and>
     (\<forall>q. pending_allocs (cl_tracker s) ip = Some q \<longrightarrow> p_id q = n) \<and>
     (pending_allocs (cl_tracker s) ip = None \<longrightarrow> (\<exists>c. cl_cache s n = Some c \<and> claims fc c ip))"

definition holder :: "find_condition \<Rightarrow> cluster \<Rightarrow> string \<Rightarrow> addr \<Rightarrow> bool" where
  "holder fc s n ip \<longleftrightarrow> (\<exists>a. cl_api s n = Some a \<and> active a \<and> claims fc a ip)"

definition cluster_inv :: "find_condition \<Rightarrow> cluster \<Rightarrow> bool" where
  "cluster_inv fc s \<longleftrightarrow>
     exp_inv (cl_tracker s) \<and>
     (\<forall>n a. seen s n a \<longrightarrow> alloc_name a = n \<and> sound fc (cl_clock s) a) \<and>
     (\<forall>n m a b. seen s n a \<and> seen s m b \<and> obj_uid (alloc_meta a) = obj_uid (alloc_meta b) \<longrightarrow> n = m) \<and>
     (\<forall>ip q m a t. pending_allocs (cl_tracker s) ip = Some q \<and> seen s m a \<and> m \<noteq> p_id q \<and>
        alloc_time_of fc a = Some (ip, t) \<longrightarrow> t < p_time q) \<and>
     (\<forall>n ip. holder fc s n ip \<longrightarrow> protected fc s n ip) \<and>
     (\<forall>n m ip. holder fc s n ip \<and> holder fc s m ip \<longrightarrow> n = m)"

lemma cluster_invI:
  assumes "exp_inv (cl_tracker s)"
    and "\<And>n a. seen s n a \<Longrightarrow> alloc_name a = n \<and> sound fc (cl_clock s) a"
    and "\<And>n m a b. seen s n a \<Longrightarrow> seen s m b \<Longrightarrow> obj_uid (alloc_meta a) = obj_uid (alloc_meta b) \<Longrightarrow> n = m"
    and "\<And>ip q m a t. pending_allocs (cl_tracker s) ip = Some q \<Longrightarrow> seen s m a \<Longrightarrow> m \<noteq> p_id q \<Longrightarrow>
        alloc_time_of fc a = Some (ip, t) \<Longrightarrow> t < p_time q"
    and "\<And>n ip. holder fc s n ip \<Longrightarrow> protected fc s n ip"
    and "\<And>n m ip. holder fc s n ip \<Longrightarrow> holder fc s m ip \<Longrightarrow> n = m"
  shows "cluster_inv fc s"
  using assms unfolding cluster_inv_def by blast

lemma cluster_invD:
  assumes "cluster_inv fc s"
  shows "exp_inv (cl_tracker s)"
    and "seen s n a \<Longrightarrow> alloc_name a = n" "seen s n a \<Longrightarrow> sound fc (cl_clock s) a"
    and "seen s n a \<Longrightarrow> seen s m b \<Longrightarrow> obj_uid (alloc_meta a) = obj_uid (alloc_meta b) \<Longrightarrow> n = m"
    and "pending_allocs (cl_tracker s) ip = Some q \<Longrightarrow> seen s m a \<Longrightarrow> m \<noteq> p_id q \<Longrightarrow>
        alloc_time_of fc a = Some (ip, t) \<Longrightarrow> t < p_time q"
    and "holder fc s n ip \<Longrightarrow> protected fc s n ip"
    and "holder fc s n ip \<Longrightarrow> holder fc s m ip \<Longrightarrow> n = m"
  using assms unfolding cluster_inv_def by blast+

lemma sound_mono: "sound fc t a \<Longrightarrow> t \<le> t' \<Longrightarrow> sound fc t' a"
  by (fastforce simp: sound_def)

lemma claim_time:
  "sound fc now a \<Longrightarrow> alloc_time_of fc a = Some (ip, t) \<Longrightarrow> t \<le> now"
  by (auto simp: sound_def alloc_time_of_def split: if_splits option.splits)

lemma no_claim: "st_address (alloc_status a) = '''' \<Longrightarrow> \<not> claims fc a ip"
  by (simp add: alloc_time_of_def)

lemma claim_status:
  assumes "alloc_status a = alloc_status b"
  shows "alloc_time_of fc a = alloc_time_of fc b" "sound fc now a \<longleftrightarrow> sound fc now b"
  unfolding sound_def alloc_time_of_def assms by (rule refl)+

lemma claim_parse: "alloc_time_of fc a = Some (ip, t) \<Longrightarrow> parse_addr (st_address (alloc_status a)) = Some ip"
  by (auto simp: alloc_time_of_def split: if_splits option.splits)

section \<open>Steps that add nothing\<close>

lemma inv_shrink:
  assumes "cluster_inv fc s" "exp_inv (cl_tracker s')" "cl_clock s \<le> cl_clock s'"
    and "\<And>m a. seen s' m a \<Longrightarrow> seen s m a"
    and "\<And>m ip. holder fc s' m ip \<Longrightarrow> holder fc s m ip"
    and "\<And>ip q. pending_allocs (cl_tracker s') ip = Some q \<Longrightarrow> pending_allocs (cl_tracker s) ip = Some q"
    and "\<And>m ip. holder fc s' m ip \<Longrightarrow> protected fc s m ip \<Longrightarrow> protected fc s' m ip"
  shows "cluster_inv fc s'"
proof (rule cluster_invI)
  note D = cluster_invD [OF assms(1)]
  show "exp_inv (cl_tracker s')" by (rule assms(2))
  show "alloc_name a = n \<and> sound fc (cl_clock s') a" if "seen s' n a" for n a
    using D(2,3) [OF assms(4) [OF that]] sound_mono [OF _ assms(3)] by blast
  show "n = m" if "seen s' n a" "seen s' m b" "obj_uid (alloc_meta a) = obj_uid (alloc_meta b)" for n m a b
    by (rule D(4) [OF assms(4) [OF that(1)] assms(4) [OF that(2)] that(3)])
  show "t < p_time q" if "pending_allocs (cl_tracker s') ip = Some q" "seen s' m a" "m \<noteq> p_id q"
      "alloc_time_of fc a = Some (ip, t)" for ip q m a t
    by (rule D(5) [OF assms(6) [OF that(1)] assms(4) [OF that(2)] that(3,4)])
  show "protected fc s' n ip" if "holder fc s' n ip" for n ip
    by (rule assms(7) [OF that D(6) [OF assms(5) [OF that]]])
  show "n = m" if "holder fc s' n ip" "holder fc s' m ip" for n m ip
    by (rule D(7) [OF assms(5) [OF that(1)] assms(5) [OF that(2)]])
qed

lemma inv_clock: "cluster_inv fc s \<Longrightarrow> cl_clock s \<le> now \<Longrightarrow> cluster_inv fc (s\<lparr>cl_clock := now\<rparr>)"
  by (rule inv_shrink [where s = s]) (simp_all add: cluster_invD(1) seen_def holder_def protected_def)

lemma inv_observed:
  assumes "cluster_inv fc s"
  shows "cluster_inv fc (s\<lparr>cl_cache := (cl_cache s)(n := cl_api s n)\<rparr>)"
  by (rule inv_shrink [OF assms])
    (auto simp: cluster_invD(1) [OF assms] seen_def holder_def protected_def split: if_splits option.splits)

lemma inv_restarted:
  assumes "cluster_inv fc s"
  shows "cluster_inv fc (s\<lparr>cl_cache := cl_api s, cl_tracker := new_expectations timeout\<rparr>)"
  by (rule inv_shrink [OF assms])
    (auto simp: exp_inv_ops(1) seen_def holder_def protected_def,
     auto simp: new_expectations_def)

lemma inv_removed:
  assumes "cluster_inv fc s"
  shows "cluster_inv fc (s\<lparr>cl_api := (cl_api s)(n := None)\<rparr>)"
  by (rule inv_shrink [OF assms])
    (auto simp: cluster_invD(1) [OF assms] seen_def holder_def protected_def split: if_splits option.splits)

section \<open>Steps that store an object\<close>

text \<open>A stored object: new without address, with changed metadata, or with a new status. A claim of
  an address is new only for the owner of its reservation.\<close>

lemma inv_stored:
  assumes "cluster_inv fc s"
    and "alloc_name a = n" "sound fc (cl_clock s) a"
    and "\<And>m b. seen s m b \<Longrightarrow> obj_uid (alloc_meta b) = obj_uid (alloc_meta a) \<Longrightarrow> m = n"
    and "\<And>ip t. alloc_time_of fc a = Some (ip, t) \<Longrightarrow>
      (\<exists>q. pending_allocs (cl_tracker s) ip = Some q \<and> p_id q = n) \<or>
      (\<exists>b. seen s n b \<and> alloc_time_of fc b = Some (ip, t)) \<and> (active a \<longrightarrow> holder fc s n ip)"
  shows "cluster_inv fc (s\<lparr>cl_api := (cl_api s)(n \<mapsto> a)\<rparr>)"
proof -
  let ?s = "s\<lparr>cl_api := (cl_api s)(n \<mapsto> a)\<rparr>"
  let ?mine = "\<lambda>ip. \<exists>q. pending_allocs (cl_tracker s) ip = Some q \<and> p_id q = n"
  note D = cluster_invD [OF assms(1)]
  have seen: "seen s m b \<or> m = n \<and> b = a" if "seen ?s m b" for m b
    using that by (auto simp: seen_def split: if_splits)
  have h: "holder fc s m ip \<or> m = n \<and> ?mine ip" if "holder fc ?s m ip" for m ip
    using that assms(5) by (fastforce simp: holder_def split: if_splits)
  have prot: "protected fc ?s m ip \<longleftrightarrow> protected fc s m ip" for m ip
    by (simp add: protected_def)
  have other: "m = n" if "holder fc s m ip" "?mine ip" for m ip
    using D(6) [OF that(1)] that(2) by (auto simp: protected_def)
  show ?thesis
  proof (rule cluster_invI)
    fix m ip assume "holder fc ?s m ip"
    from h [OF this] show "protected fc ?s m ip"
    proof
      assume "m = n \<and> ?mine ip"
      then show ?thesis using D(1) by (auto simp: protected_def exp_inv_def)
    qed (simp add: prot D(6))
  next
    fix m l ip assume "holder fc ?s m ip" "holder fc ?s l ip"
    then show "m = l" using h D(7) other by metis
  next
    fix ip q m b t
    assume q: "pending_allocs (cl_tracker ?s) ip = Some q" "seen ?s m b" "m \<noteq> p_id q"
      "alloc_time_of fc b = Some (ip, t)"
    then have p: "pending_allocs (cl_tracker s) ip = Some q" by simp
    show "t < p_time q"
    proof (cases "seen s m b")
      case True
      then show ?thesis using D(5) p q(3,4) by blast
    next
      case False
      then have mb: "m = n" "b = a" using seen [OF q(2)] by auto
      then have "\<not> ?mine ip" using p q(3) by auto
      then obtain c where "seen s n c" "alloc_time_of fc c = Some (ip, t)"
        using assms(5) q(4) mb by blast
      then show ?thesis using D(5) [OF p] q(3) mb by blast
    qed
  next
    fix m l b c
    assume "seen ?s m b" "seen ?s l c" "obj_uid (alloc_meta b) = obj_uid (alloc_meta c)"
    then show "m = l" using seen D(4) assms(4) by metis
  next
    fix m b assume "seen ?s m b"
    then show "alloc_name b = m \<and> sound fc (cl_clock ?s) b" using seen D(2,3) assms(2,3) by fastforce
  qed (simp add: D(1))
qed

lemma inv_edited:
  assumes "cluster_inv fc s" "cl_api s n = Some a" "alloc_status b = alloc_status a" "alloc_name b = n"
    and "obj_uid (alloc_meta b) = obj_uid (alloc_meta a)" "active b \<longrightarrow> active a"
  shows "cluster_inv fc (s\<lparr>cl_api := (cl_api s)(n \<mapsto> b)\<rparr>)"
proof (rule inv_stored [OF assms(1,4)])
  note D = cluster_invD [OF assms(1)]
  have a: "seen s n a" using assms(2) by (simp add: seen_def)
  show "sound fc (cl_clock s) b" using D(3) [OF a] claim_status(2) [OF assms(3)] by simp
  show "m = n" if "seen s m c" "obj_uid (alloc_meta c) = obj_uid (alloc_meta b)" for m c
    using D(4) [OF that(1) a] that(2) assms(5) by simp
  fix ip t assume "alloc_time_of fc b = Some (ip, t)"
  then have "alloc_time_of fc a = Some (ip, t)" using claim_status(1) [OF assms(3)] by simp
  then show "(\<exists>q. pending_allocs (cl_tracker s) ip = Some q \<and> p_id q = n) \<or>
      (\<exists>c. seen s n c \<and> alloc_time_of fc c = Some (ip, t)) \<and> (active b \<longrightarrow> holder fc s n ip)"
    using a assms(2,6) by (auto simp: holder_def)
qed

section \<open>Steps of the tracker\<close>

lemma ran_seen: "set allocs = ran (cl_cache s) \<Longrightarrow> a \<in> set allocs \<Longrightarrow> \<exists>n. seen s n a"
  by (auto simp: ran_def seen_def)

lemma inv_confirmed:
  assumes "cluster_inv fc s" "set allocs = ran (cl_cache s)"
  shows "cluster_inv fc (s\<lparr>cl_tracker := confirm fc since allocs (cl_tracker s)\<rparr>)"
proof (rule inv_shrink [OF assms(1)])
  let ?e = "cl_tracker s" and ?s = "s\<lparr>cl_tracker := confirm fc since allocs (cl_tracker s)\<rparr>"
  fix m ip assume p: "protected fc s m ip"
  have "\<exists>c. cl_cache s m = Some c \<and> claims fc c ip"
    if none: "pending_allocs (confirm fc since allocs ?e) ip = None" and q: "pending_allocs ?e ip = Some q" for q
  proof -
    obtain t where "t \<in> cached_at fc allocs ip" "\<not> t < p_time q"
      using none q confirm_pending [of fc since allocs ?e ip q] by auto
    then obtain a l where a: "cl_cache s l = Some a" "alloc_time_of fc a = Some (ip, t)"
      using assms(2) by (auto simp: cached_at_def ran_def)
    then have "l = p_id q"
      using cluster_invD(5) [OF assms(1) q, of l a t] \<open>\<not> t < p_time q\<close> by (auto simp: seen_def)
    then show ?thesis using p q a by (auto simp: protected_def)
  qed
  moreover have "pending_releases (confirm fc since allocs ?e) ip = None"
    using p confirm_release [of fc since allocs ?e ip] by (cases "pending_releases (confirm fc since allocs ?e) ip")
      (auto simp: protected_def)
  moreover have "p_id q = m" if "pending_allocs (confirm fc since allocs ?e) ip = Some q" for q
    using that p confirm_pending [of fc since allocs ?e ip q] by (simp add: protected_def)
  ultimately show "protected fc ?s m ip"
    using p by (cases "pending_allocs ?e ip") (auto simp: protected_def)
qed (use cluster_invD(1) [OF assms(1)] in
  \<open>simp_all add: exp_inv_ops seen_def holder_def confirm_pending\<close>)

text \<open>An address that is available to \<open>n\<close> is held by nobody else.\<close>

lemma available_unheld:
  assumes inv: "cluster_inv fc s" and own: "cl_cache s n = Some a"
    and allocs: "set allocs = ran (cl_cache s)"
    and av: "available n (resolve fc (filter (\<lambda>b. obj_uid (alloc_meta b) \<noteq> obj_uid (alloc_meta a)) allocs) n
      (cl_tracker s)) (cl_tracker s) ip"
    and h: "holder fc s m ip"
  shows "m = n"
proof (cases "pending_allocs (cl_tracker s) ip")
  case (Some q)
  then show ?thesis using av cluster_invD(6) [OF inv h] by (auto simp: available_def protected_def)
next
  case None
  then obtain c t where c: "cl_cache s m = Some c" "alloc_time_of fc c = Some (ip, t)"
      "pending_releases (cl_tracker s) ip = None"
    using cluster_invD(6) [OF inv h] by (auto simp: protected_def)
  show ?thesis
  proof (rule ccontr)
    assume "m \<noteq> n"
    then have "obj_uid (alloc_meta c) \<noteq> obj_uid (alloc_meta a)"
      using cluster_invD(4) [OF inv, of m c n a] c(1) own by (auto simp: seen_def)
    then have "c \<in> set (filter (\<lambda>b. obj_uid (alloc_meta b) \<noteq> obj_uid (alloc_meta a)) allocs)"
      using c(1) allocs by (auto simp: ran_def)
    from cached_used [OF this c(2), of "cl_tracker s" n] c(3) av show False by (auto simp: available_def)
  qed
qed

lemma inv_reserved:
  assumes inv: "cluster_inv fc s"
    and only: "\<And>m. holder fc s m ip \<Longrightarrow> m = n"
    and time: "cl_clock s < env_stage_time env ip" "env_stage_time env ip \<le> now"
  shows "cluster_inv fc (s\<lparr>cl_tracker := reserved env n ip (cl_tracker s), cl_clock := now\<rparr>)"
proof (rule cluster_invI)
  let ?s = "s\<lparr>cl_tracker := reserved env n ip (cl_tracker s), cl_clock := now\<rparr>"
  note D = cluster_invD [OF inv]
  have seen: "seen ?s m a \<longleftrightarrow> seen s m a" for m a by (simp add: seen_def)
  have h: "holder fc ?s m x \<longleftrightarrow> holder fc s m x" for m x by (simp add: holder_def)
  show "exp_inv (cl_tracker ?s)" using reserved_inv [OF D(1)] by simp
  show "alloc_name a = m \<and> sound fc (cl_clock ?s) a" if "seen ?s m a" for m a
    using that D(2,3) [of m a] sound_mono [of fc "cl_clock s" a now] time by (simp add: seen)
  show "m = l" if "seen ?s m a" "seen ?s l b" "obj_uid (alloc_meta a) = obj_uid (alloc_meta b)" for m l a b
    using that D(4) by (simp add: seen)
  show "t < p_time q" if q: "pending_allocs (cl_tracker ?s) x = Some q" "seen ?s m a" "m \<noteq> p_id q"
      "alloc_time_of fc a = Some (x, t)" for x q m a t
  proof (cases "x = ip")
    case True
    then have "p_time q = env_stage_time env ip" using q(1) by (auto simp: reserved_def)
    then show ?thesis using claim_time [OF D(3) q(4)] q(2) time(1) by (fastforce simp: seen)
  next
    case False
    then have "pending_allocs (cl_tracker s) x = Some q" using q(1) by (simp add: reserved_def)
    from D(5) [OF this _ q(3,4)] q(2) show ?thesis by (simp only: seen)
  qed
  show "protected fc ?s m x" if "holder fc ?s m x" for m x
  proof -
    have hs: "holder fc s m x" using that by (simp only: h)
    show ?thesis using D(6) [OF hs] only [of m] hs by (auto simp: protected_def reserved_def)
  qed
  show "m = l" if "holder fc ?s m x" "holder fc ?s l x" for m l x
    using that D(7) by (simp add: h)
qed

lemma inv_withdrawn:
  assumes inv: "cluster_inv fc s" and fresh: "cl_cache s n = cl_api s n"
    and q: "pending_allocs (cl_tracker s) ip = Some q" "p_id q = n"
  shows "cluster_inv fc (s\<lparr>cl_tracker := (cl_tracker s)
    \<lparr>pending_allocs := (pending_allocs (cl_tracker s))(ip := None),
     pending_releases := (pending_releases (cl_tracker s))(ip := None)\<rparr>\<rparr>)"
proof (rule inv_shrink [OF inv])
  let ?s = "s\<lparr>cl_tracker := (cl_tracker s)
    \<lparr>pending_allocs := (pending_allocs (cl_tracker s))(ip := None),
     pending_releases := (pending_releases (cl_tracker s))(ip := None)\<rparr>\<rparr>"
  fix m x assume h: "holder fc ?s m x" and p: "protected fc s m x"
  show "protected fc ?s m x"
  proof (cases "x = ip")
    case True
    then have "m = n" using p q by (auto simp: protected_def)
    then show ?thesis using True h fresh by (auto simp: protected_def holder_def)
  next
    case False
    then show ?thesis using p by (simp add: protected_def)
  qed
qed (use withdrawn_inv [OF cluster_invD(1) [OF inv]] in
  \<open>simp_all add: seen_def holder_def split: if_splits\<close>)

text \<open>A release that nobody holds, and one that is taken back.\<close>

lemma inv_released:
  assumes inv: "cluster_inv fc s" and none: "\<And>m. \<not> holder fc s m ip"
  shows "cluster_inv fc (s\<lparr>cl_tracker := stage_release ip r (cl_tracker s)\<rparr>)"
proof (rule inv_shrink [OF inv])
  let ?s = "s\<lparr>cl_tracker := stage_release ip r (cl_tracker s)\<rparr>"
  fix m x assume h: "holder fc ?s m x" and p: "protected fc s m x"
  then have "x \<noteq> ip" using none by (auto simp: holder_def)
  then show "protected fc ?s m x" using p by (auto simp: protected_def stage_release_def split: option.splits)
next
  show "pending_allocs (cl_tracker s) x = Some q"
    if "pending_allocs (cl_tracker (s\<lparr>cl_tracker := stage_release ip r (cl_tracker s)\<rparr>)) x = Some q" for x q
    using that by (auto simp: stage_release_def split: if_splits option.splits)
qed (use cluster_invD(1) [OF inv] in \<open>simp_all add: exp_inv_ops seen_def holder_def\<close>)

lemma inv_unreleased:
  assumes inv: "cluster_inv fc s" and fresh: "cl_cache s n = cl_api s n" "holder fc s n ip"
  shows "cluster_inv fc (s\<lparr>cl_tracker := unstage_release ip r (stage_release ip r (cl_tracker s))\<rparr>)"
proof (rule inv_shrink [OF inv])
  let ?e = "unstage_release ip r (stage_release ip r (cl_tracker s))"
  let ?s = "s\<lparr>cl_tracker := ?e\<rparr>"
  have exp: "exp_inv (cl_tracker s)" by (rule cluster_invD(1) [OF inv])
  then have e: "?e = cl_tracker s \<or> (pending_allocs ?e = (pending_allocs (cl_tracker s))(ip := None) \<and>
      pending_releases ?e = (pending_releases (cl_tracker s))(ip := None))"
    by (auto simp: stage_release_def unstage_release_def exp_inv_def split: option.splits)
  fix m x assume h: "holder fc ?s m x" and p: "protected fc s m x"
  show "protected fc ?s m x"
  proof (cases "x = ip")
    case True
    then have "m = n" using cluster_invD(7) [OF inv, of m ip n] h fresh(2) by (simp add: holder_def)
    then have "\<exists>c. cl_cache s m = Some c \<and> claims fc c ip" using fresh by (auto simp: holder_def)
    then show ?thesis using e p True by (auto simp: protected_def)
  next
    case False
    then show ?thesis using e p by (auto simp: protected_def)
  qed
next
  show "pending_allocs (cl_tracker s) x = Some q"
    if "pending_allocs (cl_tracker (s\<lparr>cl_tracker := unstage_release ip r (stage_release ip r (cl_tracker s))\<rparr>)) x = Some q" for x q
    using that by (auto simp: stage_release_def unstage_release_def split: if_splits option.splits)
qed (use cluster_invD(1) [OF inv] in \<open>simp_all add: exp_inv_ops seen_def holder_def\<close>)

lemma inv_no_release:
  assumes inv: "cluster_inv fc s"
  shows "cluster_inv fc (s\<lparr>cl_tracker := unstage_release ip r (cl_tracker s)\<rparr>)"
proof (rule inv_shrink [OF inv])
  show "exp_inv (cl_tracker (s\<lparr>cl_tracker := unstage_release ip r (cl_tracker s)\<rparr>))"
    using exp_inv_ops cluster_invD(1) [OF inv] by simp
qed (auto simp: seen_def holder_def protected_def unstage_release_def split: if_splits option.splits)

section \<open>What a commit stores\<close>

fun quiet_call :: "alloc_call \<Rightarrow> bool" where
  "quiet_call (PatchFinalizers m) = False"
| "quiet_call (UpdateStatus a) = False"
| "quiet_call c = True"

lemma fold_quiet: "list_all quiet_call calls \<Longrightarrow> fold (store_call env n) calls api = api"
proof (induction calls arbitrary: api)
  case (Cons c calls)
  then have "store_call env n c api = api" by (cases c) simp_all
  then show ?case using Cons by simp
qed simp

definition allocated_cond :: "find_condition \<Rightarrow> ip_allocation \<Rightarrow> condition option" where
  "allocated_cond fc a = fc (st_conditions (alloc_status a)) type_allocated"

definition written :: "find_condition \<Rightarrow> time \<Rightarrow> alloc_decision \<Rightarrow> ip_allocation \<Rightarrow> ip_allocation \<Rightarrow> bool" where
  "written fc now d alloc b \<longleftrightarrow>
     (\<exists>c. allocated_cond fc b = Some c \<and>
        (\<forall>pend p. d = Chosen pend p \<longrightarrow> cond_status c = cond_true) \<and>
        (cond_time c \<le> now \<or> (\<exists>old. allocated_cond fc alloc = Some old \<and> cond_time c = cond_time old))) \<and>
     (case d of
        Chosen pend p \<Rightarrow> st_address (alloc_status b) = addr_string (p_address pend) \<and>
          st_phase (alloc_status b) \<in> {phase_allocated, phase_programmed}
      | Refused _ _ \<Rightarrow> st_address (alloc_status b) =
          (if st_phase (alloc_status alloc) = phase_failed then st_address (alloc_status alloc) else ''''))"

lemma types_distinct:
  "type_programmed \<noteq> type_allocated" "type_ready \<noteq> type_allocated" "cond_type (mk_condition ty st r m g) = ty"
  "cond_status (mk_condition ty st r m g) = st"
  by (simp_all add: type_programmed_def type_allocated_def type_ready_def mk_condition_def)

lemma put_other:
  "kube_ok fc now K \<Longrightarrow> cond_type c \<noteq> type_allocated \<Longrightarrow>
    allocated_cond fc (fst (put_condition K c s)) = allocated_cond fc (fst s)"
  by (auto simp: put_condition_def kube_ok_def allocated_cond_def split: prod.splits) (metis fst_conv)

lemma put_allocated:
  assumes "kube_ok fc now K" "cond_type c = type_allocated"
  shows "\<exists>d. allocated_cond fc (fst (put_condition K c s)) = Some d \<and> cond_status d = cond_status c \<and>
    (cond_time d \<le> now \<or> (\<exists>old. allocated_cond fc (fst s) = Some old \<and> cond_time d = cond_time old))"
proof -
  let ?cs = "st_conditions (alloc_status (fst s))"
  have "\<exists>d. fc (fst (set_cond K ?cs c)) type_allocated = Some d \<and> cond_status d = cond_status c \<and>
      (cond_time d \<le> now \<or> (\<exists>old. fc ?cs type_allocated = Some old \<and> cond_time d = cond_time old))"
    using assms unfolding kube_ok_def by metis
  then show ?thesis by (cases "set_cond K ?cs c") (simp add: put_condition_def allocated_cond_def)
qed

lemma apply_decision_facts:
  assumes "apply_decision render d alloc = (a1, c, changed, calls)"
  shows "allocated_cond fc a1 = allocated_cond fc alloc" "cond_type c = type_allocated" "list_all quiet_call calls"
    and "d = Chosen pend p \<Longrightarrow> cond_status c = cond_true \<and>
      st_address (alloc_status a1) = addr_string (p_address pend) \<and> st_phase (alloc_status a1) = phase_allocated"
    and "d = Refused r m \<Longrightarrow> st_address (alloc_status a1) =
      (if st_phase (alloc_status alloc) = phase_failed then st_address (alloc_status alloc) else '''')"
  using assms
  by (cases d; auto simp: apply_decision_def Let_def allocated_cond_def types_distinct split: if_splits)+

lemma program_facts:
  assumes "program render env d alloc = Some pr"
  shows "allocated_cond fc (pr_alloc pr) = allocated_cond fc alloc" "cond_type (pr_programmed pr) = type_programmed"
    and "list_all quiet_call (pr_calls pr)"
    and "d = Chosen pend p \<Longrightarrow> st_phase (alloc_status alloc) = phase_allocated \<Longrightarrow>
      st_phase (alloc_status (pr_alloc pr)) \<in> {phase_allocated, phase_programmed}"
  using assms
  by (auto simp: program_def program_advertised_def program_unadvertised_def Let_def allocated_cond_def
      types_distinct split: alloc_decision.splits if_splits sum.splits option.splits)

lemma commit_stores:
  assumes K: "kube_ok fc now K" and run: "commit K render env d alloc e = (out, e', calls)"
  obtains (silent) "list_all quiet_call calls" "e' = e"
    | (update) pre b where "calls = pre @ [UpdateStatus b]" "list_all quiet_call pre" "written fc now d alloc b"
      "e' = (if env_update env b = None then e
             else case staged_of d of Some pend \<Rightarrow> unstage_allocation pend e | None \<Rightarrow> e)"
proof -
  obtain a1 c changed calls1 where ap: "apply_decision render d alloc = (a1, c, changed, calls1)"
    by (metis prod_cases4)
  note a = apply_decision_facts [OF ap]
  let ?s1 = "put_condition K c (a1, changed)"
  show ?thesis
  proof (cases "program render env d (fst ?s1)")
    case None
    then show ?thesis
      using silent run a(3) by (auto simp: commit_def ap Let_def split: alloc_decision.splits)
  next
    case (Some pr)
    note p = program_facts [OF Some]
    define s2 where "s2 = put_condition K (pr_programmed pr) (pr_alloc pr, snd ?s1 \<or> pr_changed pr)"
    define s3 where "s3 = put_condition K (mk_condition type_ready (pr_ready_status pr) (pr_ready_reason pr)
      (pr_ready_message pr) (obj_generation (alloc_meta alloc))) s2"
    have cond: "allocated_cond fc (fst s3) = allocated_cond fc (fst ?s1)"
      using put_other [OF K] p(1,2) by (simp add: s3_def s2_def types_distinct)
    have adr: "st_address (alloc_status (fst s3)) = st_address (alloc_status a1)"
      using program_calls(1) [OF Some] by (simp add: s3_def s2_def)
    have ph: "st_phase (alloc_status (fst s3)) = st_phase (alloc_status (pr_alloc pr))"
      by (simp add: s3_def s2_def)
    have w: "written fc now d alloc (fst s3)"
      using put_allocated [OF K a(2), of "(a1, changed)"] a(1,4,5) p(4) cond adr ph
      by (cases d) (auto simp: written_def)
    have "(if \<not> snd s3 then (final_outcome render d pr, e, calls1 @ pr_calls pr)
        else (case env_update env (fst s3) of
            Some err \<Rightarrow> (Failure (ClientError err),
              (case staged_of d of Some pend \<Rightarrow> unstage_allocation pend e | None \<Rightarrow> e),
              (calls1 @ pr_calls pr) @ [UpdateStatus (fst s3)])
          | None \<Rightarrow> (final_outcome render d pr, e, (calls1 @ pr_calls pr) @ [UpdateStatus (fst s3)]))) = (out, e', calls)"
      unfolding s3_def s2_def using run by (simp only: commit_def ap Let_def prod.case Some option.case)
    then show ?thesis
      using silent update [of "calls1 @ pr_calls pr" "fst s3"] w a(3) p(3)
      by (auto split: if_splits option.splits)
  qed
qed

section \<open>One reconcile\<close>

lemma written_time:
  assumes "written fc now d alloc b" "sound fc now alloc" "fc (st_conditions (alloc_status b)) type_allocated = Some c"
  shows "cond_time c \<le> now"
  using assms by (auto simp: written_def sound_def allocated_cond_def)

lemma inv_status:
  assumes inv: "cluster_inv fc s" and a: "cl_api s n = Some alloc" and w: "written fc (cl_clock s) d alloc b"
    and d: "\<And>pend p. d = Chosen pend p \<Longrightarrow> is_valid (p_address pend) \<and>
      (\<exists>q. pending_allocs (cl_tracker s) (p_address pend) = Some q \<and> p_id q = n)"
  shows "cluster_inv fc (s\<lparr>cl_api := (cl_api s)(n \<mapsto> alloc\<lparr>alloc_status := alloc_status b\<rparr>)\<rparr>)"
proof (rule inv_stored [OF inv])
  note D = cluster_invD [OF inv]
  have seen: "seen s n alloc" using a by (simp add: seen_def)
  let ?b = "alloc\<lparr>alloc_status := alloc_status b\<rparr>"
  have sb: "alloc_time_of fc ?b = alloc_time_of fc b" by (rule claim_status) simp
  show "alloc_name ?b = n" using D(2) [OF seen] by simp
  show "m = n" if "seen s m c" "obj_uid (alloc_meta c) = obj_uid (alloc_meta ?b)" for m c
    using D(4) [OF that(1) seen] that(2) by simp
  have time: "cond_time c \<le> cl_clock s"
    if "fc (st_conditions (alloc_status b)) type_allocated = Some c" for c
    by (rule written_time [OF w D(3) [OF seen] that])
  have claim: "(\<exists>pend p t. d = Chosen pend p \<and>
        st_phase (alloc_status b) \<in> {phase_allocated, phase_programmed} \<and>
        alloc_time_of fc b = Some (p_address pend, t)) \<or> st_address (alloc_status b) = ''''"
  proof (cases d)
    case (Refused r m)
    have "phase_failed \<noteq> phase_allocated" "phase_failed \<noteq> phase_programmed"
      by (simp_all add: phase_failed_def phase_allocated_def phase_programmed_def)
    then have "st_phase (alloc_status alloc) = phase_failed \<longrightarrow> st_address (alloc_status alloc) = ''''"
      using D(3) [OF seen] by (auto simp: sound_def)
    then show ?thesis using w Refused by (simp add: written_def split: if_splits)
  next
    case (Chosen pend p)
    then obtain c where c: "fc (st_conditions (alloc_status b)) type_allocated = Some c" "cond_status c = cond_true"
        "st_address (alloc_status b) = addr_string (p_address pend)"
        "st_phase (alloc_status b) \<in> {phase_allocated, phase_programmed}"
      using w by (auto simp: written_def allocated_cond_def)
    have "parse_addr (addr_string (p_address pend)) = Some (p_address pend)"
      using parse_addr_string d [OF Chosen] by blast
    then have "alloc_time_of fc b = Some (p_address pend, cond_time c)"
      using c by (auto simp: alloc_time_of_def)
    then show ?thesis using Chosen c(4) by simp
  qed
  then show "sound fc (cl_clock s) ?b" using time sb by (auto simp: sound_def)
  fix ip t assume "alloc_time_of fc ?b = Some (ip, t)"
  then obtain pend p where "d = Chosen pend p" "p_address pend = ip"
    using claim sb no_claim [of b fc] by auto
  then show "(\<exists>q. pending_allocs (cl_tracker s) ip = Some q \<and> p_id q = n) \<or>
      (\<exists>b. seen s n b \<and> alloc_time_of fc b = Some (ip, t)) \<and> (active ?b \<longrightarrow> holder fc s n ip)"
    using d by blast
qed

lemma inv_commit:
  assumes inv: "cluster_inv fc s" and a: "cl_api s n = Some alloc" and fresh: "cl_cache s n = cl_api s n"
    and K: "kube_ok fc (cl_clock s) K" and run: "commit K render env d alloc (cl_tracker s) = (out, e', calls)"
    and d: "(\<exists>r m. d = Refused r m) \<or> (\<exists>ip p e. d = Chosen (new_pending env n ip) p \<and> is_valid ip \<and>
      cl_tracker s = reserved env n ip e)"
  shows "cluster_inv fc (s\<lparr>cl_api := fold (store_call env n) calls (cl_api s), cl_tracker := e'\<rparr>)"
proof (rule commit_stores [OF K run])
  assume "list_all quiet_call calls" "e' = cl_tracker s"
  then show ?thesis using inv by (simp add: fold_quiet)
next
  fix pre b
  assume calls: "calls = pre @ [UpdateStatus b]" "list_all quiet_call pre"
    and w: "written fc (cl_clock s) d alloc b"
    and e: "e' = (if env_update env b = None then cl_tracker s
      else case staged_of d of Some pend \<Rightarrow> unstage_allocation pend (cl_tracker s) | None \<Rightarrow> cl_tracker s)"
  have mine: "is_valid (p_address pend) \<and>
      (\<exists>q. pending_allocs (cl_tracker s) (p_address pend) = Some q \<and> p_id q = n)"
    if "d = Chosen pend p" for pend p
    using d that by (auto simp: reserved_def)
  show ?thesis
  proof (cases "env_update env b")
    case None
    then have "fold (store_call env n) calls (cl_api s) =
        (cl_api s)(n \<mapsto> alloc\<lparr>alloc_status := alloc_status b\<rparr>)"
      using calls a by (simp add: fold_quiet)
    then show ?thesis using inv_status [OF inv a w mine] e None by simp
  next
    case (Some err)
    then have api: "fold (store_call env n) calls (cl_api s) = cl_api s"
      using calls by (simp add: fold_quiet)
    show ?thesis using d
    proof (elim disjE exE conjE)
      fix r m assume "d = Refused r m"
      then show ?thesis using inv api e Some by (simp add: staged_of_def)
    next
      fix ip p e0 assume c: "d = Chosen (new_pending env n ip) p" "cl_tracker s = reserved env n ip e0"
      let ?e = "(cl_tracker s)\<lparr>pending_allocs := (pending_allocs (cl_tracker s))(ip := None),
        pending_releases := (pending_releases (cl_tracker s))(ip := None)\<rparr>"
      have "e' = ?e"
        using e Some c unstage_new_pending [of env n ip e0] by (simp add: staged_of_def reserved_def)
      moreover have "pending_allocs (cl_tracker s) ip = Some (new_pending env n ip)"
        using c(2) by (simp add: reserved_def)
      ultimately show ?thesis
        using inv_withdrawn [OF inv fresh, of ip "new_pending env n ip"] api by simp
    qed
  qed
qed

lemma inv_live:
  assumes inv: "cluster_inv fc s" and K: "kube_ok fc now K" and env: "env_ok env n now s"
    and own: "cl_cache s n = Some alloc" "cl_api s n = Some alloc"
    and run: "reconcile_live K render sha env alloc (cl_tracker s) = (out, e', calls)"
  shows "cluster_inv fc (s\<lparr>cl_clock := now, cl_api := fold (store_call env n) calls (cl_api s), cl_tracker := e'\<rparr>)"
proof -
  have name: "alloc_name alloc = n" using cluster_invD(2) [OF inv] own by (simp add: seen_def)
  have fc: "find_cond K = fc" using K by (simp add: kube_ok_def)
  have now: "cl_clock s \<le> now" using env by (simp add: env_ok_def)
  have z: "\<forall>pools. env_pools env = Inr pools \<longrightarrow> (\<forall>p \<in> set pools. zone_free_pool p)"
    using env by (simp add: env_ok_def)
  have ran: "set allocs = ran (cl_cache s)" if "env_allocs env = Inr allocs" for allocs
    using env that by (simp add: env_ok_def)
  let ?c = "\<lambda>allocs. confirmed_tracker K env allocs (cl_tracker s)"
  have conf: "cluster_inv fc (s\<lparr>cl_tracker := ?c allocs\<rparr>)" if "env_allocs env = Inr allocs" for allocs
    using inv_confirmed [OF inv ran [OF that]] by (simp add: confirmed_tracker_def fc)
  show ?thesis
  proof (rule reconcile_live_cases [OF z, of K render sha alloc "cl_tracker s"])
    fix err assume "reconcile_live K render sha env alloc (cl_tracker s) = (Failure (ClientError err), cl_tracker s, [])"
    then have "e' = cl_tracker s" "calls = []" using run by simp_all
    then show ?thesis using inv_clock [OF inv now] by simp
  next
    fix pools allocs ip p
    assume allocs: "env_allocs env = Inr allocs" and ip: "is_valid ip"
      and av: "available (alloc_name alloc) (used_by_others K env alloc allocs (cl_tracker s)) (?c allocs) ip"
      and r: "reconcile_live K render sha env alloc (cl_tracker s) =
        commit K render env (Chosen (new_pending env (alloc_name alloc) ip) p) alloc
          (reserved env (alloc_name alloc) ip (?c allocs))"
    let ?s = "s\<lparr>cl_tracker := reserved env n ip (?c allocs), cl_clock := now\<rparr>"
    have only: "m = n" if "holder fc (s\<lparr>cl_tracker := ?c allocs\<rparr>) m ip" for m
      using available_unheld [OF conf [OF allocs], of n alloc allocs ip m] own ran [OF allocs] av that name
      by (simp add: used_by_others_def fc)
    have "cluster_inv fc ?s"
      using inv_reserved [OF conf [OF allocs] only, where env = env and now = now] env by (simp add: env_ok_def)
    from inv_commit [OF this, of n alloc K render env "Chosen (new_pending env n ip) p" out e' calls]
      own K run r name ip
    show ?thesis by auto
  next
    fix allocs reason msg
    assume allocs: "env_allocs env = Inr allocs" and r: "reconcile_live K render sha env alloc (cl_tracker s) =
        commit K render env (Refused reason msg) alloc (?c allocs)"
    have "cluster_inv fc (s\<lparr>cl_tracker := ?c allocs, cl_clock := now\<rparr>)"
      using inv_clock [OF conf [OF allocs], of now] now by simp
    from inv_commit [OF this, of n alloc K render env "Refused reason msg"] own K run r
    show ?thesis by simp
  qed
qed

lemma status_holder:
  assumes "sound fc now a" "st_phase (alloc_status a) = phase_allocated \<or> st_phase (alloc_status a) = phase_programmed"
    and "parse_addr (st_address (alloc_status a)) = Some ip"
  shows "claims fc a ip"
proof -
  obtain x t where x: "alloc_time_of fc a = Some (x, t)" using assms by (auto simp: sound_def)
  then have "x = ip" using claim_parse assms(3) by fastforce
  then show ?thesis using x by blast
qed

lemma patched_edit:
  assumes "cluster_inv fc s" "cl_api s n = Some a" "active (a\<lparr>alloc_meta := (alloc_meta a)\<lparr>obj_finalizers := fs\<rparr>\<rparr>) \<longrightarrow> active a"
  shows "cluster_inv fc (s\<lparr>cl_api := (cl_api s)(n \<mapsto> a\<lparr>alloc_meta := (alloc_meta a)\<lparr>obj_finalizers := fs\<rparr>\<rparr>)\<rparr>)"
  using cluster_invD(2) [OF assms(1), of n a] assms(2) by (intro inv_edited [OF assms(1,2)]) (simp_all add: seen_def assms(3))

lemma inv_release_alloc:
  assumes inv: "cluster_inv fc s" and K: "kube_ok fc now K"
    and own: "cl_cache s n = Some alloc" "cl_api s n = Some alloc"
    and del: "obj_deleting (alloc_meta alloc)"
    and ip: "ip = AddrNone \<or> holder fc s n ip"
    and run: "release_alloc K env alloc ip (cl_tracker s) = (out, e', calls)"
  shows "cluster_inv fc (s\<lparr>cl_api := fold (store_call env n) calls (cl_api s), cl_tracker := e'\<rparr>)"
proof -
  let ?m = "remove_finalizer K (alloc_meta alloc) finalizer_name" and ?r = "env_release_time env"
  let ?a = "alloc\<lparr>alloc_meta := (alloc_meta alloc)\<lparr>obj_finalizers := obj_finalizers ?m\<rparr>\<rparr>"
  let ?e = "if is_valid ip then stage_release ip ?r (cl_tracker s) else cl_tracker s"
  have gone: "\<not> active ?a" using K del by (simp add: active_def kube_ok_def)
  have calls: "calls = [PatchFinalizers ?m]"
    using run by (auto simp: release_alloc_def Let_def split: option.splits)
  show ?thesis
  proof (cases "env_patch env ?m")
    case None
    let ?s = "s\<lparr>cl_api := (cl_api s)(n \<mapsto> ?a)\<rparr>"
    have inv': "cluster_inv fc ?s" using patched_edit [OF inv own(2)] gone by blast
    have e: "e' = ?e" and api: "fold (store_call env n) calls (cl_api s) = (cl_api s)(n \<mapsto> ?a)"
      using run None own calls by (auto simp: release_alloc_def Let_def)
    have "\<not> holder fc ?s m ip" if "is_valid ip" for m
    proof
      assume h: "holder fc ?s m ip"
      then have "m \<noteq> n" using gone by (auto simp: holder_def)
      then have "holder fc s m ip" using h by (simp add: holder_def)
      moreover have "holder fc s n ip" using ip that by (auto simp: is_valid_def)
      ultimately show False using cluster_invD(7) [OF inv] \<open>m \<noteq> n\<close> by blast
    qed
    then show ?thesis using inv_released [OF inv', of ip ?r] inv' e api by (cases "is_valid ip") simp_all
  next
    case (Some err)
    then have e: "e' = unstage_release ip ?r ?e" and api: "fold (store_call env n) calls (cl_api s) = cl_api s"
      using run calls by (auto simp: release_alloc_def Let_def)
    have "cluster_inv fc (s\<lparr>cl_tracker := e'\<rparr>)"
    proof (cases "is_valid ip")
      case True
      then have "holder fc s n ip" using ip by (auto simp: is_valid_def)
      then show ?thesis using inv_unreleased [OF inv, of n ip ?r] own e True by simp
    next
      case False
      then show ?thesis using inv_no_release [OF inv, of ip ?r] e by simp
    qed
    then show ?thesis using api by simp
  qed
qed

lemma inv_deleted:
  assumes inv: "cluster_inv fc s" and K: "kube_ok fc now K"
    and own: "cl_cache s n = Some alloc" "cl_api s n = Some alloc" and del: "obj_deleting (alloc_meta alloc)"
    and run: "reconcile_deleted K env alloc (cl_tracker s) = (out, e', calls)"
  shows "cluster_inv fc (s\<lparr>cl_api := fold (store_call env n) calls (cl_api s), cl_tracker := e'\<rparr>)"
proof (cases "contains_finalizer K (alloc_meta alloc) finalizer_name")
  case False
  then show ?thesis using run inv by (auto simp: reconcile_deleted_def)
next
  case has: True
  then have act: "active alloc" using K by (simp add: active_def kube_ok_def)
  have sound: "sound fc (cl_clock s) alloc" using cluster_invD(3) [OF inv, of n alloc] own by (simp add: seen_def)
  show ?thesis
  proof (cases "st_phase (alloc_status alloc) = phase_allocated \<or> st_phase (alloc_status alloc) = phase_programmed")
    case False
    then have "release_alloc K env alloc AddrNone (cl_tracker s) = (out, e', calls)"
      using run has by (simp add: reconcile_deleted_def)
    then show ?thesis using inv_release_alloc [OF inv K own del] by blast
  next
    case held: True
    show ?thesis
    proof (cases "parse_addr (st_address (alloc_status alloc))")
      case None
      then have "e' = cl_tracker s" "list_all quiet_call calls"
        using run has held by (auto simp: reconcile_deleted_def)
      then show ?thesis using inv by (simp add: fold_quiet)
    next
      case (Some ip)
      have h: "holder fc s n ip" using status_holder [OF sound held Some] own act by (simp add: holder_def)
      show ?thesis
      proof (cases "env_delete_adv env ip")
        case err: (Some err)
        then have "e' = cl_tracker s" "list_all quiet_call calls"
          using run has held Some by (auto simp: reconcile_deleted_def)
        then show ?thesis using inv by (simp add: fold_quiet)
      next
        case None
        obtain out' calls' where rel: "release_alloc K env alloc ip (cl_tracker s) = (out', e', calls')"
            "calls = DeleteAdvertisement ip # calls'"
          using run has held Some None by (auto simp: reconcile_deleted_def split: prod.splits)
        then show ?thesis using inv_release_alloc [OF inv K own del _ rel(1)] h by simp
      qed
    qed
  qed
qed

lemma inv_reconciled:
  assumes inv: "cluster_inv fc s" and K: "kube_ok fc now K" and env: "env_ok env n now s"
    and fresh: "cl_cache s n = cl_api s n"
  shows "cluster_inv fc (after_reconcile K render sha env n now s)"
proof -
  obtain out e' calls where run: "reconcile K render sha env (cl_tracker s) = (out, e', calls)"
    by (metis prod_cases3)
  have now: "cl_clock s \<le> now" using env by (simp add: env_ok_def)
  let ?s = "s\<lparr>cl_clock := now\<rparr>"
  have clock: "cluster_inv fc ?s" by (rule inv_clock [OF inv now])
  have after: "after_reconcile K render sha env n now s =
      ?s\<lparr>cl_api := fold (store_call env n) calls (cl_api s), cl_tracker := e'\<rparr>"
    using run by (simp add: after_reconcile_def)
  have same: ?thesis if "e' = cl_tracker s" "calls = []"
    using that clock after by simp
  show ?thesis
  proof (cases "env_get env")
    case NotFound
    then show ?thesis using run same by (simp add: reconcile_def)
  next
    case (GetError err)
    then show ?thesis using run same by (simp add: reconcile_def)
  next
    case (Found a)
    then have own: "cl_cache s n = Some a" "cl_api s n = Some a" using env fresh by (simp_all add: env_ok_def)
    show ?thesis
    proof (cases "obj_deleting (alloc_meta a)")
      case True
      then have "reconcile_deleted K env a (cl_tracker ?s) = (out, e', calls)"
        using run Found by (simp add: reconcile_def)
      from inv_deleted [OF clock K _ _ True this] own show ?thesis unfolding after by simp
    next
      case live: False
      show ?thesis
      proof (cases "contains_finalizer K (alloc_meta a) finalizer_name")
        case True
        then have "reconcile_live K render sha env a (cl_tracker s) = (out, e', calls)"
          using run Found live by (simp add: reconcile_def)
        from inv_live [OF inv K env own this] show ?thesis unfolding after .
      next
        case False
        let ?m = "add_finalizer K (alloc_meta a) finalizer_name"
        have e: "e' = cl_tracker s" "calls = [PatchFinalizers ?m]"
          using run Found live False by (simp_all add: reconcile_def Let_def)
        have "active a" using live by (simp add: active_def)
        then have "cluster_inv fc (?s\<lparr>cl_api := (cl_api ?s)
            (n \<mapsto> a\<lparr>alloc_meta := (alloc_meta a)\<lparr>obj_finalizers := obj_finalizers ?m\<rparr>\<rparr>)\<rparr>)"
          using own by (intro patched_edit [OF clock]) simp_all
        then show ?thesis unfolding after using e own clock by (cases "env_patch env ?m") simp_all
      qed
    qed
  qed
qed

section \<open>Reachable clusters\<close>

lemma inv_start: "cluster_inv fc (new_cluster timeout)"
  by (rule cluster_invI) (simp_all add: new_cluster_def seen_def holder_def exp_inv_ops(1))

lemma inv_step:
  assumes "cluster_step fc True s s'" "cluster_inv fc s"
  shows "cluster_inv fc s'"
  using assms
proof (cases rule: cluster_step.cases)
  case (created n a)
  have "sound fc (cl_clock s) a" using created(4,5) by (simp add: sound_def)
  then show ?thesis unfolding created(1)
    using created(3-6) no_claim [of a fc] by (intro inv_stored [OF assms(2)]) (auto simp: seen_def)
next
  case (edited n a b)
  then show ?thesis using inv_edited [OF assms(2)] by simp
next
  case (removed n a)
  then show ?thesis using inv_removed [OF assms(2)] by simp
next
  case (observed n)
  then show ?thesis using inv_observed [OF assms(2)] by simp
next
  case (restarted timeout)
  then show ?thesis using inv_restarted [OF assms(2)] by simp
next
  case (reconciled now K env n render sha)
  then show ?thesis using inv_reconciled [OF assms(2)] by simp
qed

lemma reachable_inv: "reachable fc True s \<Longrightarrow> cluster_inv fc s"
  by (induction rule: reachable.induct) (rule inv_start, rule inv_step)

text \<open>C1: When every reconcile sees its own object as it is stored, no address is given away
  twice: in every reachable cluster two allocations that are not finally released never have
  the same address in their status, whatever the users, the informer, the pools, the router,
  the failures of calls, the deletions and the restarts of the controller, and however late
  the reconciler sees the other allocations.\<close>

theorem no_double_allocation:
  assumes "reachable fc True s" "cl_api s n = Some a" "cl_api s m = Some b" "active a" "active b"
    and "st_address (alloc_status a) \<noteq> ''''" "st_address (alloc_status a) = st_address (alloc_status b)"
  shows "n = m"
proof -
  have inv: "cluster_inv fc s" using reachable_inv [OF assms(1)] .
  have "sound fc (cl_clock s) a" "sound fc (cl_clock s) b"
    using cluster_invD(3) [OF inv, of n a] cluster_invD(3) [OF inv, of m b] assms(2,3)
    by (simp_all add: seen_def)
  then obtain x y where "claims fc a x" "claims fc b y" using assms(6,7) by (auto simp: sound_def)
  moreover have "x = y" using calculation claim_parse [of fc a x] claim_parse [of fc b y] assms(7) by auto
  ultimately show ?thesis using cluster_invD(7) [OF inv, of n x m] assms(2-5) by (auto simp: holder_def)
qed

text \<open>Two new objects reconciled one after the other; the second reconcile does not see what the
  first has written.\<close>

definition two_run :: "ip_allocation \<Rightarrow> ip_allocation \<Rightarrow> cluster" where
  "two_run x y =
     (let r = (\<lambda>_. ''''); sha = (\<lambda>_. [0]);
          s1 = after_reconcile (stamped_kube 1) r sha (timed_env one_pool [x, y] x 1 None) (alloc_name x) 1
            (start_with x y)
      in after_reconcile (stamped_kube 2) r sha (timed_env one_pool [x, y] y 2 None) (alloc_name y) 2 s1)"

lemma two_run_reachable:
  assumes "two_new x y"
  shows "reachable first_of_type True (two_run x y)"
proof -
  let ?r = "\<lambda>_ :: alloc_message. ''''" and ?sha = "\<lambda>_ :: string. [0 :: byte]"
  let ?s1 = "after_reconcile (stamped_kube 1) ?r ?sha (timed_env one_pool [x, y] x 1 None) (alloc_name x) 1
    (start_with x y)"
  have f: "cl_cache (start_with x y) = stored [x, y]" "cl_api (start_with x y) = stored [x, y]"
      "cl_clock (start_with x y) = 0" "alloc_name y \<noteq> alloc_name x"
    using assms by (auto simp: start_with_def two_new_def)
  note env = reconciled [OF stamped_kube_ok timed_env_ok [OF assms]]
  have "cluster_step first_of_type True (start_with x y) ?s1"
    by (rule env) (simp_all add: f)
  moreover have "cluster_step first_of_type True ?s1 (two_run x y)"
    unfolding two_run_def Let_def
    by (rule env) (use f in \<open>simp_all add: after_reconcile_other\<close>)
  ultimately show ?thesis using start_with_reachable [OF assms] by (blast intro: reachable.step)
qed

definition fresh_run :: cluster where "fresh_run = two_run user_x user_y"

lemma fresh_run_reachable: "reachable first_of_type True fresh_run"
  unfolding fresh_run_def by (rule two_run_reachable [OF two_users])

lemma fresh_run_states:
  "address_in fresh_run ''x'' = Some ''10.0.0.1'' \<and>
   list_all (\<lambda>n. case cl_api fresh_run n of Some a \<Rightarrow> active a | None \<Rightarrow> False) [''x'', ''y'']"
  by code_simp

theorem no_double_allocation_witness:
  "\<exists>s a b. reachable first_of_type True s \<and> cl_api s ''x'' = Some a \<and> cl_api s ''y'' = Some b \<and>
     st_address (alloc_status a) = ''10.0.0.1'' \<and> st_address (alloc_status b) \<noteq> ''10.0.0.1''"
proof -
  obtain a b where ab: "cl_api fresh_run ''x'' = Some a" "cl_api fresh_run ''y'' = Some b" "active a" "active b"
    using fresh_run_states by (auto split: option.splits)
  moreover have x: "st_address (alloc_status a) = ''10.0.0.1''"
    using fresh_run_states ab(1) by (simp add: address_in_def)
  ultimately have "st_address (alloc_status b) \<noteq> ''10.0.0.1''"
    using no_double_allocation [OF fresh_run_reachable ab] by auto
  then show ?thesis using ab x fresh_run_reachable by blast
qed

end
