(* ===== verification/Allocation_Leak.thy ===== *)
theory Allocation_Leak
  imports Allocation_Protocol
begin

text \<open>
  A reservation that nobody gives back. Every reconcile of an allocation reserves its address
  with the current time, while the transition time of its Allocated condition stays the one of
  its first allocation, so from the second reconcile on \<open>Confirm\<close> never drops the
  reservation; a refusal does not withdraw it, and the deletion of a failed allocation releases
  no address. The first part shows that such a reservation, once its allocation is gone, stays
  until the controller restarts or the name is used again; the second part is a run that ends there.
\<close>

section \<open>It stays\<close>

text \<open>The tracker holds the address for an allocation that is neither stored nor cached, and no
  allocation has it.\<close>

definition leaked :: "string \<Rightarrow> addr \<Rightarrow> pending \<Rightarrow> cluster \<Rightarrow> bool" where
  "leaked x ip q s \<longleftrightarrow> cl_api s x = None \<and> cl_cache s x = None \<and>
     pending_allocs (cl_tracker s) ip = Some q \<and> p_id q = x \<and>
     (\<forall>m a. seen s m a \<longrightarrow> parse_addr (st_address (alloc_status a)) \<noteq> Some ip)"

definition restart :: "cluster \<Rightarrow> cluster \<Rightarrow> bool" where
  "restart s s' \<longleftrightarrow> (\<exists>timeout. s' = s\<lparr>cl_cache := cl_api s, cl_tracker := new_expectations timeout\<rparr>)"

lemma restart_clock: "restart s s' \<Longrightarrow> cl_clock s' = cl_clock s"
  by (auto simp: restart_def)

text \<open>Steps without a restart and without a new allocation of the name, each reconcile seeing its own
  object as it is stored.\<close>

inductive runs :: "find_condition \<Rightarrow> string \<Rightarrow> cluster \<Rightarrow> cluster \<Rightarrow> bool" for fc x where
  here: "runs fc x s s"
| more: "runs fc x s t \<Longrightarrow> cluster_step fc True t u \<Longrightarrow> \<not> restart t u \<Longrightarrow> cl_api u x = None \<Longrightarrow>
    runs fc x s u"

lemma runs_reachable: "runs fc x s s' \<Longrightarrow> reachable fc True s \<Longrightarrow> reachable fc True s'"
  by (induction rule: runs.induct) (auto intro: reachable.step)

lemma store_call_status:
  assumes "store_call env n c api m = Some a"
  obtains b where "api m = Some b" "alloc_status a = alloc_status b"
    | b where "c = UpdateStatus b" "alloc_status a = alloc_status b"
  using assms by (cases c) (auto split: if_splits)

lemma store_calls_keep:
  assumes "\<And>b. UpdateStatus b \<in> set calls \<Longrightarrow> P (alloc_status b)" "\<And>m a. api m = Some a \<Longrightarrow> P (alloc_status a)"
    and "fold (store_call env n) calls api m = Some a"
  shows "P (alloc_status a)"
  using assms
proof (induction calls arbitrary: api)
  case (Cons c calls)
  have "P (alloc_status a)" if "store_call env n c api m = Some a" for m a
    by (rule store_call_status [OF that]) (simp_all add: Cons.prems(1,2))
  then show ?case using Cons.IH [of "store_call env n c api"] Cons.prems(1,3) by simp
qed simp

text \<open>A status that a reconcile writes has no address, the one it had, or one nobody else reserved.\<close>

lemma commit_address:
  assumes "kube_ok fc now K" "commit K render env d alloc e = (out, e', calls)" "UpdateStatus b \<in> set calls"
    and "\<And>pend p. d = Chosen pend p \<Longrightarrow> is_valid (p_address pend)"
  shows "st_address (alloc_status b) \<in> {'''', st_address (alloc_status alloc)} \<or>
    (\<exists>pend p. d = Chosen pend p \<and> parse_addr (st_address (alloc_status b)) = Some (p_address pend))"
  using assms(1,2)
proof (cases rule: commit_stores)
  case silent
  then show ?thesis using assms(3) by (auto simp: list_all_iff)
next
  case (update pre c)
  have "UpdateStatus b \<notin> set pre" using update(2) by (auto simp: list_all_iff)
  then have "c = b" using update(1) assms(3) by auto
  then show ?thesis using update(3) assms(4) parse_addr_string by (cases d) (auto simp: written_def split: if_splits)
qed

lemma deleted_writes: "reconcile_deleted K env alloc e = (out, e', calls) \<Longrightarrow> UpdateStatus b \<notin> set calls"
  by (auto simp: reconcile_deleted_def release_alloc_def Let_def split: if_splits option.splits prod.splits)

lemma reconcile_leaked:
  assumes inv: "cluster_inv fc s" and l: "leaked x ip q s" and K: "kube_ok fc now K" and env: "env_ok env n now s"
    and own: "env_get env = Found alloc" "cl_api s n = Some alloc"
    and run: "reconcile K render sha env (cl_tracker s) = (out, e', calls)"
  shows "pending_allocs e' ip = Some q \<and>
    (\<forall>b. UpdateStatus b \<in> set calls \<longrightarrow> parse_addr (st_address (alloc_status b)) \<noteq> Some ip)"
proof -
  have z: "\<forall>pools. env_pools env = Inr pools \<longrightarrow> (\<forall>p \<in> set pools. zone_free_pool p)"
    using env by (simp add: env_ok_def)
  have exp: "exp_inv (cl_tracker s)" by (rule cluster_invD(1) [OF inv])
  have pend: "pending_allocs (cl_tracker s) ip = Some q" "p_id q = x" using l by (simp_all add: leaked_def)
  have a: "seen s n alloc" using own by (simp add: seen_def)
  have name: "alloc_name alloc = n" "n \<noteq> x"
    using cluster_invD(2) [OF inv a] own l by (auto simp: leaked_def)
  have unheld: "parse_addr (st_address (alloc_status b)) \<noteq> Some ip" if "seen s m b" for m b
    using l that by (auto simp: leaked_def)
  have fc: "find_cond K = fc" using K by (simp add: kube_ok_def)
  have none: "cached_at fc allocs ip = {}" if "env_allocs env = Inr allocs" for allocs
  proof -
    have "set allocs = ran (cl_cache s)" using env that by (simp add: env_ok_def)
    then have "parse_addr (st_address (alloc_status b)) \<noteq> Some ip" if "b \<in> set allocs" for b
      using that unheld by (auto simp: ran_def seen_def)
    then show ?thesis using claim_parse by (fastforce simp: cached_at_def)
  qed
  have own_addr: "parse_addr t \<noteq> Some ip" if "t \<in> {'''', st_address (alloc_status alloc)}" for t
    using that unheld [OF a] by (auto simp: parse_addr_def)
  show ?thesis
  proof (cases "obj_deleting (alloc_meta alloc)")
    case True
    then have r: "reconcile_deleted K env alloc (cl_tracker s) = (out, e', calls)"
      using run own by (simp add: reconcile_def)
    have "\<not> releases alloc ip" using unheld [OF a] by (simp add: releases_def)
    then show ?thesis using deleted_keeps_reservations(2) [OF exp r] pend deleted_writes [OF r] by blast
  next
    case False
    have keep: "pending_allocs e' ip = Some q"
      using live_keeps_reservations [OF exp own(1) False z run] pend name none by (simp add: fc)
    have "parse_addr (st_address (alloc_status b)) \<noteq> Some ip" if b: "UpdateStatus b \<in> set calls" for b
    proof (cases "contains_finalizer K (alloc_meta alloc) finalizer_name")
      case no: False
      then show ?thesis using run own False b by (auto simp: reconcile_def Let_def)
    next
      case has: True
      then have r: "reconcile_live K render sha env alloc (cl_tracker s) = (out, e', calls)"
        using run own False by (simp add: reconcile_def)
      show ?thesis
      proof (rule reconcile_live_cases [OF z, of K render sha alloc "cl_tracker s"])
        fix err assume "reconcile_live K render sha env alloc (cl_tracker s) = (Failure (ClientError err), cl_tracker s, [])"
        then show ?thesis using r b by simp
      next
        fix pools allocs y p
        let ?c = "confirmed_tracker K env allocs (cl_tracker s)"
        assume c: "env_allocs env = Inr allocs" "is_valid y"
          "available (alloc_name alloc) (used_by_others K env alloc allocs (cl_tracker s)) ?c y"
          "reconcile_live K render sha env alloc (cl_tracker s) =
            commit K render env (Chosen (new_pending env (alloc_name alloc) y) p) alloc
              (reserved env (alloc_name alloc) y ?c)"
        have "pending_allocs ?c ip = Some q"
          using confirm_pending pend none [OF c(1)] by (simp add: confirmed_tracker_def fc)
        then have "y \<noteq> ip" using c(3) name pend by (auto simp: available_def)
        then show ?thesis
          using commit_address [OF K c(4) [symmetric, unfolded r] b] own_addr c(2) by auto
      next
        fix allocs reason msg
        assume c: "reconcile_live K render sha env alloc (cl_tracker s) =
            commit K render env (Refused reason msg) alloc (confirmed_tracker K env allocs (cl_tracker s))"
        show ?thesis using commit_address [OF K c [symmetric, unfolded r] b] own_addr by auto
      qed
    qed
    then show ?thesis using keep by blast
  qed
qed

lemma step_leaked:
  assumes "cluster_step fc True s s'" "cluster_inv fc s" "leaked x ip q s" "\<not> restart s s'" "cl_api s' x = None"
  shows "leaked x ip q s'"
  using assms(1)
proof cases
  case (created n a)
  then show ?thesis using assms(3,5) by (auto simp: leaked_def seen_def parse_addr_def split: if_splits)
next
  case (edited n a b)
  then show ?thesis using assms(3,5) by (auto simp: leaked_def seen_def split: if_splits)
next
  case (removed n a)
  then show ?thesis using assms(3) by (auto simp: leaked_def seen_def split: if_splits)
next
  case (observed n)
  then show ?thesis using assms(3) by (auto simp: leaked_def seen_def split: if_splits)
next
  case (restarted timeout)
  then show ?thesis using assms(4) by (auto simp: restart_def)
next
  case (reconciled now K env n render sha)
  obtain out e' calls where r: "reconcile K render sha env (cl_tracker s) = (out, e', calls)" by (metis prod_cases3)
  have s': "s' = s\<lparr>cl_api := fold (store_call env n) calls (cl_api s), cl_tracker := e', cl_clock := now\<rparr>"
    using reconciled(1) r by (simp add: after_reconcile_def)
  have "pending_allocs e' ip = Some q \<and>
      (\<forall>b. UpdateStatus b \<in> set calls \<longrightarrow> parse_addr (st_address (alloc_status b)) \<noteq> Some ip)"
  proof (cases "env_get env")
    case (Found alloc)
    then have "cl_api s n = Some alloc" using reconciled(3,4) by (simp add: env_ok_def)
    then show ?thesis using reconcile_leaked [OF assms(2,3) reconciled(2,3) Found _ r] by blast
  qed (use r assms(3) in \<open>auto simp: reconcile_def leaked_def\<close>)
  then show ?thesis
    using assms(3,5) store_calls_keep [of calls "\<lambda>st. parse_addr (st_address st) \<noteq> Some ip" "cl_api s" env n]
    unfolding leaked_def seen_def s' by simp
qed

section \<open>It happens\<close>

definition late_env :: "ip_pool list \<Rightarrow> string list \<Rightarrow> cluster \<Rightarrow> string \<Rightarrow> time \<Rightarrow> string alloc_env" where
  "late_env pools names s n t =
     timed_env pools (map (\<lambda>m. the (cl_cache s m)) names) (the (cl_cache s n)) t None"

definition run_reconcile :: "ip_pool list \<Rightarrow> string list \<Rightarrow> string \<Rightarrow> time \<Rightarrow> cluster \<Rightarrow> cluster" where
  "run_reconcile pools names n t s =
     after_reconcile (stamped_kube t) (\<lambda>_. '''') (\<lambda>_. [0]) (late_env pools names s n t) n t s"

definition run_observe :: "string \<Rightarrow> cluster \<Rightarrow> cluster" where
  "run_observe n s = s\<lparr>cl_cache := (cl_cache s)(n := cl_api s n)\<rparr>"

definition run_delete :: "string \<Rightarrow> cluster \<Rightarrow> cluster" where
  "run_delete n s =
     s\<lparr>cl_api := (cl_api s)(n \<mapsto> (the (cl_api s n))\<lparr>alloc_meta :=
       (alloc_meta (the (cl_api s n)))\<lparr>obj_deleting := True\<rparr>\<rparr>)\<rparr>"

definition run_remove :: "string \<Rightarrow> cluster \<Rightarrow> cluster" where
  "run_remove n s = s\<lparr>cl_api := (cl_api s)(n := None)\<rparr>"

text \<open>\<open>x\<close> gets 10.0.0.1 and is reconciled once more; its pool goes and it is refused; it is deleted
  and removed.\<close>

definition x_settled :: cluster where
  "x_settled = run_observe ''x'' (run_reconcile one_pool [''x'', ''y''] ''x'' 2
     (run_observe ''x'' (run_reconcile one_pool [''x'', ''y''] ''x'' 1 first_start)))"

definition x_refused :: cluster where
  "x_refused = run_observe ''x'' (run_reconcile [] [''x'', ''y''] ''x'' 3 x_settled)"

definition x_released :: cluster where
  "x_released = run_reconcile [] [''x'', ''y''] ''x'' 4 (run_observe ''x'' (run_delete ''x'' x_refused))"

definition x_gone :: cluster where
  "x_gone = run_observe ''x'' (run_remove ''x'' x_released)"

lemma x_gone_state:
  "cl_api x_gone ''x'' = None \<and> cl_cache x_gone ''x'' = None \<and>
   address_in x_gone ''y'' = Some '''' \<and>
   pending_allocs (cl_tracker x_gone) (Addr4 0x0a000001) =
     Some \<lparr>p_id = ''x'', p_address = Addr4 0x0a000001, p_time = 2\<rparr>"
  by code_simp

lemma x_released_removable:
  "case cl_api x_released ''x'' of
     Some a \<Rightarrow> obj_deleting (alloc_meta a) \<and> obj_finalizers (alloc_meta a) = [] | None \<Rightarrow> False"
  by code_simp

definition sole_pool :: "ip_pool list" where "sole_pool = [sample_pool ''a'' [''10.0.0.1'']]"

text \<open>Then \<open>y\<close> asks for an address of a pool that has just the one.\<close>

definition y_round :: cluster where
  "y_round = run_reconcile sole_pool [''y''] ''y'' 5 x_gone"

definition y_calls :: "alloc_call list" where
  "y_calls = snd (snd (reconcile (stamped_kube 5) (\<lambda>_. '''') (\<lambda>_. [0])
     (late_env sole_pool [''y''] x_gone ''y'' 5) (cl_tracker x_gone)))"

lemma y_refused:
  "case y_calls of RecordEvent t reason # _ \<Rightarrow> t = event_warning \<and> reason = ''PoolExhausted'' | _ \<Rightarrow> False"
  by code_simp

text \<open>What became of \<open>x\<close>: settled with its address, then refused and without, then released.\<close>

definition stands :: "string \<Rightarrow> cluster \<Rightarrow> string \<Rightarrow> string \<Rightarrow> bool" where
  "stands n s phase address \<longleftrightarrow> (case cl_api s n of None \<Rightarrow> False
     | Some a \<Rightarrow> st_phase (alloc_status a) = phase \<and> st_address (alloc_status a) = address)"

lemma x_history:
  "stands ''x'' x_settled phase_programmed ''10.0.0.1'' \<and> stands ''x'' x_refused phase_failed '''' \<and>
   stands ''x'' x_released phase_failed ''''"
  by code_simp

section \<open>The run is a run of the cluster\<close>

lemma run_observe_step: "cluster_step fc fresh s (run_observe n s)"
  unfolding run_observe_def by (rule observed)

lemma run_delete_step:
  assumes "cl_api s n = Some a" "alloc_name a = n" "active a"
  shows "cluster_step fc fresh s (run_delete n s)"
  unfolding run_delete_def using assms by (intro edited [of s n a]) (simp_all add: active_def)

text \<open>A cache with the given names, each filed under its own.\<close>

definition cached_names :: "cluster \<Rightarrow> string list \<Rightarrow> bool" where
  "cached_names s names \<longleftrightarrow> dom (cl_cache s) = set names"

lemma cached_names_run:
  "cached_names (run_reconcile pools names' n t s) names \<longleftrightarrow> cached_names s names"
  "cached_names (run_delete n s) names \<longleftrightarrow> cached_names s names"
  "cached_names s names \<Longrightarrow> n \<in> set names \<Longrightarrow> cl_api s n \<noteq> None \<Longrightarrow> cached_names (run_observe n s) names"
  by (auto simp: cached_names_def run_reconcile_def run_delete_def run_observe_def after_reconcile_other)

lemma late_env_ok:
  assumes "cached_names s names" "n \<in> set names" "cl_cache s n = cl_api s n" "cl_clock s < t"
    and "\<forall>p \<in> set pools. zone_free_pool p"
  shows "env_ok (late_env pools names s n t) n t s"
proof -
  have "cl_cache s n = Some (the (cl_cache s n))"
    using assms(1,2) by (cases "cl_cache s n") (auto simp: cached_names_def)
  moreover have "set (map (\<lambda>m. the (cl_cache s m)) names) = ran (cl_cache s)"
  proof -
    have "ran (cl_cache s) = (\<lambda>m. the (cl_cache s m)) ` dom (cl_cache s)"
      by (auto simp: ran_def dom_def image_iff) (metis option.sel)
    then show ?thesis using assms(1) by (simp add: cached_names_def)
  qed
  ultimately show ?thesis
    using assms(3-5) by (simp add: env_ok_def late_env_def timed_env_def quiet_env_def)
qed

lemma run_reconcile_step:
  assumes "cached_names s names" "n \<in> set names" "cl_cache s n = cl_api s n" "cl_clock s < t"
    and "\<forall>p \<in> set pools. zone_free_pool p"
  shows "cluster_step first_of_type True s (run_reconcile pools names n t s)"
  unfolding run_reconcile_def
  using late_env_ok [OF assms] assms(3) by (intro reconciled [OF stamped_kube_ok]) auto

text \<open>The facts about the states of the run, evaluated.\<close>

definition present :: "cluster \<Rightarrow> bool" where
  "present s \<longleftrightarrow> (case cl_api s ''x'' of Some a \<Rightarrow> alloc_name a = ''x'' \<and> active a | None \<Rightarrow> False)"

lemma x_first_present: "present (run_reconcile one_pool [''x'', ''y''] ''x'' 1 first_start)"
  by code_simp

lemma x_second_present:
  "present (run_reconcile one_pool [''x'', ''y''] ''x'' 2
     (run_observe ''x'' (run_reconcile one_pool [''x'', ''y''] ''x'' 1 first_start)))"
  by code_simp

lemma x_third_present: "present (run_reconcile [] [''x'', ''y''] ''x'' 3 x_settled)"
  by code_simp

lemma present_Some: "present s \<Longrightarrow> \<exists>a. cl_api s ''x'' = Some a \<and> alloc_name a = ''x'' \<and> active a"
  by (auto simp: present_def split: option.splits)

lemma run_simps [simp]:
  "cl_cache (run_observe n s) n = cl_api (run_observe n s) n"
  "cl_clock (run_observe n s) = cl_clock s" "cl_clock (run_delete n s) = cl_clock s"
  "cl_clock (run_reconcile pools names n t s) = t"
  "cl_api (run_observe n s) = cl_api s"
  "cl_api (run_delete n s) n \<noteq> None"
  by (simp_all add: run_observe_def run_delete_def run_reconcile_def after_reconcile_other)

text \<open>One round: the informer shows \<open>x\<close>, then \<open>x\<close> is reconciled.\<close>

lemma round:
  assumes "reachable first_of_type True s" "cached_names s [''x'', ''y'']" "cl_api s ''x'' \<noteq> None"
    and "cl_clock s < t" "\<forall>p \<in> set pools. zone_free_pool p"
  shows "reachable first_of_type True (run_reconcile pools [''x'', ''y''] ''x'' t (run_observe ''x'' s))"
    and "cached_names (run_reconcile pools [''x'', ''y''] ''x'' t (run_observe ''x'' s)) [''x'', ''y'']"
proof -
  have c: "cached_names (run_observe ''x'' s) [''x'', ''y'']"
    by (rule cached_names_run(3) [OF assms(2)]) (simp_all add: assms(3))
  then show "cached_names (run_reconcile pools [''x'', ''y''] ''x'' t (run_observe ''x'' s)) [''x'', ''y'']"
    by (simp add: cached_names_run)
  have "cluster_step first_of_type True (run_observe ''x'' s)
      (run_reconcile pools [''x'', ''y''] ''x'' t (run_observe ''x'' s))"
    by (rule run_reconcile_step [OF c]) (use assms(4,5) in simp_all)
  then show "reachable first_of_type True (run_reconcile pools [''x'', ''y''] ''x'' t (run_observe ''x'' s))"
    using reachable.step [OF reachable.step [OF assms(1) run_observe_step]] by blast
qed

lemma x_gone_reachable: "reachable first_of_type True x_gone"
proof -
  let ?s1 = "run_reconcile one_pool [''x'', ''y''] ''x'' 1 first_start"
  let ?s2 = "run_reconcile one_pool [''x'', ''y''] ''x'' 2 (run_observe ''x'' ?s1)"
  let ?s3 = "run_reconcile [] [''x'', ''y''] ''x'' 3 (run_observe ''x'' ?s2)"
  let ?s4 = "run_delete ''x'' (run_observe ''x'' ?s3)"
  have names: "alloc_name user_x = ''x''" "alloc_name user_y = ''y''"
    by (simp_all add: user_x_def user_y_def)
  have pool: "\<forall>p \<in> set one_pool. zone_free_pool p"
    by (simp add: one_pool_def sample_pool_simps zone_free_def)
  have c0: "cached_names first_start [''x'', ''y'']"
    by (simp add: cached_names_def first_start_def start_with_def stored_def names)
  have "cl_cache first_start ''x'' = cl_api first_start ''x''" "cl_clock first_start < 1"
    by (simp_all add: first_start_def start_with_def)
  then have "cluster_step first_of_type True first_start ?s1"
    by (intro run_reconcile_step [OF c0]) (use pool in simp_all)
  then have r1: "reachable first_of_type True ?s1" and c1: "cached_names ?s1 [''x'', ''y'']"
    using reachable.step [OF first_start_reachable] c0 by (simp_all add: cached_names_run)
  have p: "cl_api ?s1 ''x'' \<noteq> None" "cl_api ?s2 ''x'' \<noteq> None" "cl_api ?s3 ''x'' \<noteq> None"
    using present_Some [OF x_first_present] present_Some [OF x_second_present]
      present_Some [OF x_third_present] by (auto simp: x_settled_def)
  have t: "cl_clock ?s1 < 2" "cl_clock ?s2 < 3" "cl_clock ?s4 < 4" by simp_all
  note r2 = round [OF r1 c1 p(1) t(1) pool]
  have r3: "reachable first_of_type True ?s3" "cached_names ?s3 [''x'', ''y'']"
    using round [OF r2 p(2) t(2), of "[]"] by simp_all
  obtain a where a: "cl_api ?s3 ''x'' = Some a" "alloc_name a = ''x''" "active a"
    using present_Some [OF x_third_present] by (auto simp: x_settled_def)
  have "cluster_step first_of_type True (run_observe ''x'' ?s3) ?s4"
    by (rule run_delete_step [OF _ a(2,3)]) (simp add: a(1))
  then have r4: "reachable first_of_type True ?s4"
    using reachable.step [OF reachable.step [OF r3(1) run_observe_step]] by blast
  have c4: "cached_names ?s4 [''x'', ''y'']"
    using cached_names_run(3) [OF r3(2), of "''x''"] p(3) by (simp add: cached_names_run)
  have r5: "reachable first_of_type True x_released"
    using round(1) [OF r4 c4 _ t(3), of "[]"] by (simp add: x_released_def x_refused_def x_settled_def)
  obtain b where "cl_api x_released ''x'' = Some b" "obj_deleting (alloc_meta b)" "obj_finalizers (alloc_meta b) = []"
    using x_released_removable by (auto split: option.splits)
  then have "cluster_step first_of_type True x_released (run_remove ''x'' x_released)"
    unfolding run_remove_def by (rule removed)
  then show ?thesis
    unfolding x_gone_def using reachable.step [OF reachable.step [OF r5] run_observe_step] by blast
qed

text \<open>Only \<open>y\<close> is left in the store and the cache, as the user made it.\<close>

lemma x_gone_seen: "seen x_gone m a \<Longrightarrow> m = ''y'' \<and> a = user_y"
proof -
  have api: "cl_api x_gone m = (stored [user_x, user_y]) m" and cache: "cl_cache x_gone m = (stored [user_x, user_y]) m"
    if "m \<noteq> ''x''" for m
    using that by (simp_all add: x_gone_def x_released_def x_refused_def x_settled_def run_observe_def run_delete_def
        run_remove_def run_reconcile_def after_reconcile_other first_start_def start_with_def)
  have names: "alloc_name user_x = ''x''" "alloc_name user_y = ''y''"
    by (simp_all add: user_x_def user_y_def)
  assume a: "seen x_gone m a"
  then have "m \<noteq> ''x''" using x_gone_state by (auto simp: seen_def)
  then show ?thesis using a api [of m] cache [of m] by (auto simp: seen_def stored_two names split: if_splits)
qed

lemma x_gone_leaked:
  "leaked ''x'' (Addr4 0x0a000001) \<lparr>p_id = ''x'', p_address = Addr4 0x0a000001, p_time = 2\<rparr> x_gone"
proof -
  have "parse_addr (st_address (alloc_status a)) \<noteq> Some (Addr4 0x0a000001)" if "seen x_gone m a" for m a
    using x_gone_seen [OF that] by (simp add: user_y_def)
  then show ?thesis using x_gone_state by (simp add: leaked_def)
qed

lemma x_gone_clock: "cl_clock x_gone = 4"
  by (simp add: x_gone_def run_remove_def x_released_def run_observe_def run_reconcile_def after_reconcile_other)

lemma y_round_step: "cluster_step first_of_type True x_gone y_round"
proof -
  have "cl_api x_gone ''y'' \<noteq> None" using x_gone_state by (auto simp: address_in_def)
  moreover have "cl_cache x_gone ''y'' = (stored [user_x, user_y]) ''y''"
    by (simp add: x_gone_def x_released_def x_refused_def x_settled_def run_observe_def run_delete_def
      run_remove_def run_reconcile_def after_reconcile_other first_start_def start_with_def)
  ultimately have y: "cl_api x_gone ''y'' = Some user_y" "cl_cache x_gone ''y'' = Some user_y"
    using x_gone_seen [of "''y''"] by (auto simp: seen_def stored_two user_x_def user_y_def)
  have "m = ''y''" if m: "m \<in> dom (cl_cache x_gone)" for m
  proof -
    obtain a where "cl_cache x_gone m = Some a" using domD [OF m] by blast
    then show ?thesis using x_gone_seen [of m a] by (simp add: seen_def)
  qed
  moreover have "''y'' \<in> dom (cl_cache x_gone)" using y(2) by (rule domI)
  ultimately have "dom (cl_cache x_gone) = {''y''}" by blast
  then have c: "cached_names x_gone [''y'']" by (simp add: cached_names_def)
  have "\<forall>p \<in> set sole_pool. zone_free_pool p" by (simp add: sole_pool_def sample_pool_simps zone_free_def)
  then show ?thesis
    unfolding y_round_def by (intro run_reconcile_step [OF c]) (use y x_gone_clock in simp_all)
qed

lemma y_round_runs: "runs first_of_type ''x'' x_gone y_round"
proof (rule runs.more [OF runs.here y_round_step])
  have "cl_clock y_round \<noteq> cl_clock x_gone" by (simp add: y_round_def x_gone_clock)
  then show "\<not> restart x_gone y_round" using restart_clock by metis
  show "cl_api y_round ''x'' = None"
    using x_gone_state by (simp add: y_round_def run_reconcile_def after_reconcile_other)
qed

text \<open>C23: A reservation outlives its allocation: once the tracker holds an address for an allocation that
  is neither stored nor cached, and no allocation has the address, this stays so through every run
  of the cluster in which each reconcile sees its own object as stored, until the controller restarts
  or an allocation of that name is created. The address is given to nobody. The instance below is a
  reachable cluster: an allocation was programmed, refused when its pool went, deleted and
  removed, and another one is refused the only address of a pool.\<close>

theorem reservation_outlives_allocation:
  assumes "reachable fc True s" "leaked x ip q s" "runs fc x s s'"
  shows "leaked x ip q s' \<and>
    (\<forall>m a. cl_api s' m = Some a \<longrightarrow> parse_addr (st_address (alloc_status a)) \<noteq> Some ip)"
proof -
  have "leaked x ip q s'"
    using assms(3,1,2)
  proof (induction rule: runs.induct)
    case (more s t u)
    then show ?case using step_leaked [OF _ reachable_inv [OF runs_reachable]] by blast
  qed
  then show ?thesis by (auto simp: leaked_def seen_def)
qed

theorem reservation_outlives_allocation_witness:
  "\<exists>calls. reachable first_of_type True x_gone \<and> stands ''x'' x_settled phase_programmed ''10.0.0.1'' \<and>
     stands ''x'' x_refused phase_failed '''' \<and> cl_api y_round ''x'' = None \<and>
     cluster_step first_of_type True x_gone y_round \<and>
     pending_allocs (cl_tracker y_round) (Addr4 0x0a000001) =
       Some \<lparr>p_id = ''x'', p_address = Addr4 0x0a000001, p_time = 2\<rparr> \<and>
     (\<forall>m a. cl_api y_round m = Some a \<longrightarrow> parse_addr (st_address (alloc_status a)) \<noteq> Some (Addr4 0x0a000001)) \<and>
     y_calls = RecordEvent event_warning ''PoolExhausted'' # calls"
proof -
  obtain calls where y: "y_calls = RecordEvent event_warning ''PoolExhausted'' # calls"
    using y_refused by (auto split: list.splits alloc_call.splits)
  note l = reservation_outlives_allocation [OF x_gone_reachable x_gone_leaked y_round_runs]
  show ?thesis
    using l x_history x_gone_reachable y y_round_step by (auto simp: leaked_def)
qed

end
