(* ===== verification/Utils.thy ===== *)
theory Utils
  imports Prelude
begin

text \<open>
  \<open>internal/utils\<close>: \<open>FormatCount\<close>, which prints a count with a metric suffix through
  \<open>big.Float\<close>, and \<open>GenerateUniqueHash\<close>, which maps a SHA-256 digest to letters and
  digits. The digest is a parameter.
\<close>

section \<open>big.Float\<close>

text \<open>
  A non-negative \<open>big.Float\<close> is a mantissa and an exponent of two. \<open>SetInt\<close> gives it the
  precision max(bit length, 64); \<open>Quo\<close> rounds the quotient to that precision, to nearest even.
\<close>

type_synonym bigfloat = "nat \<times> int"

fun bit_length :: "nat \<Rightarrow> nat" where
  "bit_length n = (if n = 0 then 0 else Suc (bit_length (n div 2)))"

declare bit_length.simps [simp del]

text \<open>Round num/den to the nearest natural number, ties to even.\<close>

definition round_even :: "nat \<Rightarrow> nat \<Rightarrow> nat" where
  "round_even num den =
     (let q = num div den; r = num mod den in
      if den < 2 * r \<or> (2 * r = den \<and> odd q) then q + 1 else q)"

definition quo_1000 :: "nat \<Rightarrow> bigfloat \<Rightarrow> bigfloat" where
  "quo_1000 prec f =
     (case f of (m, e) \<Rightarrow>
        (let s = prec + 10;
             n = m * 2 ^ s;
             k = bit_length (n div 1000) - prec
         in (round_even n (1000 * 2 ^ k), e - int s + int k)))"

definition ge_1000 :: "bigfloat \<Rightarrow> bool" where
  "ge_1000 f = (case f of (m, e) \<Rightarrow> if 0 \<le> e then 1000 \<le> m * 2 ^ nat e else 1000 * 2 ^ nat (- e) \<le> m)"

text \<open>The value scaled by 10 to the power \<open>d\<close> and rounded to an integer, ties to even.\<close>

definition scaled :: "nat \<Rightarrow> bigfloat \<Rightarrow> nat" where
  "scaled d f = (case f of (m, e) \<Rightarrow>
     if 0 \<le> e then m * 2 ^ nat e * 10 ^ d else round_even (m * 10 ^ d) (2 ^ nat (- e)))"

definition int_part :: "bigfloat \<Rightarrow> nat" where
  "int_part f = (case f of (m, e) \<Rightarrow> if 0 \<le> e then m * 2 ^ nat e else m div 2 ^ nat (- e))"

section \<open>FormatCount\<close>

definition metric_suffixes :: "string list" where
  "metric_suffixes = ['''', ''K'', ''M'', ''G'', ''T'', ''P'', ''E'', ''Z'', ''Y'']"

text \<open>The division loop: the float and the index of the suffix.\<close>

function divide_loop :: "nat \<Rightarrow> bigfloat \<Rightarrow> nat \<Rightarrow> bigfloat \<times> nat" where
  "divide_loop prec f idx =
     (if ge_1000 f \<and> idx < length metric_suffixes - 1 then divide_loop prec (quo_1000 prec f) (idx + 1)
      else (f, idx))"
  by pat_completeness auto
termination
  by (relation "measure (\<lambda>(prec, f, idx). length metric_suffixes - idx)") auto

declare divide_loop.simps [simp del]

text \<open>\<open>%.1f\<close> and \<open>%.2e\<close> of a value of at least one.\<close>

definition fixed_1 :: "bigfloat \<Rightarrow> string" where
  "fixed_1 f = (let t = scaled 1 f in dec (t div 10) @ ''.'' @ dec (t mod 10))"

definition two_digits :: "nat \<Rightarrow> string" where
  "two_digits n = (if n < 10 then ''0'' @ dec n else dec n)"

definition exp_2 :: "bigfloat \<Rightarrow> string" where
  "exp_2 f = (case f of (m, e) \<Rightarrow>
     (let x = length (dec (int_part f)) - 1;
          t = (if 0 \<le> e then round_even (m * 2 ^ nat e * 100) (10 ^ x)
               else round_even (m * 100) (2 ^ nat (- e) * 10 ^ x));
          (t', x') = (if t = 1000 then (100, x + 1) else (t, x))
      in dec (t' div 100) @ ''.'' @ two_digits (t' mod 100) @ ''e+'' @ two_digits x'))"

definition format_count :: "int \<Rightarrow> string" where
  "format_count n =
     (if n = 0 then ''0''
      else
        (let a = nat \<bar>n\<bar>;
             sign = (if n < 0 then ''-'' else '''');
             (f, idx) = divide_loop (max (bit_length a) 64) (a, 0) 0
         in if ge_1000 f then sign @ exp_2 f
            else if idx = 0 then sign @ dec (scaled 0 f)
            else sign @ fixed_1 f @ metric_suffixes ! idx))"

section \<open>GenerateUniqueHash\<close>

definition charset :: string where
  "charset = ''0123456789abcdefghijklmnopqrstuvwxyz''"

definition generate_unique_hash :: "(string \<Rightarrow> byte list) \<Rightarrow> nat \<Rightarrow> string list \<Rightarrow> string" where
  "generate_unique_hash sha256 count parts =
     (let h = sha256 (str_join ''#'' parts);
          count' = (if length h < count then length h else count)
      in map (\<lambda>i. charset ! (unat (h ! i) mod length charset)) [0..<count'])"

lemma bit_length_eq: "2 ^ k \<le> n \<Longrightarrow> n < 2 * 2 ^ k \<Longrightarrow> bit_length n = k + 1"
proof (induction k arbitrary: n)
  case 0
  then have "n = 1" by simp
  then show ?case by (simp add: bit_length.simps)
next
  case (Suc k)
  then have "bit_length (n div 2) = k + 1" by (intro Suc.IH) auto
  moreover have "n \<noteq> 0" using Suc.prems by (metis not_numeral_le_zero power_eq_0_iff le_zero_eq zero_neq_numeral)
  ultimately show ?case by (simp add: bit_length.simps [of n])
qed

lemma quo_1000_eval:
  assumes "2 ^ (p + k - 1) \<le> m * 2 ^ (p + 10) div 1000" "m * 2 ^ (p + 10) div 1000 < 2 * 2 ^ (p + k - 1)" "0 < p"
  shows "quo_1000 p (m, e) = (round_even (m * 2 ^ (p + 10)) (1000 * 2 ^ k), e - int (p + 10) + int k)"
  using bit_length_eq [OF assms(1,2)] assms(3) by (simp add: quo_1000_def Let_def)

lemma quo_steps:
  "quo_1000 113 (5192296858534827628530496329220096, 0) = (5316911983139663491615228241121378, - 10)"
  "quo_1000 113 (5316911983139663491615228241121378, - 10) = (5444517870735015415413993718908291, - 20)"
  "quo_1000 113 (5444517870735015415413993718908291, - 20) = (5575186299632655785383929568162090, - 30)"
  "quo_1000 113 (5575186299632655785383929568162090, - 30) = (5708990770823839524233143877797980, - 40)"
  "quo_1000 113 (5708990770823839524233143877797980, - 40) = (5846006549323611672814739330865132, - 50)"
  "quo_1000 113 (5846006549323611672814739330865132, - 50) = (5986310706507378352962293074805895, - 60)"
  "quo_1000 113 (5986310706507378352962293074805895, - 60) = (6129982163463555433433388108601236, - 70)"
  "quo_1000 113 (6129982163463555433433388108601236, - 70) = (6277101735386680763835789423207666, - 80)"
  by (subst quo_1000_eval [where k = 113]; simp add: round_even_def)+

lemma ge_steps:
  "ge_1000 (5192296858534827628530496329220096, 0)"
  "ge_1000 (5316911983139663491615228241121378, - 10)"
  "ge_1000 (5444517870735015415413993718908291, - 20)"
  "ge_1000 (5575186299632655785383929568162090, - 30)"
  "ge_1000 (5708990770823839524233143877797980, - 40)"
  "ge_1000 (5846006549323611672814739330865132, - 50)"
  "ge_1000 (5986310706507378352962293074805895, - 60)"
  "ge_1000 (6129982163463555433433388108601236, - 70)"
  "ge_1000 (6277101735386680763835789423207666, - 80)"
  by (simp_all add: ge_1000_def)

lemma loop_yotta: "divide_loop 113 (2 ^ 112, 0) 0 = ((6277101735386680763835789423207666, - 80), 8)"
  by (simp add: divide_loop.simps quo_steps ge_steps metric_suffixes_def)

lemma exp_yotta: "exp_2 (6277101735386680763835789423207666, - 80) = ''5.19e+09''"
  by code_simp

section \<open>Properties\<close>

text \<open>A count below a thousand is printed exactly, in decimal, with its sign.\<close>

theorem format_count_small:
  assumes "\<bar>n\<bar> < 1000" "n \<noteq> 0"
  shows "format_count n = (if n < 0 then ''-'' else '''') @ dec (nat \<bar>n\<bar>)"
proof -
  have "\<not> ge_1000 (nat \<bar>n\<bar>, 0)" using assms by (simp add: ge_1000_def)
  then have "divide_loop p (nat \<bar>n\<bar>, 0) 0 = ((nat \<bar>n\<bar>, 0), 0)" for p
    by (simp add: divide_loop.simps)
  then show ?thesis
    using assms \<open>\<not> ge_1000 (nat \<bar>n\<bar>, 0)\<close> by (simp add: format_count_def scaled_def Let_def)
qed

theorem format_count_small_witness: "format_count 254 = ''254''"
proof -
  have "dec 254 = ''254''" by code_simp
  then show ?thesis using format_count_small [of 254] by simp
qed

text \<open>Counts beyond the suffix Y are printed as the mantissa left after the division by 10 to
  the power 24, not as the count: 2 to the power 112 (about 5.19e33) is printed as 5.19e+09.\<close>

theorem format_count_beyond_yotta: "format_count (2 ^ 112) = ''5.19e+09''"
proof -
  have "bit_length (2 ^ 112) = 113" using bit_length_eq [of 112 "2 ^ 112"] by simp
  then have "max (bit_length (2 ^ 112)) 64 = 113" by simp
  moreover have "nat \<bar>2 ^ 112\<bar> = 2 ^ 112" by simp
  ultimately have "format_count (2 ^ 112) = exp_2 (6277101735386680763835789423207666, - 80)"
    using loop_yotta ge_steps(9) by (simp add: format_count_def Let_def)
  then show ?thesis using exp_yotta by simp
qed

text \<open>The character of a digit in base 36.\<close>

definition base36 :: "nat \<Rightarrow> char" where
  "base36 k = char_of (if k < 10 then 48 + k else 87 + k)"

lemma charset_base36: "k < 36 \<Longrightarrow> charset ! k = base36 k"
proof -
  have "list_all (\<lambda>k. charset ! k = base36 k) [0..<36]" by code_simp
  then show "k < 36 \<Longrightarrow> charset ! k = base36 k" by (simp add: list_all_iff)
qed

text \<open>The generated hash is the digits in base 36 of the first digest bytes, reduced modulo 36.\<close>

theorem unique_hash_exact:
  "generate_unique_hash sha256 count parts =
     map (\<lambda>b. base36 (unat b mod 36)) (take count (sha256 (str_join ''#'' parts)))"
proof -
  let ?h = "sha256 (str_join ''#'' parts)"
  have l: "length charset = 36" by code_simp
  show ?thesis
    unfolding generate_unique_hash_def Let_def l
    by (cases "length ?h < count"; rule nth_equalityI) (simp_all add: charset_base36)
qed

end
