(* ===== verification/Pool_Reconciler.thy ===== *)
theory Pool_Reconciler
  imports Allocation_Props Utils
begin

text \<open>
  \<open>internal/controller/ip_pool_reconciler.go\<close>: one call of \<open>Reconcile\<close> for an
  \<open>IPPool\<close>. It keeps the finalizer, asks the allocations concerned to reconcile again by an
  annotation, and writes the counts into the status. The client answers through \<open>pool_env\<close>.
\<close>

datatype pool_call =
    PatchPool object_meta
  | AnnotateAllocation string
  | PatchPoolStatus ippool_status

record 'e pool_env =
  pe_get :: "('e, ip_pool) get_result"
  pe_patch :: "object_meta \<Rightarrow> 'e option"
  pe_allocs :: "'e + ip_allocation list"
  pe_annotate :: "ip_allocation \<Rightarrow> 'e option"
  pe_status :: "ippool_status \<Rightarrow> 'e option"

type_synonym 'e pool_result = "'e option \<times> pool_call list"

definition annotation_update :: string where
  "annotation_update = ''mikrolb.de/update''"

text \<open>\<open>triggerIPAllocationUpdate\<close>: nothing to do when the annotation is already there.\<close>

definition trigger_update :: "'e pool_env \<Rightarrow> ip_allocation \<Rightarrow> 'e pool_result" where
  "trigger_update env a =
     (if obj_annotations (alloc_meta a) annotation_update \<noteq> None then (None, [])
      else (pe_annotate env a, [AnnotateAllocation (alloc_name a)]))"

text \<open>The address of an allocation's status, the zero \<open>Addr\<close> when it is empty or invalid.\<close>

definition status_addr :: "ip_allocation \<Rightarrow> addr" where
  "status_addr a =
     (if st_address (alloc_status a) = '''' then AddrNone
      else (case parse_addr (st_address (alloc_status a)) of None \<Rightarrow> AddrNone | Some ip \<Rightarrow> ip))"

definition matches_address :: "ip_range_set \<Rightarrow> ip_allocation \<Rightarrow> bool" where
  "matches_address s a \<longleftrightarrow> is_valid (status_addr a) \<and> rs_contains s (status_addr a)"

definition needs_trigger :: "string \<Rightarrow> ip_range_set \<Rightarrow> bool \<Rightarrow> bool \<Rightarrow> ip_allocation \<Rightarrow> bool" where
  "needs_trigger name s is_deleting is_new a \<longleftrightarrow>
     (let matched_address = matches_address s a;
          matched_name = (req_pool (alloc_spec a) = name);
          pending_in_pool = (st_phase (alloc_status a) = phase_pending \<and>
            (matched_name \<or> req_pool (alloc_spec a) = ''''))
      in (matched_address \<and> is_deleting) \<or> (matched_name \<and> \<not> matched_address) \<or>
         (is_new \<and> pending_in_pool))"

text \<open>The loop over the allocations: the error, the calls and the addresses in use so far.\<close>

fun pool_allocs_loop ::
  "'e pool_env \<Rightarrow> string \<Rightarrow> ip_range_set \<Rightarrow> bool \<Rightarrow> bool \<Rightarrow> ip_allocation list \<Rightarrow> addr list \<Rightarrow>
    'e option \<times> pool_call list \<times> addr list" where
  "pool_allocs_loop env name s del new [] used = (None, [], used)"
| "pool_allocs_loop env name s del new (a # as) used =
     (let used' = (if matches_address s a then List.insert (status_addr a) used else used) in
      if needs_trigger name s del new a then
        (case trigger_update env a of
           (Some err, calls) \<Rightarrow> (Some err, calls, used')
         | (None, calls) \<Rightarrow>
             (case pool_allocs_loop env name s del new as used' of
                (err, calls', used'') \<Rightarrow> (err, calls @ calls', used'')))
      else pool_allocs_loop env name s del new as used')"

definition pool_counts :: "ip_range_set \<Rightarrow> ip_family \<Rightarrow> nat \<Rightarrow> ippool_status \<Rightarrow> ippool_status" where
  "pool_counts s fam n st =
     st\<lparr>total_addresses := format_count (rs_count s fam),
        allocated_addresses := format_count (int n),
        free_addresses := format_count (rs_count s fam - int n)\<rparr>"

text \<open>The part of \<open>Reconcile\<close> after the finalizer is in place.\<close>

definition reconcile_pool_body ::
  "kube_lib \<Rightarrow> 'e pool_env \<Rightarrow> bool \<Rightarrow> ip_pool \<Rightarrow> 'e pool_result" where
  "reconcile_pool_body K env is_new pool =
     (case pe_allocs env of
        Inl err \<Rightarrow> (Some err, [])
      | Inr allocs \<Rightarrow>
          (let meta = pool_meta pool;
               is_deleting = (obj_deleting meta \<and> contains_finalizer K meta finalizer_name);
               s = fst (spec_addresses (pool_spec pool))
           in case pool_allocs_loop env (obj_name meta) s is_deleting is_new allocs [] of
                (Some err, calls, _) \<Rightarrow> (Some err, calls)
              | (None, calls, used) \<Rightarrow>
                  (if is_deleting then
                     (let meta' = remove_finalizer K meta finalizer_name in
                      (pe_patch env meta', calls @ [PatchPool meta']))
                   else
                     (let st = pool_counts s (pool_family (pool_spec pool)) (length used) (pool_status pool) in
                      (pe_status env st, calls @ [PatchPoolStatus st])))))"

definition reconcile_pool :: "kube_lib \<Rightarrow> 'e pool_env \<Rightarrow> 'e pool_result" where
  "reconcile_pool K env =
     (case pe_get env of
        NotFound \<Rightarrow> (None, [])
      | GetError err \<Rightarrow> (Some err, [])
      | Found pool \<Rightarrow>
          if contains_finalizer K (pool_meta pool) finalizer_name
          then reconcile_pool_body K env False pool
          else
            (let meta = add_finalizer K (pool_meta pool) finalizer_name in
             case pe_patch env meta of
               Some err \<Rightarrow> (Some err, [PatchPool meta])
             | None \<Rightarrow>
                 (case reconcile_pool_body K env True (pool\<lparr>pool_meta := meta\<rparr>) of
                    (err, calls) \<Rightarrow> (err, PatchPool meta # calls))))"

section \<open>Lemmas\<close>

lemma pool_allocs_loop_used:
  "pool_allocs_loop env name s del new as used = (None, calls, used') \<Longrightarrow>
    used' = fold (\<lambda>a u. if matches_address s a then List.insert (status_addr a) u else u) as used"
  by (induction as arbitrary: used calls)
    (auto simp: Let_def split: if_splits prod.splits option.splits)

lemma fold_insert_used:
  "set (fold (\<lambda>a u. if P a then List.insert (f a) u else u) as used) = set used \<union> f ` {a \<in> set as. P a}"
  "distinct used \<Longrightarrow> distinct (fold (\<lambda>a u. if P a then List.insert (f a) u else u) as used)"
  by (induction as arbitrary: used) auto

text \<open>Every allocation concerned carries the annotation already or gets it, in order.\<close>

lemma pool_allocs_loop_calls:
  assumes "pool_allocs_loop env name s del new as used = (None, calls, used')"
  shows "calls = map (\<lambda>a. AnnotateAllocation (alloc_name a))
    (filter (\<lambda>a. needs_trigger name s del new a \<and>
       obj_annotations (alloc_meta a) annotation_update = None) as)"
  using assms
  by (induction as arbitrary: used calls)
    (auto simp: Let_def trigger_update_def split: if_splits prod.splits option.splits)

text \<open>The allocations that get the annotation, as long as no call fails.\<close>

definition to_ask :: "string \<Rightarrow> ip_range_set \<Rightarrow> bool \<Rightarrow> bool \<Rightarrow> ip_allocation list \<Rightarrow> ip_allocation list" where
  "to_ask name s del new as = filter (\<lambda>a. needs_trigger name s del new a \<and>
     obj_annotations (alloc_meta a) annotation_update = None) as"

lemma pool_allocs_loop_asks:
  assumes "pool_allocs_loop env name s del new as used = (None, calls, used')" "a \<in> set (to_ask name s del new as)"
  shows "pe_annotate env a = None"
  using assms
  by (induction as arbitrary: used calls)
    (auto simp: to_ask_def Let_def trigger_update_def split: if_splits prod.splits option.splits)

lemma pool_allocs_loop_stops:
  assumes "pool_allocs_loop env name s del new as used = (Some err, calls, used')"
  shows "\<exists>ok a rest. to_ask name s del new as = ok @ a # rest \<and> (\<forall>b \<in> set ok. pe_annotate env b = None) \<and>
    pe_annotate env a = Some err \<and> calls = map (\<lambda>b. AnnotateAllocation (alloc_name b)) (ok @ [a])"
  using assms
proof (induction as arbitrary: used calls)
  case (Cons a as)
  let ?used = "if matches_address s a then List.insert (status_addr a) used else used"
  show ?case
  proof (cases "needs_trigger name s del new a \<and> obj_annotations (alloc_meta a) annotation_update = None")
    case False
    then have "pool_allocs_loop env name s del new as ?used = (Some err, calls, used')"
      using Cons.prems by (auto simp: trigger_update_def Let_def split: if_splits prod.splits)
    moreover have "to_ask name s del new (a # as) = to_ask name s del new as"
      using False by (auto simp: to_ask_def)
    ultimately show ?thesis using Cons.IH by simp
  next
    case True
    then have ask: "to_ask name s del new (a # as) = a # to_ask name s del new as" by (simp add: to_ask_def)
    show ?thesis
    proof (cases "pe_annotate env a")
      case (Some e)
      then have "e = err" "calls = [AnnotateAllocation (alloc_name a)]"
        using Cons.prems True by (simp_all add: trigger_update_def Let_def)
      then show ?thesis using ask Some by (intro exI [of _ "[]"]) simp
    next
      case None
      obtain err' cs u where l: "pool_allocs_loop env name s del new as ?used = (err', cs, u)"
        by (metis prod_cases3)
      then have e: "err' = Some err" "calls = AnnotateAllocation (alloc_name a) # cs" "u = used'"
        using Cons.prems True None by (auto simp: trigger_update_def Let_def)
      then obtain ok b rest where "to_ask name s del new as = ok @ b # rest" "\<forall>b \<in> set ok. pe_annotate env b = None"
        "pe_annotate env b = Some err" "cs = map (\<lambda>b. AnnotateAllocation (alloc_name b)) (ok @ [b])"
        using Cons.IH [of ?used cs] l by blast
      then show ?thesis using ask e(2) None by (intro exI [of _ "a # ok"]) auto
    qed
  qed
qed simp

text \<open>The addresses in use are addresses of the pool, so they never outnumber it.\<close>

definition in_use :: "ip_pool \<Rightarrow> ip_allocation list \<Rightarrow> addr set" where
  "in_use pool allocs = status_addr ` {a \<in> set allocs. matches_address (pool_set pool) a}"

lemma loop_in_use:
  assumes "pool_allocs_loop env name (pool_set pool) del new allocs [] = (None, calls, used)"
  shows "set used = in_use pool allocs" "length used = card (in_use pool allocs)"
proof -
  show s: "set used = in_use pool allocs"
    using pool_allocs_loop_used [OF assms] by (simp add: fold_insert_used(1) in_use_def)
  have "distinct used" using pool_allocs_loop_used [OF assms] by (simp add: fold_insert_used(2))
  then show "length used = card (in_use pool allocs)" using s distinct_card by metis
qed

lemma status_addr_plain:
  "zone_free (st_address (alloc_status a)) \<Longrightarrow> is_valid (status_addr a) \<Longrightarrow> plain (status_addr a)"
  by (auto simp: status_addr_def is_valid_def intro: parse_addr_plain split: if_splits option.splits)

lemma in_use_sub:
  assumes "zone_free_pool pool" "\<forall>a \<in> set allocs. zone_free (st_address (alloc_status a))"
  shows "in_use pool allocs \<subseteq> pool_denote pool"
  using assms status_addr_plain rs_contains_iff [OF pool_set_wf [OF assms(1)]]
  by (fastforce simp: in_use_def matches_address_def pool_denote_def denote_def)

lemma pool_finite:
  assumes "zone_free_pool pool"
  shows "finite (pool_denote pool)" "rs_count (pool_set pool) (pool_family (pool_spec pool)) = int (card (pool_denote pool))"
proof -
  have wf: "wf_range_set (pool_set pool)" using pool_set_wf assms by blast
  have z: "\<forall>s \<in> set (pool_addresses (pool_spec pool)). zone_free s"
    using assms by (simp add: zone_free_pool_def)
  have "pool_denote pool = (\<Union>r \<in> set (ranges4 (pool_set pool)). range_addrs r) \<union>
      (\<Union>r \<in> set (ranges6 (pool_set pool)). range_addrs r)"
    by (auto simp: pool_denote_def denote_def all_ranges_def)
  then show "finite (pool_denote pool)"
    using walk4.ranges_count_card walk6.ranges_count_card wf by (auto simp: wf_range_set_def)
  have "get_ip_family a = pool_family (pool_spec pool) \<and> get_ip_family a \<in> {IPv4, IPv6}"
    if "a \<in> pool_denote pool" for a
    using that pool_denote_family [OF z] denote_family [OF wf]
    by (auto simp: pool_denote_def pool_set_def spec_addresses_def)
  then have "{a \<in> pool_denote pool. get_ip_family a = pool_family (pool_spec pool) \<and>
      pool_family (pool_spec pool) \<in> {IPv4, IPv6}} = pool_denote pool"
    by (intro set_eqI) (metis (mono_tags, lifting) mem_Collect_eq)
  then show "rs_count (pool_set pool) (pool_family (pool_spec pool)) = int (card (pool_denote pool))"
    using rs_count_card [OF wf] by (simp add: pool_denote_def)
qed

section \<open>Properties\<close>

text \<open>C33: A reconcile without error of a live pool that has its finalizer, when the texts carry no
  zones: exactly the allocations concerned that lack the annotation get it (they name the pool
  but hold no address of it), and then the status is written once, with the number of the pool's
  addresses, the number of distinct pool addresses in use, and their difference, which is never
  negative.\<close>

theorem pool_status_exact:
  assumes "pe_get env = Found pool" "contains_finalizer K (pool_meta pool) finalizer_name"
    and "\<not> obj_deleting (pool_meta pool)" "pe_allocs env = Inr allocs"
    and "zone_free_pool pool" "\<forall>a \<in> set allocs. zone_free (st_address (alloc_status a))"
    and "reconcile_pool K env = (None, calls)"
  shows "calls = map (\<lambda>a. AnnotateAllocation (alloc_name a))
      (filter (\<lambda>a. req_pool (alloc_spec a) = pool_name pool \<and> \<not> matches_address (pool_set pool) a \<and>
        obj_annotations (alloc_meta a) annotation_update = None) allocs) @
      [PatchPoolStatus ((pool_status pool)\<lparr>
         total_addresses := format_count (int (card (pool_denote pool))),
         allocated_addresses := format_count (int (card (in_use pool allocs))),
         free_addresses := format_count (int (card (pool_denote pool)) - int (card (in_use pool allocs)))\<rparr>)] \<and>
    in_use pool allocs \<subseteq> pool_denote pool \<and> card (in_use pool allocs) \<le> card (pool_denote pool)"
proof -
  obtain cs used where l: "pool_allocs_loop env (pool_name pool) (pool_set pool) False False allocs [] =
      (None, cs, used)"
    and c: "calls = cs @ [PatchPoolStatus (pool_counts (pool_set pool) (pool_family (pool_spec pool))
      (length used) (pool_status pool))]"
    using assms
    by (auto simp: reconcile_pool_def reconcile_pool_body_def pool_set_def Let_def
        split: prod.splits option.splits if_splits)
  have "cs = map (\<lambda>a. AnnotateAllocation (alloc_name a))
      (filter (\<lambda>a. req_pool (alloc_spec a) = pool_name pool \<and> \<not> matches_address (pool_set pool) a \<and>
        obj_annotations (alloc_meta a) annotation_update = None) allocs)"
    using pool_allocs_loop_calls [OF l] by (simp add: needs_trigger_def Let_def conj_assoc)
  moreover have "in_use pool allocs \<subseteq> pool_denote pool" by (rule in_use_sub [OF assms(5,6)])
  moreover have "card (in_use pool allocs) \<le> card (pool_denote pool)"
    using calculation(2) pool_finite(1) [OF assms(5)] by (rule card_mono [rotated])
  ultimately show ?thesis
    using c loop_in_use(2) [OF l] pool_finite(2) [OF assms(5)] by (simp add: pool_counts_def)
qed

definition quiet_pool_env :: "ip_pool \<Rightarrow> ip_allocation list \<Rightarrow> string pool_env" where
  "quiet_pool_env pool allocs =
     \<lparr>pe_get = Found pool, pe_patch = (\<lambda>_. None), pe_allocs = Inr allocs, pe_annotate = (\<lambda>_. None),
      pe_status = (\<lambda>_. None)\<rparr>"

definition held_pool :: "string list \<Rightarrow> ip_pool" where
  "held_pool ss = (sample_pool ''a'' ss)\<lparr>pool_meta :=
     (pool_meta (sample_pool ''a'' ss))\<lparr>obj_finalizers := [finalizer_name]\<rparr>\<rparr>"

theorem pool_status_exact_witness:
  "card (in_use (held_pool [''10.0.0.1-10.0.0.2'']) [sample_alloc ''x'' phase_programmed ''10.0.0.2'']) \<le>
     card (pool_denote (held_pool [''10.0.0.1-10.0.0.2'']))"
proof -
  let ?pool = "held_pool [''10.0.0.1-10.0.0.2'']"
  let ?allocs = "[sample_alloc ''x'' phase_programmed ''10.0.0.2'']"
  let ?r = "reconcile_pool plain_kube (quiet_pool_env ?pool ?allocs)"
  have "fst ?r = None" by code_simp
  then have r: "?r = (None, snd ?r)" by (metis prod.collapse)
  have "pe_get (quiet_pool_env ?pool ?allocs) = Found ?pool"
    "contains_finalizer plain_kube (pool_meta ?pool) finalizer_name" "\<not> obj_deleting (pool_meta ?pool)"
    "pe_allocs (quiet_pool_env ?pool ?allocs) = Inr ?allocs" "zone_free_pool ?pool"
    "\<forall>a \<in> set ?allocs. zone_free (st_address (alloc_status a))"
    by (simp_all add: quiet_pool_env_def held_pool_def plain_kube_def zone_free_pool_def sample_pool_def
        sample_alloc_def zone_free_def)
  from pool_status_exact [OF this r] show ?thesis by blast
qed

text \<open>An allocation that a deleted pool is concerned with: the address in its status is one of the
  pool's, or it asks for the pool by name.\<close>

definition concerned :: "ip_pool \<Rightarrow> ip_allocation \<Rightarrow> bool" where
  "concerned pool a \<longleftrightarrow> req_pool (alloc_spec a) = pool_name pool \<or>
     (\<exists>ip. parse_addr (st_address (alloc_status a)) = Some ip \<and> rs_contains (pool_set pool) ip)"

definition unasked :: "ip_pool \<Rightarrow> ip_allocation list \<Rightarrow> ip_allocation list" where
  "unasked pool allocs =
     filter (\<lambda>a. concerned pool a \<and> obj_annotations (alloc_meta a) ''mikrolb.de/update'' = None) allocs"

lemma parse_addr_empty: "parse_addr '''' = None"
  by (simp add: parse_addr_def)

lemma matches_address_iff:
  "matches_address s a \<longleftrightarrow> (\<exists>ip. parse_addr (st_address (alloc_status a)) = Some ip \<and> rs_contains s ip)"
  using parse_addr_valid [of "st_address (alloc_status a)"]
  by (cases "parse_addr (st_address (alloc_status a))")
    (auto simp: matches_address_def status_addr_def is_valid_def parse_addr_empty)

lemma unasked_eq: "unasked pool allocs = to_ask (pool_name pool) (pool_set pool) True False allocs"
  unfolding unasked_def to_ask_def
  by (rule filter_cong)
    (auto simp: concerned_def needs_trigger_def Let_def annotation_update_def matches_address_iff [symmetric])

text \<open>C32: The finalizer of a deleted pool is removed last, and only when every allocation that holds one
  of its addresses or asks for it by name carries the request to reconcile or has been given it
  without an error. The first request that fails ends the reconcile with its error, and the
  finalizer stays; so it does when the allocations cannot be listed. No status is written.\<close>

theorem pool_deletion_order:
  assumes "pe_get env = Found pool" "contains_finalizer K (pool_meta pool) finalizer_name"
    and "obj_deleting (pool_meta pool)" "reconcile_pool K env = (err, calls)"
  shows "case pe_allocs env of
      Inl e \<Rightarrow> err = Some e \<and> calls = []
    | Inr allocs \<Rightarrow>
        (let last = remove_finalizer K (pool_meta pool) finalizer_name in
         if \<forall>a \<in> set (unasked pool allocs). pe_annotate env a = None
         then calls = map (\<lambda>a. AnnotateAllocation (alloc_name a)) (unasked pool allocs) @ [PatchPool last] \<and>
           err = pe_patch env last
         else \<exists>ok a rest. unasked pool allocs = ok @ a # rest \<and> (\<forall>b \<in> set ok. pe_annotate env b = None) \<and>
           err = pe_annotate env a \<and> err \<noteq> None \<and>
           calls = map (\<lambda>b. AnnotateAllocation (alloc_name b)) (ok @ [a]))"
proof (cases "pe_allocs env")
  case (Inl e)
  then show ?thesis using assms by (simp add: reconcile_pool_def reconcile_pool_body_def)
next
  case (Inr allocs)
  obtain err' cs used where l: "pool_allocs_loop env (pool_name pool) (pool_set pool) True False allocs [] =
      (err', cs, used)" by (metis prod_cases3)
  then have r: "(err, calls) = (case err' of Some e \<Rightarrow> (Some e, cs)
      | None \<Rightarrow> (pe_patch env (remove_finalizer K (pool_meta pool) finalizer_name),
          cs @ [PatchPool (remove_finalizer K (pool_meta pool) finalizer_name)]))"
    using assms Inr
    by (cases err') (auto simp: reconcile_pool_def reconcile_pool_body_def pool_set_def Let_def)
  show ?thesis
  proof (cases err')
    case None
    then have "\<forall>a \<in> set (unasked pool allocs). pe_annotate env a = None"
      using pool_allocs_loop_asks l unfolding unasked_eq by blast
    moreover have "cs = map (\<lambda>a. AnnotateAllocation (alloc_name a)) (unasked pool allocs)"
      using pool_allocs_loop_calls l None unfolding unasked_eq to_ask_def by blast
    ultimately show ?thesis using r Inr None by simp
  next
    case (Some e)
    then obtain ok a rest where s: "unasked pool allocs = ok @ a # rest" "\<forall>b \<in> set ok. pe_annotate env b = None"
        "pe_annotate env a = Some e" "cs = map (\<lambda>b. AnnotateAllocation (alloc_name b)) (ok @ [a])"
      using pool_allocs_loop_stops [OF l [unfolded Some]] unfolding unasked_eq by blast
    then have n: "\<not> (\<forall>a \<in> set (unasked pool allocs). pe_annotate env a = None)" by simp
    have "err = Some e" "calls = cs" using r Some by simp_all
    then show ?thesis
      unfolding Inr sum.case Let_def if_not_P [OF n] using s
      by (intro exI [of _ ok] exI [of _ a] exI [of _ rest]) simp
  qed
qed

definition deleted_pool :: ip_pool where
  "deleted_pool = (held_pool [''10.0.0.2''])\<lparr>pool_meta :=
     (pool_meta (held_pool [''10.0.0.2'']))\<lparr>obj_deleting := True\<rparr>\<rparr>"

text \<open>The annotation of one allocation is refused.\<close>

definition refusing_env :: "string pool_env" where
  "refusing_env = (quiet_pool_env deleted_pool [sample_alloc ''x'' phase_programmed ''10.0.0.2''])
     \<lparr>pe_annotate := (\<lambda>_. Some ''refused'')\<rparr>"

theorem pool_deletion_order_witness:
  "reconcile_pool plain_kube (quiet_pool_env deleted_pool [sample_alloc ''x'' phase_programmed ''10.0.0.2'']) =
     (None, [AnnotateAllocation ''x'',
       PatchPool (remove_finalizer plain_kube (pool_meta deleted_pool) finalizer_name)]) \<and>
   reconcile_pool plain_kube refusing_env = (Some ''refused'', [AnnotateAllocation ''x''])"
proof -
  let ?a = "sample_alloc ''x'' phase_programmed ''10.0.0.2''"
  have c: "concerned deleted_pool ?a"
    by (auto simp: concerned_def matches_address_iff [symmetric]) code_simp
  have p: "contains_finalizer plain_kube (pool_meta deleted_pool) finalizer_name" "obj_deleting (pool_meta deleted_pool)"
    by (simp_all add: deleted_pool_def held_pool_def plain_kube_def sample_pool_def)
  have u: "unasked deleted_pool [?a] = [?a]" "alloc_name ?a = ''x''"
    using c by (simp_all add: unasked_def sample_alloc_def)
  obtain r1 r2 where r: "reconcile_pool plain_kube (quiet_pool_env deleted_pool [?a]) = r1"
    "reconcile_pool plain_kube refusing_env = r2" by blast
  have "pe_get (quiet_pool_env deleted_pool [?a]) = Found deleted_pool" "pe_get refusing_env = Found deleted_pool"
    by (simp_all add: quiet_pool_env_def refusing_env_def)
  then show ?thesis
    using pool_deletion_order [of "quiet_pool_env deleted_pool [?a]" deleted_pool plain_kube "fst r1" "snd r1"]
      pool_deletion_order [of refusing_env deleted_pool plain_kube "fst r2" "snd r2"] p r u
    by (cases r1; cases r2) (auto simp: quiet_pool_env_def refusing_env_def Cons_eq_append_conv)
qed

end
