(* ===== verification/Service.thy ===== *)
theory Service
  imports Allocation_Reconciler
begin

text \<open>
  \<open>internal/core/service.go\<close>: the service as the backend sees it, with its load balancer
  addresses, at most one source NAT address per family, and its endpoints.
\<close>

type_synonym port = "16 word"

record endpoint_port =
  ep_port :: port
  ep_target :: port
  ep_protocol :: string

record endpoint =
  ep_ips :: "addr list"
  ep_ports :: "endpoint_port list"

record service =
  svc_uid :: string
  svc_name :: string
  lb_enabled :: bool
  lb_ips :: "addr list"
  snat_enabled :: bool
  snat_ipv4 :: addr
  snat_ipv6 :: addr
  svc_endpoints :: "endpoint list"

text \<open>\<open>slices.Compact\<close> drops adjacent repetitions only.\<close>

definition get_all_ips :: "service \<Rightarrow> addr list" where
  "get_all_ips s = remdups_adj (lb_ips s @
     (if is_valid (snat_ipv4 s) then [snat_ipv4 s] else []) @
     (if is_valid (snat_ipv6 s) then [snat_ipv6 s] else []))"

definition has_lb_ip :: "service \<Rightarrow> ip_family \<Rightarrow> bool" where
  "has_lb_ip s family = list_ex (\<lambda>ip. get_ip_family ip = family) (lb_ips s)"

definition has_snat_ip :: "service \<Rightarrow> ip_family \<Rightarrow> bool" where
  "has_snat_ip s family = (if family = IPv4 then is_valid (snat_ipv4 s) else is_valid (snat_ipv6 s))"

end
