(* ===== verification/Service_Reconciler.thy ===== *)
theory Service_Reconciler
  imports Service
begin

text \<open>
  \<open>internal/controller/service_reconciler.go\<close>: one call of \<open>Reconcile\<close> for a Kubernetes
  service and the cleanup. The service's annotations become the expected allocations; stale
  allocations are deleted and missing ones created; the ready ones become the addresses of the
  \<open>core.Service\<close> that the backend programs. The client, the backend, SHA-256 and the check of
  a DNS subdomain name are parameters; the results are the error and the calls made, in order.
\<close>

section \<open>Kubernetes objects\<close>

record service_port =
  sp_name :: string
  sp_port :: int

record k8s_service =
  ks_meta :: object_meta
  ks_type :: string
  ks_class :: "string option"
  ks_families :: "ip_family list"
  ks_ports :: "service_port list"

record slice_endpoint =
  se_ready :: "bool option"
  se_terminating :: "bool option"
  se_addresses :: "string list"

record slice_port =
  sl_name :: "string option"
  sl_protocol :: "string option"
  sl_port :: "int option"

record endpoint_slice =
  sl_endpoints :: "slice_endpoint list"
  sl_ports :: "slice_port list"

record svc_config =
  cfg_class :: string
  cfg_default :: bool
  cfg_ip_mode :: bool

text \<open>An ingress address, and whether its IP mode is set to Proxy.\<close>

type_synonym ingress = "string \<times> bool"

datatype svc_call =
    PatchService object_meta
  | PatchIngress "ingress list"
  | DeleteAllocation string
  | CreateAllocation ip_allocation
  | EnsureService service
  | DeleteService string string
  | ListOwnedByUid string
  | ListOwnedByName string string
  | InvalidAnnotation string string

datatype 'e svc_error =
    SvcClient 'e
  | SvcBackend backend_error
  | SvcNotFreed "string list"

record 'e svc_env =
  sv_get :: "('e, k8s_service) get_result"
  sv_patch :: "object_meta \<Rightarrow> 'e option"
  sv_ingress :: "ingress list \<Rightarrow> 'e option"
  sv_allocs :: "'e + ip_allocation list"
  sv_owned :: "'e + ip_allocation list"
  sv_delete :: "ip_allocation \<Rightarrow> 'e option"
  sv_slices :: "'e + endpoint_slice list"
  sv_ensure :: "service \<Rightarrow> backend_error option"
  sv_delete_service :: "string \<Rightarrow> string \<Rightarrow> backend_error option"

type_synonym 'e svc_result = "'e svc_error option \<times> svc_call list"

definition annotation_lb_enabled :: string where "annotation_lb_enabled = ''mikrolb.de/load-balancer-enabled''"
definition annotation_lb_ips :: string where "annotation_lb_ips = ''mikrolb.de/load-balancer-ips''"
definition annotation_lb_pools :: string where "annotation_lb_pools = ''mikrolb.de/load-balancer-pools''"
definition annotation_snat_enabled :: string where "annotation_snat_enabled = ''mikrolb.de/snat-enabled''"
definition annotation_snat_ips :: string where "annotation_snat_ips = ''mikrolb.de/snat-ips''"
definition label_name :: string where "label_name = ''mikrolb.de/service-name''"
definition label_namespace :: string where "label_namespace = ''mikrolb.de/service-namespace''"
definition label_uid :: string where "label_uid = ''mikrolb.de/service-uid''"

section \<open>Cleanup\<close>

text \<open>The loop that deletes the allocations: the calls and the addresses that could not be freed.\<close>

fun delete_owned :: "'e svc_env \<Rightarrow> ip_allocation list \<Rightarrow> svc_call list \<times> string list" where
  "delete_owned env [] = ([], [])"
| "delete_owned env (a # as) =
     (case delete_owned env as of (calls, failed) \<Rightarrow>
        (DeleteAllocation (alloc_name a) # calls,
         if sv_delete env a = None then failed else st_address (alloc_status a) # failed))"

definition cleanup_service ::
  "'e svc_env \<Rightarrow> string \<Rightarrow> string \<Rightarrow> string \<Rightarrow> 'e svc_result" where
  "cleanup_service env namespace name uid =
     (let listing = (if trim_space uid = '''' then ListOwnedByName namespace name else ListOwnedByUid uid);
          key = namespace @ ''/'' @ name
      in case sv_owned env of
           Inl err \<Rightarrow> (Some (SvcClient err), [listing])
         | Inr allocs \<Rightarrow>
             (case sv_delete_service env key uid of
                Some err \<Rightarrow> (Some (SvcBackend err), [listing, DeleteService key uid])
              | None \<Rightarrow>
                  (case delete_owned env allocs of (calls, failed) \<Rightarrow>
                     (if length failed > 0 then Some (SvcNotFreed failed) else None,
                      [listing, DeleteService key uid] @ calls))))"

definition reconcile_unconfigured ::
  "kube_lib \<Rightarrow> 'e svc_env \<Rightarrow> k8s_service \<Rightarrow> 'e svc_result" where
  "reconcile_unconfigured K env svc =
     (let meta = ks_meta svc in
      if \<not> contains_finalizer K meta finalizer_name then (None, [])
      else
        (case cleanup_service env (obj_namespace meta) (obj_name meta) (obj_uid meta) of
           (Some err, calls) \<Rightarrow> (Some err, calls)
         | (None, calls) \<Rightarrow>
             (let meta' = remove_finalizer K meta finalizer_name in
              case sv_patch env meta' of
                Some err \<Rightarrow> (Some (SvcClient err), calls @ [PatchService meta'])
              | None \<Rightarrow>
                  if obj_deleting meta then (None, calls @ [PatchService meta'])
                  else (map_option SvcClient (sv_ingress env []),
                        calls @ [PatchService meta', PatchIngress []]))))"

section \<open>The expected allocations\<close>

text \<open>\<open>strconv.ParseBool\<close>: the value and whether it parsed; an error comes with false.\<close>

definition parse_bool :: "string \<Rightarrow> bool \<times> bool" where
  "parse_bool s =
     (if s \<in> {''1'', ''t'', ''T'', ''TRUE'', ''true'', ''True''} then (True, True)
      else if s \<in> {''0'', ''f'', ''F'', ''FALSE'', ''false'', ''False''} then (False, True)
      else (False, False))"

text \<open>The switch of one annotation: on by default, off when the value does not parse.\<close>

definition enabled_flag :: "k8s_service \<Rightarrow> string \<Rightarrow> bool \<times> svc_call list" where
  "enabled_flag svc key =
     (case obj_annotations (ks_meta svc) key of
        None \<Rightarrow> (True, [])
      | Some v \<Rightarrow> (case parse_bool v of
            (b, ok) \<Rightarrow> (b, if ok then [] else [InvalidAnnotation key v])))"

definition pool_spec_of :: "string \<Rightarrow> ipallocation_spec" where
  "pool_spec_of p = \<lparr>req_family = '''', req_pool = p, req_address = ''''\<rparr>"

definition address_spec_of :: "addr \<Rightarrow> ipallocation_spec" where
  "address_spec_of ip = \<lparr>req_family = '''', req_pool = '''', req_address = addr_string ip\<rparr>"

definition family_spec_of :: "ip_family \<Rightarrow> ipallocation_spec" where
  "family_spec_of f = \<lparr>req_family = f, req_pool = '''', req_address = ''''\<rparr>"

fun parse_pool_names :: "(string \<Rightarrow> bool) \<Rightarrow> string list \<Rightarrow> ipallocation_spec list \<times> svc_call list" where
  "parse_pool_names dns_ok [] = ([], [])"
| "parse_pool_names dns_ok (p # ps) =
     (case parse_pool_names dns_ok ps of (specs, calls) \<Rightarrow>
        if dns_ok (trim_space p) then (pool_spec_of (trim_space p) # specs, calls)
        else (specs, InvalidAnnotation annotation_lb_pools (trim_space p) # calls))"

text \<open>A comma-separated list of addresses: empty parts are skipped, invalid ones reported.\<close>

fun parse_ip_list :: "string \<Rightarrow> string list \<Rightarrow> addr list \<times> svc_call list" where
  "parse_ip_list key [] = ([], [])"
| "parse_ip_list key (p # ps) =
     (case parse_ip_list key ps of (ips, calls) \<Rightarrow>
        if trim_space p = '''' then (ips, calls)
        else (case parse_addr (trim_space p) of
          None \<Rightarrow> (ips, InvalidAnnotation key (trim_space p) # calls)
        | Some ip \<Rightarrow> (ip # ips, calls)))"

definition annotation_text :: "k8s_service \<Rightarrow> string \<Rightarrow> string option" where
  "annotation_text svc key =
     (case obj_annotations (ks_meta svc) key of Some v \<Rightarrow> if v = '''' then None else Some v | None \<Rightarrow> None)"

record wanted =
  w_lb_enabled :: bool
  w_snat_enabled :: bool
  w_lb_ips :: "addr list"
  w_snat_ips :: "addr list"
  w_use_lb :: bool
  w_specs :: "ipallocation_spec list"
  w_calls :: "svc_call list"

definition wanted_lb :: "(string \<Rightarrow> bool) \<Rightarrow> k8s_service \<Rightarrow> wanted" where
  "wanted_lb dns_ok svc =
     (let (en, c1) = enabled_flag svc annotation_lb_enabled;
          (pools, c2) = (case annotation_text svc annotation_lb_pools of
             None \<Rightarrow> ([], []) | Some v \<Rightarrow> parse_pool_names dns_ok (split_on (CHR '','') v));
          (ips, c3) = (case annotation_text svc annotation_lb_ips of
             None \<Rightarrow> ([], []) | Some v \<Rightarrow> parse_ip_list annotation_lb_ips (split_on (CHR '','') v));
          auto = (annotation_text svc annotation_lb_pools = None \<and> annotation_text svc annotation_lb_ips = None)
      in \<lparr>w_lb_enabled = en, w_snat_enabled = False, w_lb_ips = ips, w_snat_ips = [], w_use_lb = False,
          w_specs = pools @ map address_spec_of ips @ (if auto then map family_spec_of (ks_families svc) else []),
          w_calls = c1 @ c2 @ c3\<rparr>)"

definition wanted_snat :: "k8s_service \<Rightarrow> bool \<Rightarrow> wanted \<Rightarrow> wanted" where
  "wanted_snat svc is_lb w =
     (let (en, c1) = enabled_flag svc annotation_snat_enabled;
          w1 = w\<lparr>w_snat_enabled := en, w_calls := w_calls w @ c1\<rparr>
      in case annotation_text svc annotation_snat_ips of
           None \<Rightarrow> w1
         | Some v \<Rightarrow>
             if trim_space v = ''use-lb-ips'' then
               (if is_lb then w1\<lparr>w_use_lb := True\<rparr>
                else w1\<lparr>w_calls := w_calls w1 @ [InvalidAnnotation annotation_snat_ips v]\<rparr>)
             else (case parse_ip_list annotation_snat_ips (split_on (CHR '','') v) of (ips, c2) \<Rightarrow>
               w1\<lparr>w_snat_ips := ips, w_specs := w_specs w1 @ map address_spec_of ips,
                  w_calls := w_calls w1 @ c2\<rparr>))"

definition no_wanted :: wanted where
  "no_wanted = \<lparr>w_lb_enabled = False, w_snat_enabled = False, w_lb_ips = [], w_snat_ips = [],
     w_use_lb = False, w_specs = [], w_calls = []\<rparr>"

definition wanted_of :: "(string \<Rightarrow> bool) \<Rightarrow> k8s_service \<Rightarrow> bool \<Rightarrow> bool \<Rightarrow> wanted" where
  "wanted_of dns_ok svc is_lb is_snat =
     (let w = (if is_lb then wanted_lb dns_ok svc else no_wanted)
      in if is_snat then wanted_snat svc is_lb w else w)"

text \<open>\<open>slices.CompactFunc\<close> on the three fields, then the deterministic names.\<close>

definition expected_name :: "(string \<Rightarrow> byte list) \<Rightarrow> string \<Rightarrow> ipallocation_spec \<Rightarrow> string" where
  "expected_name sha uid sp =
     ''ip-'' @ hex_bytes (take 6 (sha (uid @ ''/'' @ req_address sp @ ''/'' @ req_pool sp @ ''/'' @ req_family sp)))"

definition expected_of ::
  "(string \<Rightarrow> byte list) \<Rightarrow> string \<Rightarrow> ipallocation_spec list \<Rightarrow> (string \<times> ipallocation_spec) list" where
  "expected_of sha uid specs = map (\<lambda>sp. (expected_name sha uid sp, sp)) (remdups_adj specs)"

section \<open>Synchronising the allocations\<close>

text \<open>A failed deletion or creation is logged and not retried here, so its answer plays no role.\<close>

definition is_expected :: "(string \<times> ipallocation_spec) list \<Rightarrow> ip_allocation \<Rightarrow> bool" where
  "is_expected expected a = list_ex (\<lambda>e. alloc_name a = fst e) expected"

definition delete_unexpected ::
  "(string \<times> ipallocation_spec) list \<Rightarrow> ip_allocation list \<Rightarrow> svc_call list" where
  "delete_unexpected expected allocs =
     map (\<lambda>a. DeleteAllocation (alloc_name a)) (filter (\<lambda>a. \<not> is_expected expected a) allocs)"

definition new_allocation :: "object_meta \<Rightarrow> string \<times> ipallocation_spec \<Rightarrow> ip_allocation" where
  "new_allocation meta e =
     \<lparr>alloc_meta = \<lparr>obj_name = fst e, obj_namespace = '''', obj_uid = '''', obj_generation = 0,
        obj_deleting = False, obj_finalizers = [], obj_annotations = Map.empty,
        obj_labels = [label_uid \<mapsto> obj_uid meta, label_name \<mapsto> obj_name meta,
          label_namespace \<mapsto> obj_namespace meta]\<rparr>,
      alloc_spec = snd e,
      alloc_status = \<lparr>st_phase = phase_pending, st_address = '''', st_advertised = False,
        st_interface = '''', st_conditions = [], st_observed = 0\<rparr>\<rparr>"

definition create_missing ::
  "object_meta \<Rightarrow> (string \<times> ipallocation_spec) list \<Rightarrow> ip_allocation list \<Rightarrow> svc_call list" where
  "create_missing meta expected allocs =
     map (\<lambda>e. CreateAllocation (new_allocation meta e))
       (filter (\<lambda>e. \<not> list_ex (\<lambda>a. alloc_name a = fst e) allocs) expected)"

section \<open>The allocated addresses\<close>

record allocated =
  al_lb :: "addr list"
  al_ingress :: "ingress list"
  al_snat4 :: addr
  al_snat6 :: addr

text \<open>The address of an allocation that counts: expected, Ready, with a valid address.\<close>

definition usable_address ::
  "kube_lib \<Rightarrow> (string \<times> ipallocation_spec) list \<Rightarrow> ip_allocation \<Rightarrow> addr option" where
  "usable_address K expected a =
     (if \<not> is_expected expected a then None
      else (case find_cond K (st_conditions (alloc_status a)) type_ready of
        None \<Rightarrow> None
      | Some c \<Rightarrow>
          if cond_status c \<noteq> cond_true then None
          else if st_address (alloc_status a) = '''' then None
          else parse_addr (st_address (alloc_status a))))"

definition family_served :: "ip_family list \<Rightarrow> addr \<Rightarrow> bool" where
  "family_served families ip \<longleftrightarrow>
     \<not> (is4 ip \<and> IPv4 \<notin> set families) \<and> \<not> (is6 ip \<and> IPv6 \<notin> set families)"

definition better_snat :: "addr \<Rightarrow> addr \<Rightarrow> bool" where
  "better_snat current ip \<longleftrightarrow> \<not> is_valid current \<or> addr_compare current ip < 0"

definition use_address :: "svc_config \<Rightarrow> wanted \<Rightarrow> ip_family list \<Rightarrow> addr \<Rightarrow> allocated \<Rightarrow> allocated" where
  "use_address cfg w families ip r =
     (let is_lb = (ip \<in> set (w_lb_ips w) \<or> ip \<notin> set (w_snat_ips w)) in
      if is_lb \<and> \<not> family_served families ip then r
      else
        (let r1 = (if is_lb then r\<lparr>al_lb := al_lb r @ [ip],
               al_ingress := al_ingress r @ [(addr_string ip, cfg_ip_mode cfg)]\<rparr> else r)
         in if ip \<in> set (w_snat_ips w) \<or> (w_use_lb w \<and> is_lb) then
              (let r2 = (if is4 ip \<and> better_snat (al_snat4 r1) ip then r1\<lparr>al_snat4 := ip\<rparr> else r1)
               in if is6 ip \<and> better_snat (al_snat6 r2) ip then r2\<lparr>al_snat6 := ip\<rparr> else r2)
            else r1))"

fun collect_addresses ::
  "kube_lib \<Rightarrow> svc_config \<Rightarrow> wanted \<Rightarrow> ip_family list \<Rightarrow> (string \<times> ipallocation_spec) list \<Rightarrow>
    ip_allocation list \<Rightarrow> allocated \<Rightarrow> allocated" where
  "collect_addresses K cfg w families expected [] r = r"
| "collect_addresses K cfg w families expected (a # as) r =
     (case usable_address K expected a of
        None \<Rightarrow> collect_addresses K cfg w families expected as r
      | Some ip \<Rightarrow> collect_addresses K cfg w families expected as (use_address cfg w families ip r))"

definition no_addresses :: allocated where
  "no_addresses = \<lparr>al_lb = [], al_ingress = [], al_snat4 = AddrNone, al_snat6 = AddrNone\<rparr>"

section \<open>The endpoints\<close>

text \<open>\<open>portsByName\<close>: a later port of the same name replaces an earlier one.\<close>

definition ports_by_name :: "service_port list \<Rightarrow> (string \<rightharpoonup> int)" where
  "ports_by_name ps = foldl (\<lambda>m p. m(sp_name p \<mapsto> sp_port p)) Map.empty ps"

fun parse_addresses :: "string list \<Rightarrow> addr list" where
  "parse_addresses [] = []"
| "parse_addresses (s # ss) =
     (case parse_addr s of None \<Rightarrow> parse_addresses ss | Some ip \<Rightarrow> ip # parse_addresses ss)"

definition endpoint_ips :: "slice_endpoint \<Rightarrow> addr list" where
  "endpoint_ips ep =
     (if se_ready ep = Some False then []
      else if se_terminating ep = Some True then []
      else parse_addresses (se_addresses ep))"

definition endpoint_port_of :: "(string \<rightharpoonup> int) \<Rightarrow> slice_port \<Rightarrow> endpoint_port list" where
  "endpoint_port_of by_name p =
     (case sl_port p of
        None \<Rightarrow> []
      | Some n \<Rightarrow>
          (case by_name (case sl_name p of None \<Rightarrow> '''' | Some nm \<Rightarrow> nm) of
             None \<Rightarrow> []
           | Some svc_port \<Rightarrow>
               [\<lparr>ep_port = of_int svc_port, ep_target = of_int n,
                 ep_protocol = (case sl_protocol p of None \<Rightarrow> ''TCP'' | Some pr \<Rightarrow> pr)\<rparr>]))"

definition slice_endpoints :: "(string \<rightharpoonup> int) \<Rightarrow> endpoint_slice \<Rightarrow> endpoint list" where
  "slice_endpoints by_name s =
     (let ips = concat (map endpoint_ips (sl_endpoints s));
          ports = concat (map (endpoint_port_of by_name) (sl_ports s))
      in if length ips > 0 \<and> length ports > 0 then [\<lparr>ep_ips = ips, ep_ports = ports\<rparr>] else [])"

section \<open>Reconcile\<close>

definition lb_configured :: "svc_config \<Rightarrow> k8s_service \<Rightarrow> bool" where
  "lb_configured cfg svc \<longleftrightarrow> ks_type svc = ''LoadBalancer'' \<and>
     (ks_class svc = Some (cfg_class cfg) \<or> (cfg_default cfg \<and> ks_class svc = None))"

definition snat_configured :: "k8s_service \<Rightarrow> bool" where
  "snat_configured svc \<longleftrightarrow> obj_annotations (ks_meta svc) annotation_snat_ips \<noteq> None"

definition core_service :: "k8s_service \<Rightarrow> wanted \<Rightarrow> allocated \<Rightarrow> endpoint list \<Rightarrow> service" where
  "core_service svc w al eps =
     \<lparr>svc_uid = obj_uid (ks_meta svc),
      svc_name = obj_namespace (ks_meta svc) @ ''/'' @ obj_name (ks_meta svc),
      lb_enabled = w_lb_enabled w, lb_ips = al_lb al, snat_enabled = w_snat_enabled w,
      snat_ipv4 = al_snat4 al, snat_ipv6 = al_snat6 al, svc_endpoints = eps\<rparr>"

definition reconcile_configured ::
  "kube_lib \<Rightarrow> svc_config \<Rightarrow> (string \<Rightarrow> byte list) \<Rightarrow> (string \<Rightarrow> bool) \<Rightarrow> 'e svc_env \<Rightarrow> k8s_service \<Rightarrow>
    'e svc_result" where
  "reconcile_configured K cfg sha dns_ok env svc =
     (let w = wanted_of dns_ok svc (lb_configured cfg svc) (snat_configured svc);
          expected = expected_of sha (obj_uid (ks_meta svc)) (w_specs w)
      in case sv_allocs env of
           Inl err \<Rightarrow> (Some (SvcClient err), w_calls w)
         | Inr allocs \<Rightarrow>
             (let calls1 = w_calls w @ delete_unexpected expected allocs @
                    create_missing (ks_meta svc) expected allocs;
                  al = collect_addresses K cfg w (ks_families svc) expected allocs no_addresses;
                  calls2 = calls1 @ [PatchIngress (al_ingress al)]
              in case sv_ingress env (al_ingress al) of
                   Some err \<Rightarrow> (Some (SvcClient err), calls2)
                 | None \<Rightarrow>
                     (case sv_slices env of
                        Inl err \<Rightarrow> (Some (SvcClient err), calls2)
                      | Inr slices \<Rightarrow>
                          (let eps = concat (map (slice_endpoints (ports_by_name (ks_ports svc))) slices);
                               s = core_service svc w al eps
                           in (map_option SvcBackend (sv_ensure env s), calls2 @ [EnsureService s])))))"

definition reconcile_service ::
  "kube_lib \<Rightarrow> svc_config \<Rightarrow> (string \<Rightarrow> byte list) \<Rightarrow> (string \<Rightarrow> bool) \<Rightarrow> 'e svc_env \<Rightarrow> 'e svc_result" where
  "reconcile_service K cfg sha dns_ok env =
     (case sv_get env of
        NotFound \<Rightarrow> (None, [])
      | GetError err \<Rightarrow> (Some (SvcClient err), [])
      | Found svc \<Rightarrow>
          if (\<not> lb_configured cfg svc \<and> \<not> snat_configured svc) \<or> obj_deleting (ks_meta svc)
          then reconcile_unconfigured K env svc
          else if \<not> contains_finalizer K (ks_meta svc) finalizer_name then
            (let meta = add_finalizer K (ks_meta svc) finalizer_name in
             (map_option SvcClient (sv_patch env meta), [PatchService meta]))
          else reconcile_configured K cfg sha dns_ok env svc)"

end
