(* ===== verification/Service_Props.thy ===== *)
theory Service_Props
  imports Service_Reconciler Allocation_Props
begin

text \<open>
  Properties of the service reconciler: the allocations it leaves, the addresses and endpoints
  it hands to the backend, and the order of the cleanup.
\<close>

section \<open>Lemmas\<close>

lemma is_expected_iff: "is_expected expected a \<longleftrightarrow> alloc_name a \<in> fst ` set expected"
  by (auto simp: is_expected_def list_ex_iff)

text \<open>The allocation names the calls leave in a cluster that starts with a set of names.\<close>

fun apply_call :: "svc_call \<Rightarrow> string set \<Rightarrow> string set" where
  "apply_call (DeleteAllocation n) names = names - {n}"
| "apply_call (CreateAllocation a) names = insert (alloc_name a) names"
| "apply_call _ names = names"

lemma apply_deletes:
  "fold apply_call (map (\<lambda>a. DeleteAllocation (alloc_name a)) as) names = names - alloc_name ` set as"
  by (induction as arbitrary: names) auto

lemma apply_creates:
  "fold apply_call (map (\<lambda>e. CreateAllocation (new_allocation meta e)) es) names = names \<union> fst ` set es"
  by (induction es arbitrary: names) (auto simp: new_allocation_def)

lemma invalid_calls:
  "\<forall>c \<in> set (snd (parse_pool_names dns_ok ps)). \<exists>k v. c = InvalidAnnotation k v"
  "\<forall>c \<in> set (snd (parse_ip_list key ps)). \<exists>k v. c = InvalidAnnotation k v"
  "\<forall>c \<in> set (snd (enabled_flag svc key)). \<exists>k v. c = InvalidAnnotation k v"
  by (induction ps) (auto simp: enabled_flag_def split: prod.splits option.splits)

lemma wanted_calls:
  "\<forall>c \<in> set (w_calls (wanted_of dns_ok svc is_lb is_snat)). \<exists>k v. c = InvalidAnnotation k v"
proof -
  have lb: "\<forall>c \<in> set (w_calls (wanted_lb dns_ok svc)). \<exists>k v. c = InvalidAnnotation k v"
    using invalid_calls
    by (auto simp: wanted_lb_def Let_def split: prod.splits option.splits) (metis snd_conv)+
  have snat: "\<forall>c \<in> set (w_calls (wanted_snat svc b w)). \<exists>k v. c = InvalidAnnotation k v"
    if "\<forall>c \<in> set (w_calls w). \<exists>k v. c = InvalidAnnotation k v" for b w
    using that invalid_calls(2,3)
    by (auto simp: wanted_snat_def Let_def split: prod.splits option.splits if_splits) (metis snd_conv)+
  have "\<forall>c \<in> set (w_calls (if is_lb then wanted_lb dns_ok svc else no_wanted)). \<exists>k v. c = InvalidAnnotation k v"
    using lb by (simp add: no_wanted_def)
  then show ?thesis using snat by (simp add: wanted_of_def Let_def)
qed

lemma apply_invalid:
  "\<forall>c \<in> set cs. \<exists>k v. c = InvalidAnnotation k v \<Longrightarrow> fold apply_call cs names = names"
  by (induction cs arbitrary: names) auto

text \<open>The names of the specifications wanted.\<close>

definition expected_names ::
  "svc_config \<Rightarrow> (string \<Rightarrow> byte list) \<Rightarrow> (string \<Rightarrow> bool) \<Rightarrow> k8s_service \<Rightarrow> string set" where
  "expected_names cfg sha dns_ok svc = expected_name sha (obj_uid (ks_meta svc)) `
     set (w_specs (wanted_of dns_ok svc (lb_configured cfg svc) (snat_configured svc)))"

lemma expected_of_names: "fst ` set (expected_of sha uid specs) = expected_name sha uid ` set specs"
  by (simp add: expected_of_def image_image)

lemma sync_names:
  "fold apply_call (delete_unexpected expected allocs @ create_missing meta expected allocs)
     (alloc_name ` set allocs) = fst ` set expected"
  by (auto simp: delete_unexpected_def create_missing_def apply_deletes apply_creates is_expected_iff
      list_ex_iff image_iff)

section \<open>The collected addresses\<close>

definition lb_kind :: "wanted \<Rightarrow> addr \<Rightarrow> bool" where
  "lb_kind w ip \<longleftrightarrow> ip \<in> set (w_lb_ips w) \<or> ip \<notin> set (w_snat_ips w)"

definition lb_address :: "wanted \<Rightarrow> ip_family list \<Rightarrow> addr \<Rightarrow> bool" where
  "lb_address w families ip \<longleftrightarrow> lb_kind w ip \<and> family_served families ip"

definition snat_source :: "wanted \<Rightarrow> ip_family list \<Rightarrow> addr \<Rightarrow> bool" where
  "snat_source w families ip \<longleftrightarrow>
     (ip \<in> set (w_snat_ips w) \<or> (w_use_lb w \<and> lb_kind w ip)) \<and>
     (lb_kind w ip \<longrightarrow> family_served families ip)"

text \<open>The greatest source NAT address of a family among a list, the zero \<open>Addr\<close> for none.\<close>

definition greatest_snat :: "(addr \<Rightarrow> bool) \<Rightarrow> addr list \<Rightarrow> addr \<Rightarrow> bool" where
  "greatest_snat P ips a \<longleftrightarrow>
     (if \<exists>ip \<in> set ips. P ip then a \<in> set ips \<and> P a \<and> (\<forall>ip \<in> set ips. P ip \<longrightarrow> ip \<le> a) else a = AddrNone)"

lemma greatest_snat_step:
  assumes "greatest_snat P ips a" "P ip \<Longrightarrow> is_valid ip" "\<forall>x \<in> set ips. P x \<longrightarrow> is_valid x"
  shows "greatest_snat P (ips @ [ip]) (if P ip \<and> better_snat a ip then ip else a)"
proof (cases "\<exists>x \<in> set ips. P x")
  case True
  then have "is_valid a" "P a" "a \<in> set ips" "\<forall>x \<in> set ips. P x \<longrightarrow> x \<le> a"
    using assms by (auto simp: greatest_snat_def)
  then show ?thesis
    by (auto simp: greatest_snat_def better_snat_def)
next
  case False
  then have "a = AddrNone" using assms(1) by (simp add: greatest_snat_def)
  then show ?thesis using False by (auto simp: greatest_snat_def better_snat_def is_valid_def)
qed

text \<open>What holds of the collected addresses, for the usable addresses seen so far.\<close>

definition collected :: "svc_config \<Rightarrow> wanted \<Rightarrow> ip_family list \<Rightarrow> addr list \<Rightarrow> allocated \<Rightarrow> bool" where
  "collected cfg w families ips r \<longleftrightarrow>
     al_lb r = filter (lb_address w families) ips \<and>
     al_ingress r = map (\<lambda>ip. (addr_string ip, cfg_ip_mode cfg)) (al_lb r) \<and>
     greatest_snat (\<lambda>ip. is4 ip \<and> snat_source w families ip) ips (al_snat4 r) \<and>
     greatest_snat (\<lambda>ip. is6 ip \<and> snat_source w families ip) ips (al_snat6 r)"

lemma is46_excl: "is4 ip \<Longrightarrow> \<not> is6 ip"
  by (cases ip) auto

lemma is46_valid: "is4 ip \<Longrightarrow> is_valid ip" "is6 ip \<Longrightarrow> is_valid ip"
  by (cases ip; simp add: is_valid_def)+

lemma use_address_fields:
  "al_lb (use_address cfg w families ip r) = al_lb r @ (if lb_address w families ip then [ip] else [])"
  "al_ingress (use_address cfg w families ip r) =
     al_ingress r @ (if lb_address w families ip then [(addr_string ip, cfg_ip_mode cfg)] else [])"
  "al_snat4 (use_address cfg w families ip r) =
     (if (is4 ip \<and> snat_source w families ip) \<and> better_snat (al_snat4 r) ip then ip else al_snat4 r)"
  "al_snat6 (use_address cfg w families ip r) =
     (if (is6 ip \<and> snat_source w families ip) \<and> better_snat (al_snat6 r) ip then ip else al_snat6 r)"
  by (auto simp: use_address_def Let_def lb_address_def snat_source_def lb_kind_def)

lemma use_address_collected:
  assumes "collected cfg w families ips r"
  shows "collected cfg w families (ips @ [ip]) (use_address cfg w families ip r)"
  using assms greatest_snat_step [of "\<lambda>ip. is4 ip \<and> snat_source w families ip" ips "al_snat4 r" ip]
    greatest_snat_step [of "\<lambda>ip. is6 ip \<and> snat_source w families ip" ips "al_snat6 r" ip] is46_valid
  by (simp add: collected_def use_address_fields)

lemma collect_collected:
  assumes "collected cfg w families ips r"
  shows "collected cfg w families (ips @ List.map_filter (usable_address K expected) as)
    (collect_addresses K cfg w families expected as r)"
  using assms
proof (induction as arbitrary: ips r)
  case (Cons a as)
  show ?case
  proof (cases "usable_address K expected a")
    case None
    then show ?thesis using Cons by (simp add: map_filter_simps)
  next
    case (Some ip)
    then show ?thesis
      using Cons.IH [OF use_address_collected [OF Cons.prems, of ip]] by (simp add: map_filter_simps)
  qed
qed (simp add: map_filter_simps)

lemma collect_from_none:
  "collected cfg w families (List.map_filter (usable_address K expected) as)
     (collect_addresses K cfg w families expected as no_addresses)"
  using collect_collected [of cfg w families "[]" no_addresses]
  by (simp add: collected_def no_addresses_def greatest_snat_def)

section \<open>Endpoints and cleanup\<close>

lemma set_parse_addresses: "set (parse_addresses ss) = {ip. \<exists>s \<in> set ss. parse_addr s = Some ip}"
  by (induction ss) (auto split: option.splits)

text \<open>Live: not marked unready and not marked terminating.\<close>

definition live_endpoint :: "slice_endpoint \<Rightarrow> bool" where
  "live_endpoint ep \<longleftrightarrow> se_ready ep \<noteq> Some False \<and> se_terminating ep \<noteq> Some True"

lemma set_endpoint_ips:
  "set (endpoint_ips ep) =
    {ip. live_endpoint ep \<and> (\<exists>s \<in> set (se_addresses ep). parse_addr s = Some ip)}"
  by (simp add: endpoint_ips_def live_endpoint_def set_parse_addresses)

lemma endpoint_port_of_set:
  "p \<in> set (endpoint_port_of by_name q) \<Longrightarrow> \<exists>n m. sl_port q = Some n \<and>
     by_name (case sl_name q of None \<Rightarrow> '''' | Some x \<Rightarrow> x) = Some m \<and>
     ep_target p = of_int n \<and> ep_port p = of_int m"
  by (cases "sl_port q"; cases "by_name (case sl_name q of None \<Rightarrow> '''' | Some x \<Rightarrow> x)")
    (simp_all add: endpoint_port_of_def)

lemma slice_endpoints_set:
  assumes "e \<in> set (slice_endpoints by_name s)"
  shows "ep_ips e \<noteq> []" "ep_ports e \<noteq> []"
    "set (ep_ips e) = {ip. \<exists>ep \<in> set (sl_endpoints s). live_endpoint ep \<and>
      (\<exists>t \<in> set (se_addresses ep). parse_addr t = Some ip)}"
    "\<forall>p \<in> set (ep_ports e). \<exists>q \<in> set (sl_ports s). p \<in> set (endpoint_port_of by_name q)"
proof -
  have e: "e = \<lparr>ep_ips = concat (map endpoint_ips (sl_endpoints s)),
      ep_ports = concat (map (endpoint_port_of by_name) (sl_ports s))\<rparr>"
    and ne: "concat (map endpoint_ips (sl_endpoints s)) \<noteq> []"
      "concat (map (endpoint_port_of by_name) (sl_ports s)) \<noteq> []"
    using assms unfolding slice_endpoints_def Let_def by (simp_all split: if_splits)
  show "ep_ips e \<noteq> []" "ep_ports e \<noteq> []" using e ne by simp_all
  show "set (ep_ips e) = {ip. \<exists>ep \<in> set (sl_endpoints s). live_endpoint ep \<and>
      (\<exists>t \<in> set (se_addresses ep). parse_addr t = Some ip)}"
    unfolding e by (auto simp: set_endpoint_ips)
  show "\<forall>p \<in> set (ep_ports e). \<exists>q \<in> set (sl_ports s). p \<in> set (endpoint_port_of by_name q)"
    unfolding e by auto
qed

text \<open>The calls of a configured reconcile whose listing succeeds, and what may follow them.\<close>

abbreviation wanted_by :: "(string \<Rightarrow> bool) \<Rightarrow> svc_config \<Rightarrow> k8s_service \<Rightarrow> wanted" where
  "wanted_by dns_ok cfg svc \<equiv> wanted_of dns_ok svc (lb_configured cfg svc) (snat_configured svc)"

abbreviation expected_by ::
  "(string \<Rightarrow> byte list) \<Rightarrow> (string \<Rightarrow> bool) \<Rightarrow> svc_config \<Rightarrow> k8s_service \<Rightarrow> (string \<times> ipallocation_spec) list" where
  "expected_by sha dns_ok cfg svc \<equiv>
     expected_of sha (obj_uid (ks_meta svc)) (w_specs (wanted_by dns_ok cfg svc))"

abbreviation collected_by where
  "collected_by K cfg sha dns_ok svc allocs \<equiv>
     collect_addresses K cfg (wanted_by dns_ok cfg svc) (ks_families svc) (expected_by sha dns_ok cfg svc)
       allocs no_addresses"

lemma configured_calls:
  assumes "sv_allocs env = Inr allocs"
  shows "\<exists>rest. snd (reconcile_configured K cfg sha dns_ok env svc) =
      w_calls (wanted_by dns_ok cfg svc) @ delete_unexpected (expected_by sha dns_ok cfg svc) allocs @
      create_missing (ks_meta svc) (expected_by sha dns_ok cfg svc) allocs @
      PatchIngress (al_ingress (collected_by K cfg sha dns_ok svc allocs)) # rest \<and>
    (rest = [] \<or> (\<exists>slices. sv_slices env = Inr slices \<and>
      rest = [EnsureService (core_service svc (wanted_by dns_ok cfg svc)
        (collected_by K cfg sha dns_ok svc allocs)
        (concat (map (slice_endpoints (ports_by_name (ks_ports svc))) slices)))]))"
proof (cases "sv_ingress env (al_ingress (collected_by K cfg sha dns_ok svc allocs))")
  case (Some err)
  then show ?thesis using assms by (simp add: reconcile_configured_def Let_def)
next
  case None
  then show ?thesis using assms
    by (cases "sv_slices env") (simp_all add: reconcile_configured_def Let_def)
qed

lemma configured_ensure:
  assumes "EnsureService s \<in> set (snd (reconcile_configured K cfg sha dns_ok env svc))"
  obtains allocs slices where "sv_allocs env = Inr allocs" "sv_slices env = Inr slices"
    "s = core_service svc (wanted_by dns_ok cfg svc) (collected_by K cfg sha dns_ok svc allocs)
      (concat (map (slice_endpoints (ports_by_name (ks_ports svc))) slices))"
proof -
  have w: "EnsureService s \<notin> set (w_calls (wanted_by dns_ok cfg svc))"
    using wanted_calls by blast
  obtain allocs where a: "sv_allocs env = Inr allocs"
    using assms w by (cases "sv_allocs env") (auto simp: reconcile_configured_def Let_def)
  from configured_calls [OF a, of K cfg sha dns_ok svc] show ?thesis
    using assms w a that by (auto simp: delete_unexpected_def create_missing_def)
qed

lemma delete_owned_eq:
  "delete_owned env as =
     (map (\<lambda>a. DeleteAllocation (alloc_name a)) as,
      map (\<lambda>a. st_address (alloc_status a)) (filter (\<lambda>a. sv_delete env a \<noteq> None) as))"
  by (induction as) auto

text \<open>The backend deleted the rules and all owned allocations could be deleted.\<close>

definition cleanup_ok :: "'e svc_env \<Rightarrow> k8s_service \<Rightarrow> ip_allocation list \<Rightarrow> bool" where
  "cleanup_ok env svc allocs \<longleftrightarrow> sv_owned env = Inr allocs \<and>
     sv_delete_service env (obj_namespace (ks_meta svc) @ ''/'' @ obj_name (ks_meta svc)) (obj_uid (ks_meta svc)) = None \<and>
     (\<forall>a \<in> set allocs. sv_delete env a = None)"

definition cleanup_calls :: "k8s_service \<Rightarrow> ip_allocation list \<Rightarrow> svc_call list" where
  "cleanup_calls svc allocs =
     [if trim_space (obj_uid (ks_meta svc)) = ''''
      then ListOwnedByName (obj_namespace (ks_meta svc)) (obj_name (ks_meta svc))
      else ListOwnedByUid (obj_uid (ks_meta svc)),
      DeleteService (obj_namespace (ks_meta svc) @ ''/'' @ obj_name (ks_meta svc)) (obj_uid (ks_meta svc))] @
     map (\<lambda>a. DeleteAllocation (alloc_name a)) allocs"

lemma cleanup_service_cases:
  "(\<exists>allocs. cleanup_ok env svc allocs \<and>
      cleanup_service env (obj_namespace (ks_meta svc)) (obj_name (ks_meta svc)) (obj_uid (ks_meta svc)) =
        (None, cleanup_calls svc allocs)) \<or>
   (\<exists>err calls. (\<forall>allocs. \<not> cleanup_ok env svc allocs) \<and> (\<forall>m. PatchService m \<notin> set calls) \<and>
      cleanup_service env (obj_namespace (ks_meta svc)) (obj_name (ks_meta svc)) (obj_uid (ks_meta svc)) =
        (Some err, calls))"
proof (cases "sv_owned env")
  case (Inl e)
  then show ?thesis by (simp add: cleanup_service_def cleanup_ok_def Let_def)
next
  case owned: (Inr allocs)
  let ?key = "obj_namespace (ks_meta svc) @ ''/'' @ obj_name (ks_meta svc)"
  show ?thesis
  proof (cases "sv_delete_service env ?key (obj_uid (ks_meta svc))")
    case (Some e)
    then show ?thesis using owned by (simp add: cleanup_service_def cleanup_ok_def Let_def)
  next
    case None
    show ?thesis
    proof (cases "\<forall>a \<in> set allocs. sv_delete env a = None")
      case True
      then have "filter (\<lambda>a. sv_delete env a \<noteq> None) allocs = []" by (simp add: filter_empty_conv)
      then show ?thesis using owned None True
        by (simp add: cleanup_service_def cleanup_ok_def cleanup_calls_def Let_def delete_owned_eq)
    next
      case False
      then have "filter (\<lambda>a. sv_delete env a \<noteq> None) allocs \<noteq> []" by (simp add: filter_empty_conv)
      then show ?thesis using owned None False
        by (auto simp: cleanup_service_def cleanup_ok_def Let_def delete_owned_eq)
    qed
  qed
qed

section \<open>Properties\<close>

text \<open>The deletions and creations among the calls.\<close>

definition alloc_changes :: "svc_call list \<Rightarrow> svc_call list" where
  "alloc_changes calls =
     filter (\<lambda>c. case c of DeleteAllocation _ \<Rightarrow> True | CreateAllocation _ \<Rightarrow> True | _ \<Rightarrow> False) calls"

lemma alloc_changes_simps [simp]:
  "alloc_changes (xs @ ys) = alloc_changes xs @ alloc_changes ys"
  "alloc_changes [] = []" "alloc_changes (PatchIngress i # cs) = alloc_changes cs"
  "alloc_changes (EnsureService t # cs) = alloc_changes cs"
  by (simp_all add: alloc_changes_def)

lemma alloc_changes_kinds:
  "\<forall>c \<in> set cs. \<exists>k v. c = InvalidAnnotation k v \<Longrightarrow> alloc_changes cs = []"
  "alloc_changes (map (\<lambda>a. DeleteAllocation (f a)) as) = map (\<lambda>a. DeleteAllocation (f a)) as"
  "alloc_changes (map (\<lambda>e. CreateAllocation (g e)) es) = map (\<lambda>e. CreateAllocation (g e)) es"
  by (auto simp: alloc_changes_def filter_empty_conv o_def split: svc_call.splits)

lemma alloc_changes_names: "fold apply_call (alloc_changes cs) names = fold apply_call cs names"
proof (induction cs arbitrary: names)
  case (Cons c cs)
  then show ?case by (cases c) (simp_all add: alloc_changes_def)
qed simp

lemma configured_changes:
  assumes "sv_allocs env = Inr allocs"
  shows "alloc_changes (snd (reconcile_configured K cfg sha dns_ok env svc)) =
    delete_unexpected (expected_by sha dns_ok cfg svc) allocs @
    create_missing (ks_meta svc) (expected_by sha dns_ok cfg svc) allocs"
  using configured_calls [OF assms, of K cfg sha dns_ok svc]
  by (auto simp: alloc_changes_kinds(1) [OF wanted_calls] delete_unexpected_def create_missing_def
      alloc_changes_kinds(2,3))

text \<open>C26: Once the allocations of a configured service are listed, and whatever call fails, the
  reconcile deletes exactly the listed allocations whose names are not expected and then creates,
  in order, one allocation for each expected name that is not listed: pending, without address,
  with the wanted specification and the labels of the service. The others it leaves alone, so that
  the names that remain, when the calls succeed, are the expected ones.\<close>

theorem service_allocations_synced:
  assumes "sv_allocs env = Inr allocs"
  shows "(\<exists>new. alloc_changes (snd (reconcile_configured K cfg sha dns_ok env svc)) =
        map (\<lambda>a. DeleteAllocation (alloc_name a))
          (filter (\<lambda>a. alloc_name a \<notin> expected_names cfg sha dns_ok svc) allocs) @ map CreateAllocation new \<and>
      map (\<lambda>b. (alloc_name b, alloc_spec b)) new =
        filter (\<lambda>e. fst e \<notin> alloc_name ` set allocs)
          (map (\<lambda>sp. (expected_name sha (obj_uid (ks_meta svc)) sp, sp))
            (remdups_adj (w_specs (wanted_by dns_ok cfg svc)))) \<and>
      (\<forall>b \<in> set new. st_phase (alloc_status b) = phase_pending \<and> st_address (alloc_status b) = '''' \<and>
        obj_labels (alloc_meta b) = [label_uid \<mapsto> obj_uid (ks_meta svc), label_name \<mapsto> obj_name (ks_meta svc),
          label_namespace \<mapsto> obj_namespace (ks_meta svc)])) \<and>
    fold apply_call (snd (reconcile_configured K cfg sha dns_ok env svc)) (alloc_name ` set allocs) =
      expected_names cfg sha dns_ok svc"
proof (rule conjI)
  let ?exp = "expected_by sha dns_ok cfg svc"
  let ?new = "map (new_allocation (ks_meta svc)) (filter (\<lambda>e. fst e \<notin> alloc_name ` set allocs) ?exp)"
  have exp: "is_expected ?exp a \<longleftrightarrow> alloc_name a \<in> expected_names cfg sha dns_ok svc" for a
    by (simp add: is_expected_iff expected_of_names expected_names_def)
  have miss: "list_ex (\<lambda>a. alloc_name a = n) allocs \<longleftrightarrow> n \<in> alloc_name ` set allocs" for n
    by (auto simp: list_ex_iff)
  have new: "map (\<lambda>b. (alloc_name b, alloc_spec b)) ?new = filter (\<lambda>e. fst e \<notin> alloc_name ` set allocs) ?exp"
    by (simp add: new_allocation_def o_def)
  have "alloc_changes (snd (reconcile_configured K cfg sha dns_ok env svc)) =
      map (\<lambda>a. DeleteAllocation (alloc_name a))
        (filter (\<lambda>a. alloc_name a \<notin> expected_names cfg sha dns_ok svc) allocs) @ map CreateAllocation ?new"
    unfolding configured_changes [OF assms] delete_unexpected_def create_missing_def exp miss by simp
  then show "\<exists>new. alloc_changes (snd (reconcile_configured K cfg sha dns_ok env svc)) =
        map (\<lambda>a. DeleteAllocation (alloc_name a))
          (filter (\<lambda>a. alloc_name a \<notin> expected_names cfg sha dns_ok svc) allocs) @ map CreateAllocation new \<and>
      map (\<lambda>b. (alloc_name b, alloc_spec b)) new =
        filter (\<lambda>e. fst e \<notin> alloc_name ` set allocs)
          (map (\<lambda>sp. (expected_name sha (obj_uid (ks_meta svc)) sp, sp))
            (remdups_adj (w_specs (wanted_by dns_ok cfg svc)))) \<and>
      (\<forall>b \<in> set new. st_phase (alloc_status b) = phase_pending \<and> st_address (alloc_status b) = '''' \<and>
        obj_labels (alloc_meta b) = [label_uid \<mapsto> obj_uid (ks_meta svc), label_name \<mapsto> obj_name (ks_meta svc),
          label_namespace \<mapsto> obj_namespace (ks_meta svc)])"
    using new by (intro exI [of _ ?new]) (auto simp: expected_of_def new_allocation_def)
  show "fold apply_call (snd (reconcile_configured K cfg sha dns_ok env svc)) (alloc_name ` set allocs) =
      expected_names cfg sha dns_ok svc"
    unfolding alloc_changes_names [of "snd _", symmetric] configured_changes [OF assms] sync_names
    by (simp add: expected_of_names expected_names_def)
qed

definition sample_service :: "(string \<rightharpoonup> string) \<Rightarrow> k8s_service" where
  "sample_service annotations =
     \<lparr>ks_meta = \<lparr>obj_name = ''web'', obj_namespace = ''ns'', obj_uid = ''u1'', obj_generation = 1,
        obj_deleting = False, obj_finalizers = [finalizer_name], obj_annotations = annotations,
        obj_labels = Map.empty\<rparr>,
      ks_type = ''LoadBalancer'', ks_class = Some ''lb'', ks_families = [IPv4],
      ks_ports = [\<lparr>sp_name = ''http'', sp_port = 80\<rparr>]\<rparr>"

definition sample_config :: svc_config where
  "sample_config = \<lparr>cfg_class = ''lb'', cfg_default = False, cfg_ip_mode = True\<rparr>"

definition ready_alloc :: "string \<Rightarrow> string \<Rightarrow> ip_allocation" where
  "ready_alloc name address =
     (sample_alloc name phase_programmed address)\<lparr>alloc_status :=
        (alloc_status (sample_alloc name phase_programmed address))\<lparr>st_conditions :=
          [mk_condition type_ready cond_true '''' '''' 1]\<rparr>\<rparr>"

definition quiet_svc_env ::
  "k8s_service \<Rightarrow> ip_allocation list \<Rightarrow> endpoint_slice list \<Rightarrow> string svc_env" where
  "quiet_svc_env svc allocs slices =
     \<lparr>sv_get = Found svc, sv_patch = (\<lambda>_. None), sv_ingress = (\<lambda>_. None), sv_allocs = Inr allocs,
      sv_owned = Inr allocs, sv_delete = (\<lambda>_. None), sv_slices = Inr slices, sv_ensure = (\<lambda>_. None),
      sv_delete_service = (\<lambda>_ _. None)\<rparr>"

text \<open>A service of both families, and a digest that tells them apart.\<close>

definition dual_service :: k8s_service where
  "dual_service = (sample_service Map.empty)\<lparr>ks_families := [IPv4, IPv6]\<rparr>"

definition rev_hash :: "string \<Rightarrow> byte list" where
  "rev_hash s = map (\<lambda>c. of_nat (of_char c)) (rev s)"

theorem service_allocations_synced_witness:
  "\<exists>b. alloc_changes (snd (reconcile_configured plain_kube sample_config rev_hash (\<lambda>_. True)
      (quiet_svc_env dual_service [ready_alloc ''stale'' ''10.0.0.1'', ready_alloc ''ip-347650492f2f'' ''10.0.0.2''] [])
      dual_service)) = [DeleteAllocation ''stale'', CreateAllocation b] \<and>
    alloc_name b = ''ip-367650492f2f'' \<and> alloc_spec b = family_spec_of IPv6"
proof -
  let ?as = "[ready_alloc ''stale'' ''10.0.0.1'', ready_alloc ''ip-347650492f2f'' ''10.0.0.2'']"
  have n: "map alloc_name ?as = [''stale'', ''ip-347650492f2f'']"
    by (simp add: ready_alloc_def sample_alloc_def)
  have w: "map (\<lambda>sp. (expected_name rev_hash (obj_uid (ks_meta dual_service)) sp, sp))
      (remdups_adj (w_specs (wanted_by (\<lambda>_. True) sample_config dual_service))) =
      [(''ip-347650492f2f'', family_spec_of IPv4), (''ip-367650492f2f'', family_spec_of IPv6)]"
    by code_simp
  have "expected_names sample_config rev_hash (\<lambda>_. True) dual_service =
      fst ` set (map (\<lambda>sp. (expected_name rev_hash (obj_uid (ks_meta dual_service)) sp, sp))
        (remdups_adj (w_specs (wanted_by (\<lambda>_. True) sample_config dual_service))))"
    by (simp add: expected_names_def image_image)
  then have e: "expected_names sample_config rev_hash (\<lambda>_. True) dual_service = {''ip-347650492f2f'', ''ip-367650492f2f''}"
    unfolding w by simp
  have "sv_allocs (quiet_svc_env dual_service ?as []) = Inr ?as" by (simp add: quiet_svc_env_def)
  from conjunct1 [OF service_allocations_synced [OF this, of plain_kube sample_config rev_hash "\<lambda>_. True" dual_service]]
  show ?thesis
    unfolding w e using n by (auto simp: map_eq_Cons_conv)
qed

text \<open>The address of an allocation of one of the given names, when its condition Ready is True.\<close>

definition ready_address :: "kube_lib \<Rightarrow> string set \<Rightarrow> ip_allocation \<Rightarrow> addr option" where
  "ready_address K names a =
     (if alloc_name a \<in> names \<and> (case find_cond K (st_conditions (alloc_status a)) ''Ready'' of
          None \<Rightarrow> False | Some c \<Rightarrow> cond_status c = ''True'')
      then parse_addr (st_address (alloc_status a)) else None)"

lemma usable_address_eq:
  "usable_address K (expected_by sha dns_ok cfg svc) a = ready_address K (expected_names cfg sha dns_ok svc) a"
proof -
  have "parse_addr '''' = None" by (simp add: parse_addr_def)
  then show ?thesis
    by (auto simp: usable_address_def ready_address_def is_expected_iff expected_of_names expected_names_def
        type_ready_def cond_true_def split: option.splits)
qed

text \<open>C28: The service handed to the backend: its load balancer addresses are those of the listed
  allocations that have an expected name, whose condition Ready is True and whose address is valid, in
  order, without the ones requested for source NAT alone and without families the service does
  not have; the ingress written before names the same addresses; and each source NAT address is
  the greatest eligible one of its family among them.\<close>

theorem service_backend_addresses:
  assumes "EnsureService s \<in> set (snd (reconcile_configured K cfg sha dns_ok env svc))"
  shows "\<exists>allocs ips. sv_allocs env = Inr allocs \<and>
    ips = List.map_filter (ready_address K (expected_names cfg sha dns_ok svc)) allocs \<and>
    lb_ips s = filter (lb_address (wanted_by dns_ok cfg svc) (ks_families svc)) ips \<and>
    PatchIngress (map (\<lambda>ip. (addr_string ip, cfg_ip_mode cfg)) (lb_ips s)) \<in>
      set (snd (reconcile_configured K cfg sha dns_ok env svc)) \<and>
    greatest_snat (\<lambda>ip. is4 ip \<and> snat_source (wanted_by dns_ok cfg svc) (ks_families svc) ip) ips (snat_ipv4 s) \<and>
    greatest_snat (\<lambda>ip. is6 ip \<and> snat_source (wanted_by dns_ok cfg svc) (ks_families svc) ip) ips (snat_ipv6 s)"
proof -
  obtain allocs slices where a: "sv_allocs env = Inr allocs"
    and s: "s = core_service svc (wanted_by dns_ok cfg svc) (collected_by K cfg sha dns_ok svc allocs)
      (concat (map (slice_endpoints (ports_by_name (ks_ports svc))) slices))"
    using configured_ensure [OF assms] by blast
  have "usable_address K (expected_by sha dns_ok cfg svc) = ready_address K (expected_names cfg sha dns_ok svc)"
    by (rule ext) (rule usable_address_eq)
  then have "collected cfg (wanted_by dns_ok cfg svc) (ks_families svc)
      (List.map_filter (ready_address K (expected_names cfg sha dns_ok svc)) allocs)
      (collected_by K cfg sha dns_ok svc allocs)"
    using collect_from_none [of cfg _ _ K "expected_by sha dns_ok cfg svc"] by simp
  moreover have "PatchIngress (al_ingress (collected_by K cfg sha dns_ok svc allocs)) \<in>
      set (snd (reconcile_configured K cfg sha dns_ok env svc))"
    using configured_calls [OF a, of K cfg sha dns_ok svc] by auto
  ultimately show ?thesis using a s by (simp add: collected_def core_service_def)
qed

lemma ensured_call:
  assumes "case cs of [PatchIngress _, EnsureService _] \<Rightarrow> True | _ \<Rightarrow> False"
  obtains s where "EnsureService s \<in> set cs"
proof -
  obtain c1 r1 where 1: "cs = c1 # r1" using assms by (cases cs) auto
  obtain i where 2: "c1 = PatchIngress i" using assms 1 by (cases c1) auto
  obtain c2 r2 where 3: "r1 = c2 # r2" using assms 1 2 by (cases r1) auto
  obtain s where "c2 = EnsureService s" using assms 1 2 3 by (cases c2) auto
  then have "EnsureService s \<in> set cs" using 1 3 by simp
  then show ?thesis by (rule that)
qed

text \<open>Of three allocations with addresses one is expected and ready, one is not ready, one not expected.\<close>

definition three_allocs :: "ip_allocation list" where
  "three_allocs = [ready_alloc ''ip-347650492f2f'' ''10.0.0.1'',
     sample_alloc ''ip-367650492f2f'' phase_allocated ''10.0.0.2'', ready_alloc ''stale'' ''10.0.0.3'']"

theorem service_backend_addresses_witness:
  "\<exists>s. EnsureService s \<in> set (snd (reconcile_configured plain_kube sample_config rev_hash (\<lambda>_. True)
      (quiet_svc_env dual_service three_allocs []) dual_service)) \<and> lb_ips s = [Addr4 0x0a000001]"
proof -
  let ?env = "quiet_svc_env dual_service three_allocs []"
  let ?r = "reconcile_configured plain_kube sample_config rev_hash (\<lambda>_. True) ?env dual_service"
  have "case drop 1 (snd ?r) of [PatchIngress _, EnsureService _] \<Rightarrow> True | _ \<Rightarrow> False" by code_simp
  then obtain s where "EnsureService s \<in> set (drop 1 (snd ?r))" by (rule ensured_call)
  then have s: "EnsureService s \<in> set (snd ?r)" by (rule in_set_dropD)
  have ips: "filter (lb_address (wanted_by (\<lambda>_. True) sample_config dual_service) (ks_families dual_service))
      (List.map_filter (ready_address plain_kube (expected_names sample_config rev_hash (\<lambda>_. True) dual_service))
        three_allocs) = [Addr4 0x0a000001]" by code_simp
  have "lb_ips s = [Addr4 0x0a000001]"
    using service_backend_addresses [OF s] ips by (auto simp: quiet_svc_env_def)
  then show ?thesis using s by blast
qed

text \<open>C30: Every endpoint of the service handed to the backend comes from one endpoint slice, is not
  empty, holds exactly the valid addresses of the slice's live endpoints (not marked unready, not
  terminating), and has only ports of the slice whose name the service declares.\<close>

theorem service_endpoints_live:
  assumes "EnsureService s \<in> set (snd (reconcile_configured K cfg sha dns_ok env svc))"
    and "e \<in> set (svc_endpoints s)"
  shows "\<exists>slices sl. sv_slices env = Inr slices \<and> sl \<in> set slices \<and> ep_ips e \<noteq> [] \<and> ep_ports e \<noteq> [] \<and>
    set (ep_ips e) = {ip. \<exists>ep \<in> set (sl_endpoints sl). live_endpoint ep \<and>
      (\<exists>t \<in> set (se_addresses ep). parse_addr t = Some ip)} \<and>
    (\<forall>p \<in> set (ep_ports e). \<exists>q \<in> set (sl_ports sl). \<exists>n m. sl_port q = Some n \<and>
       ports_by_name (ks_ports svc) (case sl_name q of None \<Rightarrow> '''' | Some x \<Rightarrow> x) = Some m \<and>
       ep_target p = of_int n \<and> ep_port p = of_int m)"
proof -
  obtain allocs slices where a: "sv_slices env = Inr slices"
    and s: "s = core_service svc (wanted_by dns_ok cfg svc) (collected_by K cfg sha dns_ok svc allocs)
      (concat (map (slice_endpoints (ports_by_name (ks_ports svc))) slices))"
    using configured_ensure [OF assms(1)] by blast
  then obtain sl where sl: "sl \<in> set slices" "e \<in> set (slice_endpoints (ports_by_name (ks_ports svc)) sl)"
    using assms(2) by (auto simp: core_service_def)
  note f = slice_endpoints_set [OF sl(2)]
  have "\<forall>p \<in> set (ep_ports e). \<exists>q \<in> set (sl_ports sl). \<exists>n m. sl_port q = Some n \<and>
       ports_by_name (ks_ports svc) (case sl_name q of None \<Rightarrow> '''' | Some x \<Rightarrow> x) = Some m \<and>
       ep_target p = of_int n \<and> ep_port p = of_int m"
    using f(4) endpoint_port_of_set by blast
  then show ?thesis using a sl(1) f(1-3) by blast
qed

definition sample_slice :: endpoint_slice where
  "sample_slice =
     \<lparr>sl_endpoints = [\<lparr>se_ready = Some True, se_terminating = None, se_addresses = [''10.1.0.1'']\<rparr>,
        \<lparr>se_ready = Some False, se_terminating = None, se_addresses = [''10.1.0.2'']\<rparr>],
      sl_ports = [\<lparr>sl_name = Some ''http'', sl_protocol = None, sl_port = Some 8080\<rparr>]\<rparr>"

theorem service_endpoints_live_witness:
  "\<exists>s e. EnsureService s \<in> set (snd (reconcile_configured plain_kube sample_config (\<lambda>_. [1, 2, 3, 4, 5, 6]) (\<lambda>_. True)
      (quiet_svc_env (sample_service Map.empty) [] [sample_slice]) (sample_service Map.empty))) \<and>
    e \<in> set (svc_endpoints s) \<and> ep_ips e \<noteq> [] \<and> ep_ports e \<noteq> []"
proof -
  let ?r = "reconcile_configured plain_kube sample_config (\<lambda>_. [1, 2, 3, 4, 5, 6]) (\<lambda>_. True)
      (quiet_svc_env (sample_service Map.empty) [] [sample_slice]) (sample_service Map.empty)"
  have "case drop 1 (snd ?r) of [PatchIngress _, EnsureService _] \<Rightarrow> True | _ \<Rightarrow> False" by code_simp
  then obtain s where s: "EnsureService s \<in> set (drop 1 (snd ?r))" by (rule ensured_call)
  then have s': "EnsureService s \<in> set (snd ?r)" by (rule in_set_dropD)
  have sl: "slice_endpoints (ports_by_name (ks_ports (sample_service Map.empty))) sample_slice \<noteq> []"
    by code_simp
  obtain e where e: "e \<in> set (svc_endpoints s)"
  proof -
    from configured_ensure [OF s'] obtain allocs slices where
      sl': "sv_slices (quiet_svc_env (sample_service Map.empty) [] [sample_slice]) = Inr slices" and
      se: "svc_endpoints s = concat (map (slice_endpoints (ports_by_name (ks_ports (sample_service Map.empty)))) slices)"
      by (metis core_service_def service.select_convs(8))
    have "slices = [sample_slice]" using sl' by (simp add: quiet_svc_env_def)
    then have "svc_endpoints s = slice_endpoints (ports_by_name (ks_ports (sample_service Map.empty))) sample_slice"
      using se by simp
    then show ?thesis using sl that by (metis list.set_sel(1))
  qed
  show ?thesis using service_endpoints_live [OF s' e] s' e by blast
qed

text \<open>C29: A service that is deleted or no longer configured loses its finalizer only after the backend
  has deleted its rules and every listed allocation of it has been deleted without error; if any
  of these fails, the finalizer stays and the reconcile reports the error.\<close>

theorem service_cleanup_order:
  assumes "sv_get env = Found svc" "contains_finalizer K (ks_meta svc) finalizer_name"
    and "obj_deleting (ks_meta svc) \<or> (\<not> lb_configured cfg svc \<and> \<not> snat_configured svc)"
    and "reconcile_service K cfg sha dns_ok env = (err, calls)"
  shows "(\<exists>allocs rest. cleanup_ok env svc allocs \<and> calls = cleanup_calls svc allocs @
      PatchService (remove_finalizer K (ks_meta svc) finalizer_name) # rest \<and> rest \<in> {[], [PatchIngress []]}) \<or>
    ((\<forall>allocs. \<not> cleanup_ok env svc allocs) \<and> (\<forall>m. PatchService m \<notin> set calls) \<and> err \<noteq> None)"
proof -
  have r: "reconcile_unconfigured K env svc = (err, calls)"
    using assms by (auto simp: reconcile_service_def)
  show ?thesis
    using cleanup_service_cases [of env svc]
  proof (elim disjE exE conjE)
    fix allocs
    assume "cleanup_ok env svc allocs"
      "cleanup_service env (obj_namespace (ks_meta svc)) (obj_name (ks_meta svc)) (obj_uid (ks_meta svc)) =
        (None, cleanup_calls svc allocs)"
    then show ?thesis using r assms(2)
      by (auto simp: reconcile_unconfigured_def Let_def split: option.splits if_splits)
  next
    fix e cs
    assume "\<forall>allocs. \<not> cleanup_ok env svc allocs" "\<forall>m. PatchService m \<notin> set cs"
      "cleanup_service env (obj_namespace (ks_meta svc)) (obj_name (ks_meta svc)) (obj_uid (ks_meta svc)) =
        (Some e, cs)"
    then show ?thesis using r assms(2) by (auto simp: reconcile_unconfigured_def Let_def)
  qed
qed

theorem service_cleanup_order_witness:
  "\<exists>allocs rest. snd (reconcile_service plain_kube sample_config (\<lambda>_. []) (\<lambda>_. True)
      (quiet_svc_env ((sample_service Map.empty)\<lparr>ks_type := ''ClusterIP''\<rparr>) [ready_alloc ''ip-1'' ''10.0.0.1''] [])) =
    cleanup_calls ((sample_service Map.empty)\<lparr>ks_type := ''ClusterIP''\<rparr>) allocs @
      PatchService (remove_finalizer plain_kube (ks_meta (sample_service Map.empty)) finalizer_name) # rest"
proof -
  let ?svc = "(sample_service Map.empty)\<lparr>ks_type := ''ClusterIP''\<rparr>"
  let ?env = "quiet_svc_env ?svc [ready_alloc ''ip-1'' ''10.0.0.1''] []"
  let ?r = "reconcile_service plain_kube sample_config (\<lambda>_. []) (\<lambda>_. True) ?env"
  have "sv_get ?env = Found ?svc" "contains_finalizer plain_kube (ks_meta ?svc) finalizer_name"
    "obj_deleting (ks_meta ?svc) \<or> (\<not> lb_configured sample_config ?svc \<and> \<not> snat_configured ?svc)"
    "?r = (fst ?r, snd ?r)"
    by (simp_all add: quiet_svc_env_def sample_service_def plain_kube_def lb_configured_def snat_configured_def)
  moreover have "cleanup_ok ?env ?svc [ready_alloc ''ip-1'' ''10.0.0.1'']"
    by (simp add: cleanup_ok_def quiet_svc_env_def)
  moreover have "ks_meta ?svc = ks_meta (sample_service Map.empty)" by simp
  ultimately show ?thesis using service_cleanup_order [of ?env ?svc plain_kube sample_config] by metis
qed

text \<open>The deduplication removes adjacent repetitions only: requesting one address for load
  balancing, another one, and the first again leaves two expected allocations of one name.\<close>

theorem expected_duplicates_remain:
  "map fst (expected_of (\<lambda>s. map (\<lambda>c. of_nat (of_char c)) (rev s)) ''u1''
     (w_specs (wanted_of (\<lambda>_. True)
       (sample_service [annotation_lb_ips \<mapsto> ''10.0.0.1,10.0.0.2'', annotation_snat_ips \<mapsto> ''10.0.0.1'']) True True))) =
   [''ip-2f2f312e302e'', ''ip-2f2f322e302e'', ''ip-2f2f312e302e'']"
  by code_simp

end
