(* ===== verification/Json.thy ===== *)
theory Json
  imports Prelude
begin

text \<open>
  JSON values as the client and the mock router exchange them, and the package \<open>gjson\<close> by which
  \<open>internal/routeros/api\<close> reads them. \<open>gjson\<close> is a third-party package: its functions are the
  fields of a record, and \<open>gjson_ok\<close> states the documented behaviour that the code relies on.
  A number keeps its text. The fields of an object are an association list; an object as the
  encoder writes it has distinct keys.
\<close>

datatype json =
    JNull
  | JBool bool
  | JNum string
  | JStr string
  | JArr "json list"
  | JObj "(string \<times> json) list"

type_synonym jobject = "(string \<times> json) list"

text \<open>\<open>Get\<close> answers \<open>None\<close> for a result that does not exist.\<close>

record gjson =
  gj_parse :: "json option \<Rightarrow> json"
  gj_get :: "json \<Rightarrow> string \<Rightarrow> json option"
  gj_array :: "json \<Rightarrow> json list"
  gj_map :: "json \<Rightarrow> jobject"
  gj_is_array :: "json \<Rightarrow> bool"
  gj_string :: "json \<Rightarrow> string"
  gj_bool :: "json \<Rightarrow> bool"
  gj_uint :: "json \<Rightarrow> nat"
  gj_value :: "json \<Rightarrow> json"

definition get_string :: "gjson \<Rightarrow> json \<Rightarrow> string \<Rightarrow> string" where
  "get_string G j k = (case gj_get G j k of None \<Rightarrow> '''' | Some v \<Rightarrow> gj_string G v)"

text \<open>Assignment to and deletion of an entry of a Go map, and the numeral of a natural number.\<close>

fun put_field :: "string \<Rightarrow> 'v \<Rightarrow> (string \<times> 'v) list \<Rightarrow> (string \<times> 'v) list" where
  "put_field k v [] = [(k, v)]"
| "put_field k v (f # m) = (if fst f = k then (k, v) # m else f # put_field k v m)"

definition del_field :: "string \<Rightarrow> (string \<times> 'v) list \<Rightarrow> (string \<times> 'v) list" where
  "del_field k m = filter (\<lambda>f. fst f \<noteq> k) m"

definition parse_nat :: "string \<Rightarrow> nat option" where
  "parse_nat t = (if t = [] then None else dec_val 0 t)"

lemma map_of_put_field: "map_of (put_field k v m) = (map_of m)(k \<mapsto> v)"
  by (induction m) auto

lemma put_field_keys: "fst ` set (put_field k v m) = insert k (fst ` set m)"
  by (induction m) auto

lemma distinct_put_field: "distinct (map fst m) \<Longrightarrow> distinct (map fst (put_field k v m))"
proof (induction m)
  case (Cons f m)
  have "fst f \<noteq> k \<Longrightarrow> fst f \<notin> fst ` set (put_field k v m)"
    using Cons.prems by (simp add: put_field_keys)
  with Cons show ?case by auto
qed simp

lemma map_of_del_field: "map_of (del_field k m) = (map_of m)(k := None)"
  by (induction m) (auto simp: del_field_def)

lemma distinct_del_field: "distinct (map fst m) \<Longrightarrow> distinct (map fst (del_field k m))"
  by (simp add: del_field_def distinct_map_filter)

text \<open>
  A key without the characters of the path syntax: letters, digits and hyphens. The key
  \<open>.id\<close> is read by the escaped path.
\<close>

definition plain_key :: "string \<Rightarrow> bool" where
  "plain_key k \<longleftrightarrow> k \<noteq> [] \<and> list_all (\<lambda>c. let n = (of_char c :: nat) in
     48 \<le> n \<and> n \<le> 57 \<or> 65 \<le> n \<and> n \<le> 90 \<or> 97 \<le> n \<and> n \<le> 122 \<or> n = 45) k"

definition id_key :: string where "id_key = ''.id''"

definition id_path :: string where "id_path = CHR 0x5C # ''.id''"

fun scalar_string :: "json \<Rightarrow> string" where
  "scalar_string JNull = ''''"
| "scalar_string (JBool b) = (if b then ''true'' else ''false'')"
| "scalar_string (JNum t) = t"
| "scalar_string (JStr t) = t"
| "scalar_string _ = ''''"

fun scalar :: "json \<Rightarrow> bool" where
  "scalar (JArr _) = False"
| "scalar (JObj _) = False"
| "scalar _ = True"

definition flat_object :: "jobject \<Rightarrow> bool" where
  "flat_object m \<longleftrightarrow> distinct (map fst m) \<and> list_all (\<lambda>kv. scalar (snd kv)) m"

definition gjson_ok :: "gjson \<Rightarrow> bool" where
  "gjson_ok G \<longleftrightarrow>
     (\<forall>j. gj_parse G (Some j) = j) \<and>
     (\<forall>l. gj_is_array G (JArr l) \<and> gj_array G (JArr l) = l) \<and>
     (\<forall>m k. distinct (map fst m) \<longrightarrow> plain_key k \<longrightarrow> gj_get G (JObj m) k = map_of m k) \<and>
     (\<forall>m. distinct (map fst m) \<longrightarrow> gj_get G (JObj m) id_path = map_of m id_key) \<and>
     (\<forall>m. distinct (map fst m) \<longrightarrow> gj_map G (JObj m) = m) \<and>
     (\<forall>v. scalar v \<longrightarrow> gj_string G v = scalar_string v \<and> gj_value G v = v)"

text \<open>The documented functions on plain paths; it instantiates the parameter.\<close>

fun unescape_key :: "string \<Rightarrow> string" where
  "unescape_key [] = []"
| "unescape_key (c # s) = (if c = CHR 0x5C then s else c # s)"

fun plain_get :: "json \<Rightarrow> string \<Rightarrow> json option" where
  "plain_get (JObj m) k = map_of m (unescape_key k)"
| "plain_get (JArr (JObj m # l)) k = (if has_prefix ''0.'' k then map_of m (drop 2 k) else None)"
| "plain_get _ _ = None"

definition plain_gjson :: gjson where
  "plain_gjson =
     \<lparr>gj_parse = (\<lambda>b. case b of None \<Rightarrow> JNull | Some j \<Rightarrow> j),
      gj_get = plain_get,
      gj_array = (\<lambda>j. case j of JArr l \<Rightarrow> l | JNull \<Rightarrow> [] | _ \<Rightarrow> [j]),
      gj_map = (\<lambda>j. case j of JObj m \<Rightarrow> m | _ \<Rightarrow> []),
      gj_is_array = (\<lambda>j. case j of JArr _ \<Rightarrow> True | _ \<Rightarrow> False),
      gj_string = scalar_string,
      gj_bool = (\<lambda>j. scalar_string j = ''true''),
      gj_uint = (\<lambda>j. case parse_nat (scalar_string j) of None \<Rightarrow> 0 | Some n \<Rightarrow> n),
      gj_value = (\<lambda>j. j)\<rparr>"

lemma plain_key_no_escape: "plain_key k \<Longrightarrow> unescape_key k = k"
  by (cases k) (auto simp: plain_key_def Let_def)

lemma gjson_ok_plain: "gjson_ok plain_gjson"
  by (auto simp: gjson_ok_def plain_gjson_def plain_key_no_escape id_path_def id_key_def)

lemma gjson_okD:
  assumes "gjson_ok G"
  shows "gj_parse G (Some j) = j" "gj_is_array G (JArr l)" "gj_array G (JArr l) = l"
    "distinct (map fst m) \<Longrightarrow> plain_key k \<Longrightarrow> gj_get G (JObj m) k = map_of m k"
    "distinct (map fst m) \<Longrightarrow> gj_get G (JObj m) id_path = map_of m id_key"
    "distinct (map fst m) \<Longrightarrow> gj_map G (JObj m) = m"
    "scalar v \<Longrightarrow> gj_string G v = scalar_string v"
    "scalar v \<Longrightarrow> gj_value G v = v"
  using assms by (auto simp: gjson_ok_def)

end
