(* ===== verification/Url.thy ===== *)
theory Url
  imports Prelude
begin

text \<open>
  The functions of the package \<open>net/url\<close> on the path from \<open>buildURL\<close> to the router: the
  escaping of a query (\<open>QueryEscape\<close>, \<open>Values.Encode\<close>), its parsing (\<open>ParseQuery\<close>), and the
  parts of a URL that \<open>http.NewRequest\<close> finds in its text.
\<close>

section \<open>Escaping\<close>

definition unreserved :: "char \<Rightarrow> bool" where
  "unreserved c \<longleftrightarrow> (let n = (of_char c :: nat) in
     48 \<le> n \<and> n \<le> 57 \<or> 65 \<le> n \<and> n \<le> 90 \<or> 97 \<le> n \<and> n \<le> 122 \<or> n \<in> {45, 46, 95, 126})"

definition upper_hex :: "nat \<Rightarrow> char" where
  "upper_hex n = (if n < 10 then char_of (48 + n) else char_of (55 + n))"

definition escape_char :: "char \<Rightarrow> string" where
  "escape_char c =
     (if unreserved c then [c]
      else if c = CHR '' '' then ''+''
      else (let n = (of_char c :: nat) in [CHR ''%'', upper_hex (n div 16), upper_hex (n mod 16)]))"

definition query_escape :: "string \<Rightarrow> string" where
  "query_escape s = concat (map escape_char s)"

text \<open>\<open>unescape\<close> in the modes of a query component and of a path.\<close>

fun unescape :: "bool \<Rightarrow> string \<Rightarrow> string option" where
  "unescape in_query [] = Some []"
| "unescape in_query (c # s) =
     (if c = CHR ''%'' then
        (case s of
           a # b # s' \<Rightarrow>
             (case (hex_val a, hex_val b) of
                (Some x, Some y) \<Rightarrow> map_option ((#) (char_of (x * 16 + y))) (unescape in_query s')
              | _ \<Rightarrow> None)
         | _ \<Rightarrow> None)
      else map_option ((#) (if in_query \<and> c = CHR ''+'' then CHR '' '' else c)) (unescape in_query s))"

definition encode_pair :: "string \<times> string \<Rightarrow> string" where
  "encode_pair kv = query_escape (fst kv) @ ''='' @ query_escape (snd kv)"

definition encode_query :: "(string \<times> string) list \<Rightarrow> string" where
  "encode_query q = str_join ''&'' (map encode_pair (sort_key fst q))"

definition parse_pair :: "string \<Rightarrow> (string \<times> string) list" where
  "parse_pair p =
     (if CHR '';'' \<in> set p \<or> p = '''' then []
      else (case (unescape True (cut_before (CHR ''='') p), unescape True (cut_after (CHR ''='') p)) of
        (Some k, Some v) \<Rightarrow> [(k, v)]
      | _ \<Rightarrow> []))"

definition parse_query :: "string \<Rightarrow> (string \<times> string) list" where
  "parse_query s = concat (map parse_pair (split_on (CHR ''&'') s))"

section \<open>Reading a URL\<close>

definition trim_suffix :: "string \<Rightarrow> string \<Rightarrow> string" where
  "trim_suffix p s = rev (trim_prefix (rev p) (rev s))"

definition control_char :: "char \<Rightarrow> bool" where
  "control_char c \<longleftrightarrow> (let n = (of_char c :: nat) in n < 32 \<or> n = 127)"

text \<open>Host, path and raw query of a text \<open>scheme://host/path?query\<close>; \<open>None\<close> is a parse error.\<close>

definition parse_url :: "string \<Rightarrow> (string \<times> string \<times> string) option" where
  "parse_url u =
     (let main = cut_before (CHR ''#'') u;
          rest = drop 2 (cut_after (CHR '':'') main);
          hier = cut_before (CHR ''?'') rest;
          host = cut_before (CHR ''/'') hier
      in if list_ex control_char main then None
         else (case (unescape False (drop (length host) hier), unescape False (cut_after (CHR ''#'') u)) of
           (Some path, Some _) \<Rightarrow> Some (host, path, cut_after (CHR ''?'') rest)
         | _ \<Rightarrow> None))"

section \<open>Round trips\<close>

lemma hex_val_upper: "n < 16 \<Longrightarrow> hex_val (upper_hex n) = Some n"
  by (auto simp: hex_val_def upper_hex_def Let_def)

lemma char_nibbles: "(of_char c :: nat) div 16 < 16" "(of_char c :: nat) mod 16 < 16"
proof -
  have "(of_char c :: nat) < 16 * 16" by (simp add: of_char_eq_iff)
  then show "(of_char c :: nat) div 16 < 16" by (rule less_mult_imp_div_less)
qed simp

lemma unescape_escape_char:
  "unescape True (escape_char c @ s) = map_option ((#) c) (unescape True s)"
proof -
  have "unreserved c \<Longrightarrow> c \<noteq> CHR ''%'' \<and> c \<noteq> CHR ''+''"
    by (auto simp: unreserved_def Let_def)
  moreover have "hex_val (upper_hex (of_char c div 16)) = Some (of_char c div 16)"
    "hex_val (upper_hex (of_char c mod 16)) = Some (of_char c mod 16)"
    by (rule hex_val_upper, rule char_nibbles)+
  ultimately show ?thesis by (auto simp: escape_char_def Let_def)
qed

lemma unescape_query_escape: "unescape True (query_escape s) = Some s"
  by (induction s) (auto simp: query_escape_def unescape_escape_char [unfolded query_escape_def])

lemma escape_char_safe:
  "x \<in> set (escape_char c) \<Longrightarrow> unreserved x \<or> x = CHR ''%'' \<or> x = CHR ''+''"
proof -
  have h: "unreserved (upper_hex k)" if "k < 16" for k
    using that by (auto simp: unreserved_def upper_hex_def Let_def)
  assume "x \<in> set (escape_char c)"
  then show ?thesis
    using h [OF char_nibbles(1) [of c]] h [OF char_nibbles(2) [of c]]
    by (auto simp: escape_char_def Let_def split: if_splits)
qed

lemma query_escape_safe:
  assumes "\<not> unreserved x" "x \<noteq> CHR ''%''" "x \<noteq> CHR ''+''"
  shows "x \<notin> set (query_escape s)"
  using assms escape_char_safe by (auto simp: query_escape_def)

lemma reserved_chars:
  "\<not> unreserved (CHR ''&'')" "\<not> unreserved (CHR ''='')" "\<not> unreserved (CHR '';'')"
  "\<not> unreserved (CHR ''#'')" "\<not> unreserved (CHR ''?'')"
  by (auto simp: unreserved_def)

lemma encode_pair_safe:
  "CHR ''&'' \<notin> set (encode_pair kv)" "CHR '';'' \<notin> set (encode_pair kv)"
  "CHR ''#'' \<notin> set (encode_pair kv)" "CHR ''?'' \<notin> set (encode_pair kv)" "encode_pair kv \<noteq> []"
  using query_escape_safe reserved_chars by (auto simp: encode_pair_def)

lemma parse_pair_encode: "parse_pair (encode_pair kv) = [kv]"
proof -
  have "CHR ''='' \<notin> set (query_escape (fst kv))"
    using query_escape_safe reserved_chars by auto
  then have "cut_before (CHR ''='') (encode_pair kv) = query_escape (fst kv)"
    "cut_after (CHR ''='') (encode_pair kv) = query_escape (snd kv)"
    by (simp_all add: encode_pair_def cut_append)
  then show ?thesis
    using encode_pair_safe [of kv] by (simp add: parse_pair_def unescape_query_escape)
qed

lemma split_on_join:
  assumes "ws \<noteq> []" "\<And>w. w \<in> set ws \<Longrightarrow> c \<notin> set w"
  shows "split_on c (str_join [c] ws) = ws"
proof -
  have one: "c \<notin> set w \<Longrightarrow> split_on c w = [w]" for w
    by (induction w) auto
  have app: "c \<notin> set w \<Longrightarrow> split_on c (w @ c # s) = w # split_on c s" for w s
    by (induction w) auto
  show ?thesis using assms
    by (induction "[c]" ws rule: str_join.induct) (auto simp: one app)
qed

lemma parse_query_encode: "parse_query (encode_query q) = sort_key fst q"
proof (cases "q = []")
  case True
  then show ?thesis by (simp add: encode_query_def parse_query_def parse_pair_def)
next
  case False
  then have "map encode_pair (sort_key fst q) \<noteq> []" by (metis Nil_is_map_conv length_0_conv length_sort)
  then have "split_on (CHR ''&'') (encode_query q) = map encode_pair (sort_key fst q)"
    unfolding encode_query_def by (rule split_on_join) (use encode_pair_safe in auto)
  then have "parse_query (encode_query q) = concat (map (\<lambda>kv. [kv]) (sort_key fst q))"
    by (simp add: parse_query_def comp_def parse_pair_encode)
  then show ?thesis by simp
qed

end
