(* ===== verification/Rest_Client.thy ===== *)
theory Rest_Client
  imports Json Url
begin

text \<open>
  \<open>internal/routeros/api\<close>: the REST client of the router. \<open>HTTPRuntime.Do\<close> is a function on
  the state of whatever answers the requests. Bodies are the JSON values they carry, \<open>None\<close> for
  bytes that are no JSON. \<open>Sync\<close> is split into its phases: match, delete, patch or create.
\<close>

section \<open>Errors\<close>

record api_error =
  ae_code :: nat
  ae_message :: string
  ae_detail :: string

datatype client_error =
    ApiError api_error
  | BadURL
  | Transport string
  | ContentTypeUnexpected string
  | ErrorUndecodable nat
  | BodyUnreadable string
  | UserNotFound string
  | GroupNotFound string
  | FormatUnexpected
  | Plain string
  | Wrapped string client_error
  | Joined "client_error list"

text \<open>\<open>errors.As\<close> with the target \<open>Error\<close>: the first one in the tree of wrapped errors.\<close>

fun as_api_error :: "client_error \<Rightarrow> api_error option" and
  first_api_error :: "client_error list \<Rightarrow> api_error option" where
  "as_api_error (ApiError e) = Some e"
| "as_api_error (Wrapped msg e) = as_api_error e"
| "as_api_error (Joined es) = first_api_error es"
| "as_api_error _ = None"
| "first_api_error [] = None"
| "first_api_error (e # es) =
     (case as_api_error e of Some a \<Rightarrow> Some a | None \<Rightarrow> first_api_error es)"

definition has_code :: "nat \<Rightarrow> client_error \<Rightarrow> bool" where
  "has_code n e = (case as_api_error e of Some a \<Rightarrow> ae_code a = n | None \<Rightarrow> False)"

definition is_unauthorized :: "client_error \<Rightarrow> bool" where "is_unauthorized e = has_code 401 e"
definition is_forbidden :: "client_error \<Rightarrow> bool" where "is_forbidden e = has_code 403 e"
definition is_not_found :: "client_error \<Rightarrow> bool" where "is_not_found e = has_code 404 e"

definition api_error_text :: "api_error \<Rightarrow> string" where
  "api_error_text e = ''API error: code '' @ dec (ae_code e) @ '', message: '' @ ae_message e @
     '', detail: '' @ ae_detail e"

text \<open>
  Decoding into \<open>Error\<close>: keys are compared without regard to case, \<open>null\<close> leaves a field as it
  is, unknown keys are skipped, a value of another type is an error.
\<close>

definition decode_error_field :: "api_error option \<Rightarrow> string \<times> json \<Rightarrow> api_error option" where
  "decode_error_field acc f =
     (case acc of None \<Rightarrow> None
      | Some e \<Rightarrow>
          (let k = to_lower (fst f) in
           if snd f = JNull then Some e
           else if k = ''error'' then
             (case snd f of JNum t \<Rightarrow> (case parse_nat t of
                  Some n \<Rightarrow> if n < 2 ^ 64 then Some (e\<lparr>ae_code := n\<rparr>) else None
                | None \<Rightarrow> None) | _ \<Rightarrow> None)
           else if k = ''message'' then
             (case snd f of JStr t \<Rightarrow> Some (e\<lparr>ae_message := t\<rparr>) | _ \<Rightarrow> None)
           else if k = ''detail'' then
             (case snd f of JStr t \<Rightarrow> Some (e\<lparr>ae_detail := t\<rparr>) | _ \<Rightarrow> None)
           else Some e))"

definition decode_api_error :: "json option \<Rightarrow> api_error option" where
  "decode_api_error b =
     (case b of
        Some (JObj m) \<Rightarrow> foldl decode_error_field (Some \<lparr>ae_code = 0, ae_message = '''', ae_detail = ''''\<rparr>) m
      | Some JNull \<Rightarrow> Some \<lparr>ae_code = 0, ae_message = '''', ae_detail = ''''\<rparr>
      | _ \<Rightarrow> None)"

section \<open>Requests\<close>

record http_request =
  rq_method :: string
  rq_host :: string
  rq_path :: string
  rq_query :: string
  rq_auth :: "(string \<times> string) option"
  rq_body :: "json option"

record http_response =
  rs_status :: nat
  rs_content_type :: string
  rs_body :: "string + json option"

type_synonym 's http = "http_request \<Rightarrow> 's \<Rightarrow> (string + http_response) \<times> 's"
type_synonym ('a, 's) reply = "(client_error + 'a) \<times> 's"
type_synonym query = "(string \<times> string) list"

record client =
  cl_scheme :: string
  cl_host :: string
  cl_path :: string
  cl_username :: string
  cl_password :: string

definition new_client :: "string \<Rightarrow> string \<Rightarrow> string \<Rightarrow> client" where
  "new_client scheme host path =
     \<lparr>cl_scheme = scheme, cl_host = host, cl_path = trim_suffix ''/'' path @ ''/rest'',
      cl_username = '''', cl_password = ''''\<rparr>"

definition set_credentials :: "string \<Rightarrow> string \<Rightarrow> client \<Rightarrow> client" where
  "set_credentials user pass c = c\<lparr>cl_username := user, cl_password := pass\<rparr>"

text \<open>The client with the library and the runtime it uses.\<close>

record 's api =
  api_gjson :: gjson
  api_client :: client
  api_http :: "'s http"

definition build_url :: "client \<Rightarrow> string \<Rightarrow> query \<Rightarrow> string" where
  "build_url c path q =
     (let p = trim_suffix ''/'' (cl_path c @ ''/'' @ trim_prefix ''/'' path);
          raw = encode_query q;
          url = cl_scheme c @ ''://'' @ cl_host c @ p
      in if raw \<noteq> '''' then url @ ''?'' @ raw else url)"

definition new_request :: "client \<Rightarrow> string \<Rightarrow> string \<Rightarrow> json option \<Rightarrow> http_request option" where
  "new_request c method url body =
     (case parse_url url of
        None \<Rightarrow> None
      | Some (host, path, raw) \<Rightarrow> Some
          \<lparr>rq_method = method, rq_host = host, rq_path = path, rq_query = raw,
           rq_auth = (if cl_username c \<noteq> '''' \<and> cl_password c \<noteq> ''''
             then Some (cl_username c, cl_password c) else None),
           rq_body = body\<rparr>)"

definition decode_response :: "gjson \<Rightarrow> http_response \<Rightarrow> client_error + json" where
  "decode_response G resp =
     (if rs_content_type resp \<noteq> '''' \<and> rs_content_type resp \<noteq> ''application/json''
      then Inl (ContentTypeUnexpected (rs_content_type resp))
      else if rs_status resp \<ge> 400 then
        (case rs_body resp of
           Inl e \<Rightarrow> Inl (ErrorUndecodable (rs_status resp))
         | Inr b \<Rightarrow> (case decode_api_error b of
             None \<Rightarrow> Inl (ErrorUndecodable (rs_status resp))
           | Some e \<Rightarrow> Inl (ApiError e)))
      else (case rs_body resp of
        Inl e \<Rightarrow> Inl (BodyUnreadable e)
      | Inr b \<Rightarrow> Inr (gj_parse G b)))"

definition call :: "'s api \<Rightarrow> string \<Rightarrow> string \<Rightarrow> json option \<Rightarrow> 's \<Rightarrow> (json, 's) reply" where
  "call A method url body s =
     (case new_request (api_client A) method url body of
        None \<Rightarrow> (Inl BadURL, s)
      | Some r \<Rightarrow>
          (case api_http A r s of
             (Inl e, s') \<Rightarrow> (Inl (Transport e), s')
           | (Inr resp, s') \<Rightarrow> (decode_response (api_gjson A) resp, s')))"

definition do_request ::
  "'s api \<Rightarrow> string \<Rightarrow> string \<Rightarrow> jobject option \<Rightarrow> query \<Rightarrow> 's \<Rightarrow> (json, 's) reply" where
  "do_request A method path req q s =
     call A method (build_url (api_client A) path q) (map_option JObj req) s"

definition api_get :: "'s api \<Rightarrow> string \<Rightarrow> query \<Rightarrow> 's \<Rightarrow> (json, 's) reply" where
  "api_get A path q s = do_request A ''GET'' path None q s"

definition api_put :: "'s api \<Rightarrow> string \<Rightarrow> jobject \<Rightarrow> 's \<Rightarrow> (json, 's) reply" where
  "api_put A path req s = do_request A ''PUT'' path (Some req) [] s"

definition api_patch :: "'s api \<Rightarrow> string \<Rightarrow> jobject \<Rightarrow> 's \<Rightarrow> (json, 's) reply" where
  "api_patch A path req s = do_request A ''PATCH'' path (Some req) [] s"

definition api_delete :: "'s api \<Rightarrow> string \<Rightarrow> 's \<Rightarrow> (unit, 's) reply" where
  "api_delete A path s =
     (case do_request A ''DELETE'' path None [] s of
        (Inl e, s') \<Rightarrow> (Inl e, s') | (Inr _, s') \<Rightarrow> (Inr (), s'))"

definition strings_json :: "string list \<Rightarrow> json" where
  "strings_json l = JArr (map JStr l)"

definition api_post ::
  "'s api \<Rightarrow> string \<Rightarrow> jobject \<Rightarrow> string list \<Rightarrow> string list \<Rightarrow> 's \<Rightarrow> (json, 's) reply" where
  "api_post A path req proplist q s =
     (let r1 = (if length proplist > 0 then put_field ''.proplist'' (strings_json proplist) req else req);
          r2 = (if length q > 0 then put_field ''.query'' (strings_json q) r1 else r1)
      in do_request A ''POST'' path (Some r2) [] s)"

section \<open>The policies of the user\<close>

record policy_cache =
  pc_value :: "string list option"
  pc_at :: int

definition wrap :: "string \<Rightarrow> ('a, 's) reply \<Rightarrow> ('a, 's) reply" where
  "wrap msg r = (case r of (Inl e, s) \<Rightarrow> (Inl (Wrapped msg e), s) | (Inr a, s) \<Rightarrow> (Inr a, s))"

text \<open>
  \<open>now\<close> and \<open>later\<close> are the two readings of the clock. A missing result has an empty array, so
  the test of \<open>Exists\<close> adds nothing.
\<close>

definition policies ::
  "'s api \<Rightarrow> int \<Rightarrow> int \<Rightarrow> int \<Rightarrow> policy_cache \<Rightarrow> 's \<Rightarrow> (client_error + string list) \<times> policy_cache \<times> 's" where
  "policies A timeout now later pc s =
     (if now - pc_at pc < timeout \<and> pc_value pc \<noteq> None then (Inr (the (pc_value pc)), pc, s)
      else
        (case wrap ''failed to fetch user'' (api_get A ''/user'' [(''name'', cl_username (api_client A))] s) of
           (Inl e, s1) \<Rightarrow> (Inl e, pc, s1)
         | (Inr resp, s1) \<Rightarrow>
             if length (gj_array (api_gjson A) resp) = 0
             then (Inl (UserNotFound (cl_username (api_client A))), pc, s1)
             else
               (let group = get_string (api_gjson A) resp ''0.group'' in
                case wrap ''failed to fetch user group'' (api_get A ''/user/group'' [(''name'', group)] s1) of
                  (Inl e, s2) \<Rightarrow> (Inl e, pc, s2)
                | (Inr resp2, s2) \<Rightarrow>
                    if length (gj_array (api_gjson A) resp2) = 0 then (Inl (GroupNotFound group), pc, s2)
                    else
                      (let ps = map trim_space (split_on (CHR '','') (get_string (api_gjson A) resp2 ''0.policy''))
                       in (Inr ps, \<lparr>pc_value = Some ps, pc_at = later\<rparr>, s2)))))"

section \<open>Comparing objects\<close>

definition compare_objs :: "gjson \<Rightarrow> json \<Rightarrow> json \<Rightarrow> string list \<Rightarrow> bool" where
  "compare_objs G a b ignored \<longleftrightarrow>
     list_all (\<lambda>kv. fst kv \<in> set ignored \<or>
       (case gj_get G b (fst kv) of None \<Rightarrow> False | Some v \<Rightarrow> gj_string G v = gj_string G (snd kv))) (gj_map G a) \<and>
     list_all (\<lambda>kv. fst kv \<in> set ignored \<or> gj_get G a (fst kv) \<noteq> None) (gj_map G b)"

definition generate_patch_request :: "gjson \<Rightarrow> json \<Rightarrow> json \<Rightarrow> string list \<Rightarrow> jobject" where
  "generate_patch_request G current desired ignored =
     foldl (\<lambda>req kv. if fst kv \<in> set ignored \<or> gj_get G desired (fst kv) \<noteq> None then req
         else put_field (fst kv) JNull req)
       (foldl (\<lambda>req kv. if fst kv \<in> set ignored then req
           else put_field (fst kv) (gj_value G (snd kv)) req) [] (gj_map G desired))
       (gj_map G current)"

section \<open>Sync\<close>

text \<open>A request with the objects that \<open>found\<close> and \<open>patchable\<close> hold at its index.\<close>

record slot =
  slot_req :: json
  slot_found :: "json option"
  slot_patch :: "json option"

type_synonym id_func = "(json \<Rightarrow> string) option"

text \<open>A filter may keep a state of its own, as the one that collects stale chains does.\<close>

type_synonym 'f filter_func = "(json \<Rightarrow> 'f \<Rightarrow> bool \<times> 'f) option"

fun filter_objs :: "'f filter_func \<Rightarrow> json list \<Rightarrow> 'f \<Rightarrow> json list \<times> 'f" where
  "filter_objs None objs f = (objs, f)"
| "filter_objs (Some p) [] f = ([], f)"
| "filter_objs (Some p) (obj # objs) f =
     (case p obj f of (keep, f1) \<Rightarrow> (case filter_objs (Some p) objs f1 of (rest, f2) \<Rightarrow>
        (if keep then obj # rest else rest, f2)))"

definition same_id :: "id_func \<Rightarrow> json \<Rightarrow> json \<Rightarrow> bool" where
  "same_id idf a b = (case idf of None \<Rightarrow> True | Some f \<Rightarrow> f a = f b)"

fun place :: "gjson \<Rightarrow> string list \<Rightarrow> id_func \<Rightarrow> json \<Rightarrow> slot list \<Rightarrow> slot list option" where
  "place G ignored idf obj [] = None"
| "place G ignored idf obj (sl # sls) =
     (if slot_found sl = None \<and> compare_objs G obj (slot_req sl) ignored
      then Some (sl\<lparr>slot_found := Some obj\<rparr> # sls)
      else if slot_patch sl = None \<and> same_id idf obj (slot_req sl)
      then Some (sl\<lparr>slot_patch := Some obj\<rparr> # sls)
      else map_option ((#) sl) (place G ignored idf obj sls))"

fun match_objs ::
  "gjson \<Rightarrow> string list \<Rightarrow> id_func \<Rightarrow> json list \<Rightarrow> slot list \<Rightarrow> json list \<Rightarrow> slot list \<times> json list" where
  "match_objs G ignored idf [] slots conflicts = (slots, conflicts)"
| "match_objs G ignored idf (obj # objs) slots conflicts =
     (case place G ignored idf obj slots of
        Some slots' \<Rightarrow> match_objs G ignored idf objs slots' conflicts
      | None \<Rightarrow> match_objs G ignored idf objs slots (conflicts @ [obj]))"

text \<open>A patchable object is of no use where an exact match was found.\<close>

definition useless :: "slot \<Rightarrow> bool" where
  "useless sl \<longleftrightarrow> slot_found sl \<noteq> None \<and> slot_patch sl \<noteq> None"

definition drop_useless :: "slot list \<times> json list \<Rightarrow> slot list \<times> json list" where
  "drop_useless sc =
     (map (\<lambda>sl. if useless sl then sl\<lparr>slot_patch := None\<rparr> else sl) (fst sc),
      snd sc @ map (\<lambda>sl. the (slot_patch sl)) (filter useless (fst sc)))"

fun delete_conflicts :: "'s api \<Rightarrow> string \<Rightarrow> json list \<Rightarrow> 's \<Rightarrow> (unit, 's) reply" where
  "delete_conflicts A path [] s = (Inr (), s)"
| "delete_conflicts A path (obj # objs) s =
     (let ident = get_string (api_gjson A) obj id_path in
      if ident = '''' then delete_conflicts A path objs s
      else (case wrap ''failed to delete conflicting object'' (api_delete A (path @ ''/'' @ ident) s) of
        (Inl e, s') \<Rightarrow> (Inl e, s')
      | (Inr _, s') \<Rightarrow> delete_conflicts A path objs s'))"

text \<open>One request: the object found, a patch of the patchable one, or a new object.\<close>

definition apply_slot :: "'s api \<Rightarrow> string \<Rightarrow> string list \<Rightarrow> jobject \<Rightarrow> slot \<Rightarrow> 's \<Rightarrow> (json, 's) reply" where
  "apply_slot A path ignored req sl s =
     (case slot_found sl of
        Some obj \<Rightarrow> (Inr obj, s)
      | None \<Rightarrow>
          (let ident = (case slot_patch sl of None \<Rightarrow> '''' | Some obj \<Rightarrow> get_string (api_gjson A) obj id_path) in
           if ident \<noteq> '''' then
             wrap ''failed to patch existing object'' (api_patch A (path @ ''/'' @ ident)
               (generate_patch_request (api_gjson A) (the (slot_patch sl)) (slot_req sl) ignored) s)
           else wrap ''failed to create missing object'' (api_put A path req s)))"

fun apply_slots ::
  "'s api \<Rightarrow> string \<Rightarrow> string list \<Rightarrow> (jobject \<times> slot) list \<Rightarrow> 's \<Rightarrow> (json list, 's) reply" where
  "apply_slots A path ignored [] s = (Inr [], s)"
| "apply_slots A path ignored ((req, sl) # rest) s =
     (case apply_slot A path ignored req sl s of
        (Inl e, s') \<Rightarrow> (Inl e, s')
      | (Inr j, s') \<Rightarrow> (case apply_slots A path ignored rest s' of
          (Inl e, s'') \<Rightarrow> (Inl e, s'') | (Inr js, s'') \<Rightarrow> (Inr (j # js), s'')))"

definition start_slots :: "gjson \<Rightarrow> jobject list \<Rightarrow> slot list" where
  "start_slots G reqs =
     map (\<lambda>r. \<lparr>slot_req = gj_parse G (Some (JObj r)), slot_found = None, slot_patch = None\<rparr>) reqs"

definition sync ::
  "'s api \<Rightarrow> string \<Rightarrow> jobject list \<Rightarrow> query \<Rightarrow> 'f filter_func \<Rightarrow> id_func \<Rightarrow> string list \<Rightarrow> 'f \<Rightarrow> 's \<Rightarrow>
    (client_error + json list) \<times> 'f \<times> 's" where
  "sync A path reqs q filt idf ignored f s =
     (case wrap ''failed to get existing entries'' (api_get A path q s) of
        (Inl e, s1) \<Rightarrow> (Inl e, f, s1)
      | (Inr resp, s1) \<Rightarrow>
          if \<not> gj_is_array (api_gjson A) resp then (Inl FormatUnexpected, f, s1)
          else
            (case filter_objs filt (gj_array (api_gjson A) resp) f of (objs, f') \<Rightarrow>
               (case drop_useless (match_objs (api_gjson A) ignored idf objs
                   (start_slots (api_gjson A) reqs) []) of (slots, conflicts) \<Rightarrow>
                  (case delete_conflicts A path conflicts s1 of
                     (Inl e, s2) \<Rightarrow> (Inl e, f', s2)
                   | (Inr _, s2) \<Rightarrow>
                       (case apply_slots A path ignored (zip reqs slots) s2 of
                          (r, s3) \<Rightarrow> (r, f', s3))))))"

end
