(* ===== verification/Mock_Router.thy ===== *)
theory Mock_Router
  imports Rest_Client
begin

text \<open>
  \<open>internal/routeros/mock/server.go\<close>: the in-memory router that the tests and the development
  set-up run against. Its handlers are functions on the stored resources and the log. A body is a
  JSON value or empty, so reading it does not fail. The dump of the whole state at \<open>/_state\<close> is not
  modelled.
\<close>

record resource =
  res_id :: string
  res_fields :: jobject

datatype logged =
    LogQuery string string query
  | LogBody string string jobject
  | LogBadBody string string string
  | LogError string string string
  | LogRequest string string

record mock =
  mk_resources :: "(string \<times> resource list) list"
  mk_requests :: "logged list"
  mk_next :: nat

definition new_mock :: mock where
  "new_mock = \<lparr>mk_resources = [], mk_requests = [], mk_next = 1\<rparr>"

text \<open>\<open>m.resources[path]\<close>: the empty list for an unknown path.\<close>

definition resources :: "mock \<Rightarrow> string \<Rightarrow> resource list" where
  "resources m path = (case map_of (mk_resources m) path of None \<Rightarrow> [] | Some l \<Rightarrow> l)"

definition set_resources :: "string \<Rightarrow> resource list \<Rightarrow> mock \<Rightarrow> mock" where
  "set_resources path l m = m\<lparr>mk_resources := put_field path l (mk_resources m)\<rparr>"

definition log_request :: "logged \<Rightarrow> mock \<Rightarrow> mock" where
  "log_request e m = m\<lparr>mk_requests := mk_requests m @ [e]\<rparr>"

text \<open>A new resource with the next identifier, as \<open>Seed\<close> and \<open>handlePut\<close> store it.\<close>

definition next_id :: "mock \<Rightarrow> string" where
  "next_id m = CHR ''*'' # dec (mk_next m)"

definition new_resource :: "mock \<Rightarrow> jobject \<Rightarrow> resource" where
  "new_resource m flds = \<lparr>res_id = next_id m, res_fields = put_field id_key (JStr (next_id m)) flds\<rparr>"

definition add_resource :: "string \<Rightarrow> jobject \<Rightarrow> mock \<Rightarrow> mock" where
  "add_resource path flds m =
     set_resources path (resources m path @ [new_resource m flds]) (m\<lparr>mk_next := mk_next m + 1\<rparr>)"

definition seed :: "string \<Rightarrow> jobject list \<Rightarrow> mock \<Rightarrow> mock" where
  "seed path entries m = foldl (\<lambda>m e. add_resource path e m) m entries"

section \<open>Helpers\<close>

definition split_id :: "string \<Rightarrow> string \<times> string" where
  "split_id path =
     (let tail = rev (takeWhile (\<lambda>c. c \<noteq> CHR ''/'') (rev path)) in
      if CHR ''/'' \<notin> set path then (path, '''')
      else if has_prefix ''*'' tail then (take (length path - length tail - 1) path, tail)
      else (path, ''''))"

text \<open>The type assertion to a string gives the empty string for anything else.\<close>

definition string_field :: "jobject \<Rightarrow> string \<Rightarrow> string" where
  "string_field flds k = (case map_of flds k of Some (JStr t) \<Rightarrow> t | _ \<Rightarrow> '''')"

definition matches_values :: "query \<Rightarrow> jobject \<Rightarrow> bool" where
  "matches_values q flds \<longleftrightarrow> list_all (\<lambda>kv. Some (string_field flds (fst kv)) = map_of q (fst kv)) q"

definition filter_by_query :: "resource list \<Rightarrow> query \<Rightarrow> resource list" where
  "filter_by_query l q =
     (if length q = 0 then l else filter (\<lambda>r. matches_values q (res_fields r)) l)"

definition split_eq :: "string \<Rightarrow> (string \<times> string) option" where
  "split_eq s =
     (if CHR ''='' \<in> set s then Some (cut_before (CHR ''='') s, cut_after (CHR ''='') s) else None)"

definition matches_query :: "resource \<Rightarrow> json list \<Rightarrow> bool" where
  "matches_query r items =
     list_all (\<lambda>item. case item of
         JStr s \<Rightarrow> (case split_eq s of None \<Rightarrow> True | Some (k, v) \<Rightarrow> string_field (res_fields r) k = v)
       | _ \<Rightarrow> True) items"

definition json_response :: "nat \<Rightarrow> json \<Rightarrow> http_response" where
  "json_response status v =
     \<lparr>rs_status = status, rs_content_type = ''application/json'', rs_body = Inr (Some v)\<rparr>"

definition error_json :: "nat \<Rightarrow> string \<Rightarrow> string \<Rightarrow> json" where
  "error_json code message detail =
     JObj ([(''code'', JNum (dec code)), (''message'', JStr message)] @
       (if detail = '''' then [] else [(''detail'', JStr detail)]))"

definition bad_request :: "string \<Rightarrow> http_response" where
  "bad_request detail = json_response 400 (error_json 400 ''bad request'' detail)"

definition not_found :: http_response where
  "not_found = json_response 404 (error_json 404 ''not found'' ''no such item'')"

text \<open>\<open>json.Unmarshal\<close> into a map: \<open>null\<close> is the empty map.\<close>

definition decode_body :: "json option \<Rightarrow> string + jobject" where
  "decode_body b =
     (case b of
        None \<Rightarrow> Inl ''unexpected end of JSON input''
      | Some JNull \<Rightarrow> Inr []
      | Some (JObj m) \<Rightarrow> Inr m
      | Some _ \<Rightarrow> Inl ''json: cannot unmarshal into Go value of type map[string]interface {}'')"

section \<open>Handlers\<close>

type_synonym handled = "http_response \<times> mock"

definition handle_get :: "string \<Rightarrow> query \<Rightarrow> mock \<Rightarrow> handled" where
  "handle_get path q m0 =
     (let m = log_request (LogQuery ''GET'' path q) m0 in
      case split_id path of (base, ident) \<Rightarrow>
        if ident \<noteq> '''' then
          (case find (\<lambda>r. res_id r = ident) (resources m base) of
             Some r \<Rightarrow> (json_response 200 (JObj (res_fields r)), m)
           | None \<Rightarrow> (not_found, m))
        else
          (json_response 200 (JArr (map (\<lambda>r. JObj (res_fields r)) (filter_by_query (resources m path) q))), m))"

definition handle_put :: "string \<Rightarrow> json option \<Rightarrow> mock \<Rightarrow> handled" where
  "handle_put path b m0 =
     (case decode_body b of
        Inl e \<Rightarrow> (bad_request e, log_request (LogBadBody ''PUT'' path e) m0)
      | Inr body \<Rightarrow>
          (let m = log_request (LogBody ''PUT'' path body) m0 in
           (json_response 201 (JObj (res_fields (new_resource m body))), add_resource path body m)))"

definition patch_field :: "jobject \<Rightarrow> string \<times> json \<Rightarrow> jobject" where
  "patch_field flds kv =
     (if snd kv = JNull then del_field (fst kv) flds else put_field (fst kv) (snd kv) flds)"

fun patch_first :: "string \<Rightarrow> jobject \<Rightarrow> resource list \<Rightarrow> (resource list \<times> jobject) option" where
  "patch_first ident body [] = None"
| "patch_first ident body (r # rs) =
     (if res_id r = ident then
        (let flds = foldl patch_field (res_fields r) body in
         Some (r\<lparr>res_fields := flds\<rparr> # rs, flds))
      else (case patch_first ident body rs of
        None \<Rightarrow> None | Some (rs', flds) \<Rightarrow> Some (r # rs', flds)))"

definition handle_patch :: "string \<Rightarrow> json option \<Rightarrow> mock \<Rightarrow> handled" where
  "handle_patch path b m0 =
     (case split_id path of (base, ident) \<Rightarrow>
        if ident = '''' then
          (bad_request ''missing resource id'', log_request (LogError ''PATCH'' path ''missing resource id'') m0)
        else
          (case decode_body b of
             Inl e \<Rightarrow> (bad_request e, log_request (LogBadBody ''PATCH'' path e) m0)
           | Inr body \<Rightarrow>
               (let m = log_request (LogBody ''PATCH'' path body) m0 in
                case patch_first ident body (resources m base) of
                  Some (l, flds) \<Rightarrow> (json_response 200 (JObj flds), set_resources base l m)
                | None \<Rightarrow> (not_found, m))))"

fun delete_first :: "string \<Rightarrow> resource list \<Rightarrow> resource list option" where
  "delete_first ident [] = None"
| "delete_first ident (r # rs) =
     (if res_id r = ident then Some rs else map_option ((#) r) (delete_first ident rs))"

definition handle_delete :: "string \<Rightarrow> mock \<Rightarrow> handled" where
  "handle_delete path m0 =
     (case split_id path of (base, ident) \<Rightarrow>
        if ident = '''' then
          (bad_request ''missing resource id'', log_request (LogError ''DELETE'' path ''missing resource id'') m0)
        else
          (let m = log_request (LogRequest ''DELETE'' path) m0 in
           case delete_first ident (resources m base) of
             Some l \<Rightarrow> (\<lparr>rs_status = 204, rs_content_type = '''', rs_body = Inr None\<rparr>, set_resources base l m)
           | None \<Rightarrow> (not_found, m)))"

definition string_items :: "jobject \<Rightarrow> string \<Rightarrow> string list" where
  "string_items body k =
     (case map_of body k of
        Some (JArr l) \<Rightarrow> concat (map (\<lambda>j. case j of JStr s \<Rightarrow> [s] | _ \<Rightarrow> []) l)
      | _ \<Rightarrow> [])"

definition project :: "string list \<Rightarrow> jobject \<Rightarrow> jobject" where
  "project proplist flds =
     (if length proplist > 0
      then foldl (\<lambda>out k. case map_of flds k of Some v \<Rightarrow> put_field k v out | None \<Rightarrow> out) [] proplist
      else flds)"

definition handle_post :: "string \<Rightarrow> json option \<Rightarrow> mock \<Rightarrow> handled" where
  "handle_post path b m0 =
     (case decode_body b of
        Inl e \<Rightarrow> (bad_request e, log_request (LogBadBody ''POST'' path e) m0)
      | Inr body \<Rightarrow>
          (let m = log_request (LogBody ''POST'' path body) m0;
               entries = resources m (trim_suffix ''/print'' path);
               entries1 = (case map_of body ''.query'' of
                  Some (JArr items) \<Rightarrow> filter (\<lambda>r. matches_query r items) entries
                | _ \<Rightarrow> entries);
               proplist = string_items body ''.proplist''
           in (json_response 200 (JArr (map (\<lambda>r. JObj (project proplist (res_fields r))) entries1)), m)))"

text \<open>The dispatch of \<open>Handler\<close>, and the runtime that the client talks to.\<close>

definition handler :: "http_request \<Rightarrow> mock \<Rightarrow> handled" where
  "handler r m =
     (let path = trim_suffix ''/'' (trim_prefix ''/rest'' (rq_path r)) in
      if rq_method r = ''GET'' then handle_get path (parse_query (rq_query r)) m
      else if rq_method r = ''PUT'' then handle_put path (rq_body r) m
      else if rq_method r = ''PATCH'' then handle_patch path (rq_body r) m
      else if rq_method r = ''DELETE'' then handle_delete path m
      else if rq_method r = ''POST'' then handle_post path (rq_body r) m
      else (\<lparr>rs_status = 405, rs_content_type = ''text/plain; charset=utf-8'', rs_body = Inr None\<rparr>, m))"

definition mock_http :: "mock http" where
  "mock_http r m = (case handler r m of (resp, m') \<Rightarrow> (Inr resp, m'))"

end
