(* ===== verification/Rest_Store.thy ===== *)
theory Rest_Store
  imports Rest_Client "HOL-Library.Multiset"
begin

text \<open>
  What \<open>Sync\<close> relies on: the four calls as operations on tables of entries, one table per path,
  each entry with an identifier. The locale of \<open>Rest_Sync\<close> states it; here are the
  notions of entry and agreement, the comparison, the patch and the matching phase of \<open>Sync\<close>.
\<close>

section \<open>Entries\<close>

type_synonym entry = "string \<times> jobject"

definition path_char :: "char \<Rightarrow> bool" where
  "path_char c \<longleftrightarrow> (let n = (of_char c :: nat) in
     48 \<le> n \<and> n \<le> 57 \<or> 65 \<le> n \<and> n \<le> 90 \<or> 97 \<le> n \<and> n \<le> 122 \<or> n = 45 \<or> n = 47)"

definition plain_path :: "string \<Rightarrow> bool" where
  "plain_path p \<longleftrightarrow> p \<noteq> [] \<and> hd p = CHR ''/'' \<and> last p \<noteq> CHR ''/'' \<and> list_all path_char p"

definition plain_id :: "string \<Rightarrow> bool" where
  "plain_id i \<longleftrightarrow> i \<noteq> [] \<and> hd i = CHR ''*'' \<and> list_all (\<lambda>c. path_char c \<and> c \<noteq> CHR ''/'') (tl i)"

definition keys_ok :: "jobject \<Rightarrow> bool" where
  "keys_ok m \<longleftrightarrow> flat_object m \<and> list_all (\<lambda>kv. fst kv = id_key \<or> plain_key (fst kv)) m"

definition entry_ok :: "entry \<Rightarrow> bool" where
  "entry_ok e \<longleftrightarrow> plain_id (fst e) \<and> keys_ok (snd e) \<and> map_of (snd e) id_key = Some (JStr (fst e))"

definition table_ok :: "entry list \<Rightarrow> bool" where
  "table_ok t \<longleftrightarrow> distinct (map fst t) \<and> list_all entry_ok t"

text \<open>A request: no identifier of its own and no null.\<close>

definition request_ok :: "jobject \<Rightarrow> bool" where
  "request_ok r \<longleftrightarrow> keys_ok r \<and> list_all (\<lambda>kv. fst kv \<noteq> id_key \<and> snd kv \<noteq> JNull) r"

definition field_text :: "jobject \<Rightarrow> string \<Rightarrow> string" where
  "field_text m k = (case map_of m k of Some (JStr t) \<Rightarrow> t | _ \<Rightarrow> '''')"

definition query_matches :: "query \<Rightarrow> jobject \<Rightarrow> bool" where
  "query_matches q m \<longleftrightarrow> list_all (\<lambda>kv. field_text m (fst kv) = snd kv) q"

text \<open>Agreement outside the ignored fields, where values count by their text.\<close>

definition agree :: "string list \<Rightarrow> jobject \<Rightarrow> jobject \<Rightarrow> bool" where
  "agree ignored r m \<longleftrightarrow> (\<forall>k. k \<notin> set ignored \<longrightarrow>
     map_option scalar_string (map_of r k) = map_option scalar_string (map_of m k))"

definition patched :: "(string \<rightharpoonup> json) \<Rightarrow> jobject \<Rightarrow> (string \<rightharpoonup> json)" where
  "patched f b k = (case map_of b k of None \<Rightarrow> f k | Some JNull \<Rightarrow> None | Some v \<Rightarrow> Some v)"

definition patch_ok :: "jobject \<Rightarrow> bool" where
  "patch_ok b \<longleftrightarrow> keys_ok b \<and> list_all (\<lambda>kv. fst kv \<noteq> id_key) b"

lemma ball_map_of:
  "distinct (map fst m) \<Longrightarrow> (\<forall>kv \<in> set m. P kv) \<longleftrightarrow> (\<forall>k v. map_of m k = Some v \<longrightarrow> P (k, v))"
  by (metis map_of_eq_Some_iff prod.collapse)

lemma keys_okD:
  assumes "keys_ok m"
  shows "distinct (map fst m)" "map_of m k = Some v \<Longrightarrow> scalar v"
    "map_of m k = Some v \<Longrightarrow> k \<noteq> id_key \<Longrightarrow> plain_key k"
proof -
  show "distinct (map fst m)" using assms by (simp add: keys_ok_def flat_object_def)
  show "map_of m k = Some v \<Longrightarrow> scalar v"
    using assms by (auto simp: keys_ok_def flat_object_def list_all_iff dest!: map_of_SomeD)
  show "map_of m k = Some v \<Longrightarrow> k \<noteq> id_key \<Longrightarrow> plain_key k"
    using assms by (force simp: keys_ok_def list_all_iff dest!: map_of_SomeD)
qed

lemma keys_ok_iff:
  "keys_ok m \<longleftrightarrow> distinct (map fst m) \<and>
    (\<forall>k v. map_of m k = Some v \<longrightarrow> scalar v \<and> (k = id_key \<or> plain_key k))"
proof (cases "distinct (map fst m)")
  case True
  show ?thesis
    unfolding keys_ok_def flat_object_def list_all_iff ball_map_of [OF True] fst_conv snd_conv
    using True by blast
next
  case False
  then show ?thesis by (simp add: keys_ok_def flat_object_def)
qed

section \<open>Comparing and patching\<close>

lemma compare_objs_agree:
  assumes G: "gjson_ok G" and a: "keys_ok a" and b: "keys_ok b" and "id_key \<in> set ignored"
  shows "compare_objs G (JObj a) (JObj b) ignored \<longleftrightarrow> agree ignored b a"
proof -
  note g = gjson_okD [OF G]
  have get: "gj_get G (JObj m) k = map_of m k" if "keys_ok m" "plain_key k" for m k
    using g(4) keys_okD(1) that by blast
  have "compare_objs G (JObj a) (JObj b) ignored \<longleftrightarrow>
    (\<forall>k v. map_of a k = Some v \<longrightarrow> k \<notin> set ignored \<longrightarrow>
        (\<exists>w. map_of b k = Some w \<and> scalar_string w = scalar_string v)) \<and>
    (\<forall>k v. map_of b k = Some v \<longrightarrow> k \<notin> set ignored \<longrightarrow> map_of a k \<noteq> None)" (is "?l \<longleftrightarrow> ?r")
  proof -
    have mem: "map_of m (fst kv) = Some (snd kv)" if "keys_ok m" "kv \<in> set m" for m kv
      using keys_okD(1) [OF that(1)] that(2) by simp
    have p: "plain_key (fst kv)" if "keys_ok m" "kv \<in> set m" "fst kv \<notin> set ignored" for m kv
      using keys_okD(3) [OF that(1) mem [OF that(1,2)]] that(3) assms(4) by metis
    have s: "gj_string G v = scalar_string v" if "keys_ok m" "map_of m k = Some v" for m k v
      using g(7) keys_okD(2) [OF that] by blast
    have l1: "(case gj_get G (JObj b) (fst kv) of None \<Rightarrow> False | Some v \<Rightarrow> gj_string G v = gj_string G (snd kv)) \<longleftrightarrow>
        (\<exists>w. map_of b (fst kv) = Some w \<and> scalar_string w = scalar_string (snd kv))"
      if "kv \<in> set a" "fst kv \<notin> set ignored" for kv
    proof -
      have "gj_get G (JObj b) (fst kv) = map_of b (fst kv)" using get [OF b p [OF a that]] .
      moreover have "gj_string G (snd kv) = scalar_string (snd kv)" using s [OF a mem [OF a that(1)]] .
      ultimately show ?thesis using s [OF b] by (cases "map_of b (fst kv)") auto
    qed
    have l2: "gj_get G (JObj a) (fst kv) = map_of a (fst kv)"
      if "kv \<in> set b" "fst kv \<notin> set ignored" for kv
      using get [OF a p [OF b that]] .
    have "?l \<longleftrightarrow> (\<forall>kv \<in> set a. fst kv \<in> set ignored \<or>
        (\<exists>w. map_of b (fst kv) = Some w \<and> scalar_string w = scalar_string (snd kv))) \<and>
      (\<forall>kv \<in> set b. fst kv \<in> set ignored \<or> map_of a (fst kv) \<noteq> None)"
      unfolding compare_objs_def list_all_iff g(6) [OF keys_okD(1) [OF a]] g(6) [OF keys_okD(1) [OF b]]
      using l1 l2 by (intro conj_cong ball_cong refl) auto
    also have "\<dots> \<longleftrightarrow> ?r"
      unfolding ball_map_of [OF keys_okD(1) [OF a]] ball_map_of [OF keys_okD(1) [OF b]] fst_conv snd_conv
      by blast
    finally show ?thesis .
  qed
  also have "\<dots> \<longleftrightarrow> agree ignored b a"
  proof
    assume r: "?r"
    show "agree ignored b a"
      unfolding agree_def
    proof (intro allI impI)
      fix k assume k: "k \<notin> set ignored"
      show "map_option scalar_string (map_of b k) = map_option scalar_string (map_of a k)"
        using r k by (cases "map_of a k"; cases "map_of b k") force+
    qed
  next
    assume "agree ignored b a"
    then have e: "k \<notin> set ignored \<Longrightarrow>
        map_option scalar_string (map_of b k) = map_option scalar_string (map_of a k)" for k
      by (simp add: agree_def)
    show "?r"
    proof (intro conjI allI impI)
      fix k v assume "map_of a k = Some v" "k \<notin> set ignored"
      then show "\<exists>w. map_of b k = Some w \<and> scalar_string w = scalar_string v"
        using e [of k] by (cases "map_of b k") auto
    next
      fix k v assume "map_of b k = Some v" "k \<notin> set ignored"
      then show "map_of a k \<noteq> None"
        using e [of k] by (cases "map_of a k") auto
    qed
  qed
  finally show ?thesis .
qed

lemma map_of_foldl_put:
  assumes "distinct (map fst l)"
  shows "map_of (foldl (\<lambda>req kv. if P kv then req else put_field (fst kv) (f kv) req) acc l) k =
    (case map_of l k of Some v \<Rightarrow> if P (k, v) then map_of acc k else Some (f (k, v)) | None \<Rightarrow> map_of acc k)"
  using assms
proof (induction l arbitrary: acc)
  case (Cons kv l)
  show ?case
  proof (cases "fst kv = k")
    case True
    then have "map_of l k = None" using Cons.prems by (simp add: map_of_eq_None_iff)
    with True Cons show ?thesis by (cases kv) (simp add: map_of_put_field)
  next
    case False
    with Cons show ?thesis by (cases kv) (auto simp: map_of_put_field split: option.splits)
  qed
qed simp

lemma distinct_foldl_put:
  "distinct (map fst acc) \<Longrightarrow>
    distinct (map fst (foldl (\<lambda>req kv. if P kv then req else put_field (fst kv) (f kv) req) acc l))"
  by (induction l arbitrary: acc) (auto simp: distinct_put_field)

lemma map_of_patch_request:
  assumes G: "gjson_ok G" and m: "keys_ok m" and r: "keys_ok r" and i: "id_key \<in> set ignored"
  shows "map_of (generate_patch_request G (JObj m) (JObj r) ignored) k =
      (if k \<in> set ignored then None else case map_of r k of Some v \<Rightarrow> Some v
        | None \<Rightarrow> if map_of m k = None then None else Some JNull)"
    and "distinct (map fst (generate_patch_request G (JObj m) (JObj r) ignored))"
proof -
  note g = gjson_okD [OF G] and km = keys_okD [OF m] and kr = keys_okD [OF r]
  have val: "map_of r k = Some v \<Longrightarrow> gj_value G v = v" for v using g(8) kr(2) by blast
  have get: "gj_get G (JObj r) k = map_of r k" if "map_of m k = Some v" "k \<notin> set ignored" for v
    using g(4) [OF kr(1)] km(3) [OF that(1)] that(2) i by metis
  show "map_of (generate_patch_request G (JObj m) (JObj r) ignored) k =
      (if k \<in> set ignored then None else case map_of r k of Some v \<Rightarrow> Some v
        | None \<Rightarrow> if map_of m k = None then None else Some JNull)"
    unfolding generate_patch_request_def g(6) [OF km(1)] g(6) [OF kr(1)]
      map_of_foldl_put [OF km(1)] map_of_foldl_put [OF kr(1)]
    by (cases "map_of m k"; cases "map_of r k") (auto simp: val get)
  show "distinct (map fst (generate_patch_request G (JObj m) (JObj r) ignored))"
    unfolding generate_patch_request_def by (intro distinct_foldl_put) simp
qed

lemma patch_request_ok:
  assumes "gjson_ok G" "keys_ok m" "request_ok r" "id_key \<in> set ignored"
  shows "patch_ok (generate_patch_request G (JObj m) (JObj r) ignored)"
proof -
  let ?b = "generate_patch_request G (JObj m) (JObj r) ignored"
  have r: "keys_ok r" using assms(3) by (simp add: request_ok_def)
  note b = map_of_patch_request [OF assms(1,2) r assms(4)]
  have "keys_ok ?b"
    unfolding keys_ok_iff b(1) using b(2) keys_okD(2,3) [OF assms(2)] keys_okD(2,3) [OF r]
    by (auto split: option.splits if_splits) metis+
  moreover have "fst kv \<noteq> id_key" if "kv \<in> set ?b" for kv
  proof -
    have "map_of ?b (fst kv) = Some (snd kv)" using b(2) that by simp
    then show ?thesis using b(1) [of "fst kv"] assms(4) by (auto split: if_splits)
  qed
  ultimately show ?thesis by (simp add: patch_ok_def list_all_iff)
qed

lemma request_no_null: "request_ok r \<Longrightarrow> map_of r k \<noteq> Some JNull"
  unfolding request_ok_def list_all_iff using map_of_SomeD by fastforce

text \<open>The values of a request outside the ignored fields, as a patch or a new entry has them.\<close>

definition exact :: "string list \<Rightarrow> jobject \<Rightarrow> jobject \<Rightarrow> bool" where
  "exact ignored r m \<longleftrightarrow> (\<forall>k. k \<notin> set ignored \<longrightarrow> map_of m k = map_of r k)"

lemma exact_agree: "exact ignored r m \<Longrightarrow> agree ignored r m"
  by (simp add: exact_def agree_def)

lemma patched_exact:
  assumes "gjson_ok G" "keys_ok m" "request_ok r" "id_key \<in> set ignored"
    and "map_of m' = patched (map_of m) (generate_patch_request G (JObj m) (JObj r) ignored)"
  shows "exact ignored r m'"
proof -
  have r: "keys_ok r" using assms(3) by (simp add: request_ok_def)
  show ?thesis
    unfolding exact_def assms(5) patched_def map_of_patch_request(1) [OF assms(1,2) r assms(4)]
    using request_no_null [OF assms(3)]
    by (auto split: option.splits json.splits)
qed

lemma put_exact:
  assumes "id_key \<in> set ignored" "map_of m = (map_of r)(id_key \<mapsto> v)"
  shows "exact ignored r m"
  using assms by (auto simp: exact_def)

section \<open>Matching\<close>

text \<open>Every listed object ends in exactly one place: found, patchable or in conflict.\<close>

definition slot_objs :: "slot \<Rightarrow> json list" where
  "slot_objs sl = (case slot_found sl of None \<Rightarrow> [] | Some j \<Rightarrow> [j]) @
     (case slot_patch sl of None \<Rightarrow> [] | Some j \<Rightarrow> [j])"

definition slots_objs :: "slot list \<Rightarrow> json list" where
  "slots_objs sls = concat (map slot_objs sls)"

definition slot_ok :: "gjson \<Rightarrow> string list \<Rightarrow> slot \<Rightarrow> bool" where
  "slot_ok G ignored sl \<longleftrightarrow> (\<forall>j. slot_found sl = Some j \<longrightarrow> compare_objs G j (slot_req sl) ignored)"

lemma place_props:
  assumes "place G ignored idf obj sls = Some sls'" "list_all (slot_ok G ignored) sls"
  shows "mset (slots_objs sls') = add_mset obj (mset (slots_objs sls))"
    "map slot_req sls' = map slot_req sls" "list_all (slot_ok G ignored) sls'"
  using assms
proof (induction sls arbitrary: sls')
  case (Cons sl sls)
  note s = slots_objs_def slot_objs_def slot_ok_def
  {
    case 1
    then show ?case using Cons.IH(1) by (auto simp: s split: if_splits option.splits)
  next
    case 2
    then show ?case using Cons.IH(2) by (auto simp: s split: if_splits)
  next
    case 3
    then show ?case using Cons.IH(3) by (auto simp: s split: if_splits)
  }
qed auto

lemma match_objs_props:
  assumes "match_objs G ignored idf objs sls cs = (sls', cs')" "list_all (slot_ok G ignored) sls"
  shows "mset (slots_objs sls') + mset cs' = mset objs + mset (slots_objs sls) + mset cs \<and>
    map slot_req sls' = map slot_req sls \<and> list_all (slot_ok G ignored) sls'"
  using assms
proof (induction objs arbitrary: sls cs)
  case (Cons obj objs)
  show ?case
  proof (cases "place G ignored idf obj sls")
    case None
    then have "match_objs G ignored idf objs sls (cs @ [obj]) = (sls', cs')" using Cons.prems by simp
    from Cons.IH [OF this Cons.prems(2)] show ?thesis by simp
  next
    case (Some sls1)
    note p = place_props [OF Some Cons.prems(2)]
    have "match_objs G ignored idf objs sls1 cs = (sls', cs')" using Cons.prems Some by simp
    from Cons.IH [OF this p(3)] show ?thesis by (simp add: p)
  qed
qed simp

lemma drop_useless_props:
  assumes "drop_useless (sls, cs) = (sls', cs')" "list_all (slot_ok G ignored) sls"
  shows "mset (slots_objs sls') + mset cs' = mset (slots_objs sls) + mset cs"
    "map slot_req sls' = map slot_req sls" "list_all (slot_ok G ignored) sls'"
    "list_all (\<lambda>sl. slot_found sl = None \<or> slot_patch sl = None) sls'"
proof -
  have e: "sls' = map (\<lambda>sl. if useless sl then sl\<lparr>slot_patch := None\<rparr> else sl) sls"
    "cs' = cs @ map (\<lambda>sl. the (slot_patch sl)) (filter useless sls)"
    using assms(1) by (auto simp: drop_useless_def)
  have "mset (slots_objs (map (\<lambda>sl. if useless sl then sl\<lparr>slot_patch := None\<rparr> else sl) sls)) +
      mset (map (\<lambda>sl. the (slot_patch sl)) (filter useless sls)) = mset (slots_objs sls)"
    by (induction sls) (auto simp: slots_objs_def slot_objs_def useless_def)
  then show "mset (slots_objs sls') + mset cs' = mset (slots_objs sls) + mset cs"
    unfolding e by (simp add: ac_simps)
  show "map slot_req sls' = map slot_req sls" unfolding e by (induction sls) auto
  show "list_all (slot_ok G ignored) sls'" "list_all (\<lambda>sl. slot_found sl = None \<or> slot_patch sl = None) sls'"
    using assms(2) unfolding e by (auto simp: list_all_iff slot_ok_def useless_def)
qed

lemma start_slots_props:
  "slots_objs (start_slots G reqs) = []" "list_all (slot_ok G ignored) (start_slots G reqs)"
  "map slot_req (start_slots G reqs) = map (\<lambda>r. gj_parse G (Some (JObj r))) reqs"
  by (induction reqs) (auto simp: start_slots_def slots_objs_def slot_objs_def slot_ok_def)

text \<open>The outcome of the matching phase.\<close>

lemma matching:
  assumes "drop_useless (match_objs G ignored idf objs (start_slots G reqs) []) = (sls, cs)"
  shows "mset (slots_objs sls) + mset cs = mset objs"
    "map slot_req sls = map (\<lambda>r. gj_parse G (Some (JObj r))) reqs"
    "list_all (slot_ok G ignored) sls"
    "list_all (\<lambda>sl. slot_found sl = None \<or> slot_patch sl = None) sls"
proof -
  obtain sls1 cs1 where m: "match_objs G ignored idf objs (start_slots G reqs) [] = (sls1, cs1)"
    by (cases "match_objs G ignored idf objs (start_slots G reqs) []")
  note a = match_objs_props [OF m start_slots_props(2)]
  note d = drop_useless_props [OF assms [unfolded m] conjunct2 [OF conjunct2 [OF a]]]
  show "mset (slots_objs sls) + mset cs = mset objs"
    using a d(1) by (simp add: start_slots_props)
  show "map slot_req sls = map (\<lambda>r. gj_parse G (Some (JObj r))) reqs"
    using a d(2) by (simp add: start_slots_props)
  show "list_all (slot_ok G ignored) sls"
    "list_all (\<lambda>sl. slot_found sl = None \<or> slot_patch sl = None) sls"
    using d(3,4) by blast+
qed

end
