(* ===== verification/Rest_Sync.thy ===== *)
theory Rest_Sync
  imports Rest_Store
begin

text \<open>
  The interface between \<open>Sync\<close> and the router, and the contract of \<open>Sync\<close> under it. The locale
  speaks of calls that succeed; a router may refuse any call. \<open>Mock_Props\<close> interprets it for the
  mock router behind the whole client.
\<close>

locale rest_store =
  fixes A :: "'s api"
    and table :: "'s \<Rightarrow> string \<Rightarrow> entry list"
    and good :: "'s \<Rightarrow> bool"
  assumes gjson: "gjson_ok (api_gjson A)"
    and good_table: "good s \<Longrightarrow> table_ok (table s p)"
    and get_law: "good s \<Longrightarrow> plain_path p \<Longrightarrow> distinct (map fst q) \<Longrightarrow> api_get A p q s = (Inr j, s') \<Longrightarrow>
      good s' \<and> table s' = table s \<and>
      j = JArr (map (\<lambda>e. JObj (snd e)) (filter (\<lambda>e. query_matches q (snd e)) (table s p)))"
    and put_law: "good s \<Longrightarrow> plain_path p \<Longrightarrow> request_ok r \<Longrightarrow> api_put A p r s = (Inr j, s') \<Longrightarrow>
      good s' \<and> (\<exists>i m. j = JObj m \<and> map_of m = (map_of r)(id_key \<mapsto> JStr i) \<and>
        table s' = (table s)(p := table s p @ [(i, m)]))"
    and patch_law: "good s \<Longrightarrow> plain_path p \<Longrightarrow> (i, m) \<in> set (table s p) \<Longrightarrow> patch_ok b \<Longrightarrow>
      api_patch A (p @ ''/'' @ i) b s = (Inr j, s') \<Longrightarrow>
      good s' \<and> (\<exists>m'. j = JObj m' \<and> map_of m' = patched (map_of m) b \<and>
        table s' = (table s)(p := map (\<lambda>e. if fst e = i then (i, m') else e) (table s p)))"
    and delete_law: "good s \<Longrightarrow> plain_path p \<Longrightarrow> (i, m) \<in> set (table s p) \<Longrightarrow>
      api_delete A (p @ ''/'' @ i) s = (Inr u, s') \<Longrightarrow>
      good s' \<and> table s' = (table s)(p := filter (\<lambda>e. fst e \<noteq> i) (table s p))"

text \<open>The lists of a table that the phases speak of.\<close>

definition drop_ids :: "string set \<Rightarrow> entry list \<Rightarrow> entry list" where
  "drop_ids I t = filter (\<lambda>e. fst e \<notin> I) t"

lemma drop_ids_simps [simp]:
  "drop_ids {} t = t" "drop_ids I (drop_ids J t) = drop_ids (I \<union> J) t"
  "set (drop_ids I t) = {e \<in> set t. fst e \<notin> I}"
  by (auto simp: drop_ids_def conj_commute)

lemma mset_drop_ids: "mset (drop_ids I t) = filter_mset (\<lambda>e. fst e \<notin> I) (mset t)"
  by (simp add: drop_ids_def)

lemma wrap_Inr: "wrap msg r = (Inr a, s) \<longleftrightarrow> r = (Inr a, s)"
  by (auto simp: wrap_def split: prod.splits sum.splits)

section \<open>The contract\<close>

text \<open>A filter that keeps an object or not by the object alone, whatever else it records.\<close>

definition decides :: "'f filter_func \<Rightarrow> (json \<Rightarrow> bool) \<Rightarrow> bool" where
  "decides filt keep \<longleftrightarrow> (case filt of None \<Rightarrow> \<forall>j. keep j | Some p \<Rightarrow> \<forall>j f. fst (p j f) = keep j)"

lemma filter_objs_decides: "decides filt keep \<Longrightarrow> fst (filter_objs filt objs f) = filter keep objs"
proof (induction filt objs f rule: filter_objs.induct)
  case (3 p obj objs f)
  obtain k f1 where k: "p obj f = (k, f1)" by fastforce
  then have "k = keep obj" using 3(2) by (auto simp: decides_def) (metis fst_conv)+
  then show ?case using 3(1) [OF k [symmetric] 3(2)] k by (auto split: prod.splits)
qed (auto simp: decides_def)

text \<open>
  An entry fits a request when it agrees with it, and is either one of the selected entries or has
  the very values of the request. \<open>synced\<close>: what a table \<open>t\<close> has become after \<open>Sync\<close> on the entries selected: those are gone but
  for one entry per request that agrees with it outside the ignored fields; the others are as before.
\<close>

definition selects :: "query \<Rightarrow> (json \<Rightarrow> bool) \<Rightarrow> entry \<Rightarrow> bool" where
  "selects q keep e \<longleftrightarrow> query_matches q (snd e) \<and> keep (JObj (snd e))"

definition fits :: "string list \<Rightarrow> (entry \<Rightarrow> bool) \<Rightarrow> jobject \<Rightarrow> entry \<Rightarrow> bool" where
  "fits ignored sel r e \<longleftrightarrow> agree ignored r (snd e) \<and> (sel e \<or> exact ignored r (snd e))"

definition synced ::
  "string list \<Rightarrow> jobject list \<Rightarrow> (entry \<Rightarrow> bool) \<Rightarrow> entry list \<Rightarrow> entry list \<Rightarrow> entry list \<Rightarrow> bool" where
  "synced ignored reqs sel t t' new \<longleftrightarrow>
     mset t' = mset (filter (\<lambda>e. \<not> sel e) t) + mset new \<and>
     list_all2 (fits ignored sel) reqs new"

context rest_store begin

abbreviation ident :: "json \<Rightarrow> string" where
  "ident j \<equiv> get_string (api_gjson A) j id_path"

definition is_entry :: "'s \<Rightarrow> string \<Rightarrow> json \<Rightarrow> bool" where
  "is_entry s p j \<longleftrightarrow> (\<exists>i m. (i, m) \<in> set (table s p) \<and> j = JObj m)"

lemma entry_ok: "good s \<Longrightarrow> (i, m) \<in> set (table s p) \<Longrightarrow> entry_ok (i, m)"
  using good_table by (auto simp: table_ok_def list_all_iff)

lemma ident_entry:
  assumes "good s" "(i, m) \<in> set (table s p)"
  shows "ident (JObj m) = i" "i \<noteq> ''''"
proof -
  have e: "entry_ok (i, m)" using assms by (rule entry_ok)
  then have i: "map_of m id_key = Some (JStr i)" and d: "distinct (map fst m)"
    by (simp_all add: entry_ok_def keys_ok_def flat_object_def)
  have "gj_get (api_gjson A) (JObj m) id_path = Some (JStr i)"
    unfolding gjson_okD(5) [OF gjson d] by (rule i)
  then show "ident (JObj m) = i"
    using gjson_okD(7) [OF gjson, of "JStr i"] by (simp add: get_string_def)
  show "i \<noteq> ''''" using e by (auto simp: entry_ok_def plain_id_def)
qed

lemma is_entryE:
  assumes "good s" "is_entry s p j"
  obtains m where "j = JObj m" "(ident j, m) \<in> set (table s p)" "ident j \<noteq> ''''"
proof -
  obtain i m where e: "(i, m) \<in> set (table s p)" "j = JObj m" using assms(2) by (auto simp: is_entry_def)
  show thesis using that [of m] ident_entry [OF assms(1) e(1)] e by simp
qed

lemma delete_conflicts_ok:
  assumes "good s" "plain_path p" "\<forall>j \<in> set cs. is_entry s p j" "distinct (map ident cs)"
    and "delete_conflicts A p cs s = (Inr u, s')"
  shows "good s' \<and> table s' = (table s)(p := drop_ids (ident ` set cs) (table s p))"
  using assms
proof (induction cs arbitrary: s)
  case (Cons j cs)
  obtain m where m: "j = JObj m" "(ident j, m) \<in> set (table s p)" "ident j \<noteq> ''''"
    using is_entryE [OF Cons.prems(1)] Cons.prems(3) by (metis list.set_intros(1))
  obtain u1 s1 where d: "api_delete A (p @ ''/'' @ ident j) s = (Inr u1, s1)"
    and r: "delete_conflicts A p cs s1 = (Inr u, s')"
    using Cons.prems(5) m(3)
    by (auto simp: Let_def wrap_Inr split: prod.splits sum.splits)
  note l = delete_law [OF Cons.prems(1,2) m(2) d]
  have "\<forall>k \<in> set cs. is_entry s1 p k"
  proof
    fix k assume k: "k \<in> set cs"
    then obtain n where n: "k = JObj n" "(ident k, n) \<in> set (table s p)"
      using is_entryE [OF Cons.prems(1)] Cons.prems(3) by (metis list.set_intros(2))
    have "ident k \<in> ident ` set cs" using k by (rule imageI)
    moreover have "ident j \<notin> ident ` set cs" using Cons.prems(4) by simp
    ultimately have "ident k \<noteq> ident j" by metis
    then show "is_entry s1 p k" using l n by (auto simp: is_entry_def)
  qed
  then have "good s' \<and> table s' = (table s1)(p := drop_ids (ident ` set cs) (table s1 p))"
    using Cons.IH [OF _ Cons.prems(2) _ _ r] l Cons.prems(4) by auto
  moreover have "table s1 p = drop_ids {ident j} (table s p)" using l by (simp add: drop_ids_def)
  ultimately show ?case using l by (simp add: Un_commute)
qed auto

text \<open>One request: afterwards the table holds one entry that agrees with it in place of the slot's.\<close>

definition slot_ids :: "slot \<Rightarrow> string set" where
  "slot_ids sl = ident ` set (slot_objs sl)"

definition served :: "string list \<Rightarrow> string \<Rightarrow> jobject \<Rightarrow> slot \<Rightarrow> 's \<Rightarrow> json \<Rightarrow> 's \<Rightarrow> entry \<Rightarrow> bool" where
  "served ignored p r sl s j s' e \<longleftrightarrow> good s' \<and> (\<forall>p'. p' \<noteq> p \<longrightarrow> table s' p' = table s p') \<and>
     j = JObj (snd e) \<and> fits ignored (\<lambda>e. e \<in> set (table s p) \<and> fst e \<in> slot_ids sl) r e \<and>
     mset (table s' p) = add_mset e (mset (drop_ids (slot_ids sl) (table s p))) \<and>
     (fst e \<in> slot_ids sl \<or> fst e \<notin> fst ` set (table s p))"

lemma replace_entry:
  assumes "distinct (map fst t)" "(i, m) \<in> set t"
  shows "mset (map (\<lambda>e. if fst e = i then (i, m') else e) t) = add_mset (i, m') (mset (drop_ids {i} t))"
  using assms
proof (induction t)
  case (Cons e t)
  show ?case
  proof (cases "fst e = i")
    case True
    then have "i \<notin> fst ` set t" using Cons.prems(1) by auto
    then have "map (\<lambda>e. if fst e = i then (i, m') else e) t = t" "drop_ids {i} t = t"
      by (auto simp: drop_ids_def image_iff filter_id_conv intro!: map_idI)
    with True show ?thesis by (simp add: drop_ids_def)
  next
    case False
    with Cons show ?thesis by (auto simp: drop_ids_def)
  qed
qed simp

lemma apply_slot_ok:
  assumes "good s" "plain_path p" "request_ok r" "id_key \<in> set ignored" "slot_req sl = JObj r"
    and "slot_ok (api_gjson A) ignored sl" "slot_found sl = None \<or> slot_patch sl = None"
    and "\<forall>j \<in> set (slot_objs sl). is_entry s p j"
    and "apply_slot A p ignored r sl s = (Inr j, s')"
  shows "\<exists>e. served ignored p r sl s j s' e"
proof -
  have rk: "keys_ok r" using assms(3) by (simp add: request_ok_def)
  have dt: "distinct (map fst (table s p))" using good_table [OF assms(1)] by (simp add: table_ok_def)
  show ?thesis
  proof (cases "slot_found sl")
    case (Some f)
    then have so: "slot_objs sl = [f]" using assms(7) by (auto simp: slot_objs_def)
    then obtain m where m: "f = JObj m" "(ident f, m) \<in> set (table s p)"
      using is_entryE [OF assms(1)] assms(8) by (metis list.set_intros(1))
    have "keys_ok m" using entry_ok [OF assms(1) m(2)] by (simp add: entry_ok_def)
    then have "agree ignored r m"
      using compare_objs_agree [OF gjson _ rk assms(4)] assms(5,6) Some m(1) by (simp add: slot_ok_def)
    moreover have "mset (table s p) = add_mset (ident f, m) (mset (drop_ids {ident f} (table s p)))"
    proof -
      have "map (\<lambda>e. if fst e = ident f then (ident f, m) else e) (table s p) = table s p"
        using eq_key_imp_eq_value [OF dt m(2)] by (intro map_idI) auto
      then show ?thesis using replace_entry [OF dt m(2), of m] by simp
    qed
    ultimately have "served ignored p r sl s j s' (ident f, m)"
      using assms(1,9) Some so m(1,2) by (simp add: served_def apply_slot_def slot_ids_def fits_def)
    then show ?thesis ..
  next
    case None
    note fnone = None
    show ?thesis
    proof (cases "slot_patch sl")
      case (Some f)
      then have so: "slot_objs sl = [f]" using fnone by (simp add: slot_objs_def)
      then obtain m where m: "f = JObj m" "(ident f, m) \<in> set (table s p)" "ident f \<noteq> ''''"
        using is_entryE [OF assms(1)] assms(8) by (metis list.set_intros(1))
      have km: "keys_ok m" using entry_ok [OF assms(1) m(2)] by (simp add: entry_ok_def)
      have c: "api_patch A (p @ ''/'' @ ident f)
          (generate_patch_request (api_gjson A) (JObj m) (JObj r) ignored) s = (Inr j, s')"
        using assms(9) fnone Some m assms(5) by (simp add: apply_slot_def wrap_Inr)
      obtain m' where l: "good s'" "j = JObj m'"
          "map_of m' = patched (map_of m) (generate_patch_request (api_gjson A) (JObj m) (JObj r) ignored)"
          "table s' = (table s)(p := map (\<lambda>e. if fst e = ident f then (ident f, m') else e) (table s p))"
        using patch_law [OF assms(1,2) m(2) patch_request_ok [OF gjson km assms(3,4)] c] by blast
      have "exact ignored r m'" using patched_exact [OF gjson km assms(3,4) l(3)] .
      then have "served ignored p r sl s j s' (ident f, m')"
        using l so replace_entry [OF dt m(2), of m'] exact_agree
        by (simp add: served_def slot_ids_def fits_def)
      then show ?thesis ..
    next
      case None
      then have so: "slot_objs sl = []" using fnone by (simp add: slot_objs_def)
      have c: "api_put A p r s = (Inr j, s')"
        using assms(9) fnone None by (simp add: apply_slot_def wrap_Inr)
      obtain i m where l: "good s'" "j = JObj m" "map_of m = (map_of r)(id_key \<mapsto> JStr i)"
          "table s' = (table s)(p := table s p @ [(i, m)])"
        using put_law [OF assms(1-3) c] by blast
      have "distinct (map fst (table s' p))" using good_table [OF l(1)] by (simp add: table_ok_def)
      then have "i \<notin> fst ` set (table s p)" using l(4) by auto
      then have "served ignored p r sl s j s' (i, m)"
        using l so put_exact [OF assms(4) l(3)] exact_agree by (simp add: served_def slot_ids_def fits_def)
      then show ?thesis ..
    qed
  qed
qed

lemma served_keeps:
  assumes "good s" "served ignored p r sl s j s' e" "is_entry s p k" "ident k \<notin> slot_ids sl"
  shows "is_entry s' p k"
proof -
  obtain n where n: "k = JObj n" "(ident k, n) \<in> set (table s p)" using is_entryE [OF assms(1,3)] by metis
  have "mset (table s' p) = add_mset e (mset (drop_ids (slot_ids sl) (table s p)))"
    using assms(2) by (simp add: served_def)
  then have "set (table s' p) = insert e (set (drop_ids (slot_ids sl) (table s p)))"
    by (metis set_mset_add_mset_insert set_mset_mset)
  then show ?thesis using n assms(4) by (auto simp: is_entry_def)
qed

definition row_ok :: "string list \<Rightarrow> jobject \<times> slot \<Rightarrow> bool" where
  "row_ok ignored x \<longleftrightarrow> request_ok (fst x) \<and> slot_req (snd x) = JObj (fst x) \<and>
     slot_ok (api_gjson A) ignored (snd x) \<and> (slot_found (snd x) = None \<or> slot_patch (snd x) = None)"

lemma apply_slots_ok:
  assumes "good s" "plain_path p" "id_key \<in> set ignored" "\<forall>x \<in> set rows. row_ok ignored x"
    and "\<forall>j \<in> set (slots_objs (map snd rows)). is_entry s p j"
    and "distinct (map ident (slots_objs (map snd rows)))"
    and "apply_slots A p ignored rows s = (Inr js, s')"
  shows "good s' \<and> (\<forall>p'. p' \<noteq> p \<longrightarrow> table s' p' = table s p') \<and>
    (\<exists>new. mset (table s' p) = mset (drop_ids (ident ` set (slots_objs (map snd rows))) (table s p)) + mset new \<and>
      list_all2 (\<lambda>x e. fits ignored (\<lambda>e. e \<in> set (table s p) \<and>
        fst e \<in> ident ` set (slots_objs (map snd rows))) (fst x) e) rows new \<and>
      js = map (\<lambda>e. JObj (snd e)) new)"
  using assms(1,4-7)
proof (induction rows arbitrary: s js)
  case Nil
  then show ?case by (simp add: slots_objs_def)
next
  case (Cons x rows)
  obtain r sl where x: "x = (r, sl)" by fastforce
  let ?I = "ident ` set (slots_objs (map snd rows))"
  have so: "slots_objs (map snd (x # rows)) = slot_objs sl @ slots_objs (map snd rows)"
    by (simp add: slots_objs_def x)
  have row: "row_ok ignored (r, sl)" using Cons.prems(2) x by simp
  obtain j s1 js1 where c: "apply_slot A p ignored r sl s = (Inr j, s1)"
      "apply_slots A p ignored rows s1 = (Inr js1, s')" "js = j # js1"
    using Cons.prems(5) x by (auto split: prod.splits sum.splits)
  obtain e where e: "served ignored p r sl s j s1 e"
    using apply_slot_ok [OF Cons.prems(1) assms(2) _ assms(3) _ _ _ _ c(1)] row Cons.prems(3) so
    by (auto simp: row_ok_def)
  note sv = e [unfolded served_def]
  have disj: "slot_ids sl \<inter> ?I = {}" using Cons.prems(4) so by (simp add: slot_ids_def)
  have sub: "?I \<subseteq> fst ` set (table s p)"
  proof
    fix i assume "i \<in> ?I"
    then obtain k where k: "k \<in> set (slots_objs (map snd rows))" "i = ident k" by blast
    then have "is_entry s p k" using Cons.prems(3) so by simp
    then show "i \<in> fst ` set (table s p)" using is_entryE [OF Cons.prems(1)] k(2) by (metis fst_conv imageI)
  qed
  have "\<forall>k \<in> set (slots_objs (map snd rows)). is_entry s1 p k"
    using served_keeps [OF Cons.prems(1) e] Cons.prems(3) so disj by fastforce
  then obtain new where n: "good s'" "\<forall>p'. p' \<noteq> p \<longrightarrow> table s' p' = table s1 p'"
      "mset (table s' p) = mset (drop_ids ?I (table s1 p)) + mset new"
      "list_all2 (\<lambda>x e. fits ignored (\<lambda>e. e \<in> set (table s1 p) \<and> fst e \<in> ?I) (fst x) e) rows new" "js1 = map (\<lambda>e. JObj (snd e)) new"
    using Cons.IH [OF _ _ _ _ c(2)] sv Cons.prems(2,4) so by auto
  have eI: "fst e \<notin> ?I" using sv disj sub by blast
  then have "mset (drop_ids ?I (table s1 p)) = add_mset e (mset (drop_ids (slot_ids sl \<union> ?I) (table s p)))"
    using sv by (simp add: mset_drop_ids) (simp add: filter_filter_mset conj_commute)
  then have "mset (table s' p) = mset (drop_ids (slot_ids sl \<union> ?I) (table s p)) + mset (e # new)"
    using n(3) by simp
  moreover have uni: "ident ` set (slots_objs (map snd (x # rows))) = slot_ids sl \<union> ?I"
    unfolding so by (simp add: slot_ids_def image_Un)
  moreover have "list_all2 (\<lambda>x e. fits ignored (\<lambda>e. e \<in> set (table s p) \<and>
      fst e \<in> slot_ids sl \<union> ?I) (fst x) e) (x # rows) (e # new)"
  proof -
    have "set (table s1 p) = insert e (set (drop_ids (slot_ids sl) (table s p)))"
      using sv by (metis set_mset_add_mset_insert set_mset_mset)
    then have "e' \<in> set (table s p)" if "e' \<in> set (table s1 p)" "fst e' \<in> ?I" for e'
      using that eI by auto
    then have "list_all2 (\<lambda>x e. fits ignored (\<lambda>e. e \<in> set (table s p) \<and>
        fst e \<in> slot_ids sl \<union> ?I) (fst x) e) rows new"
      using n(4) by (elim list_all2_mono) (auto simp: fits_def)
    then show ?thesis using sv x by (auto simp: fits_def)
  qed
  moreover have "js = map (\<lambda>e. JObj (snd e)) (e # new)" using sv n(5) c(3) by simp
  moreover have "\<forall>p'. p' \<noteq> p \<longrightarrow> table s' p' = table s p'" using sv n(2) by simp
  ultimately show ?case unfolding uni using n(1) by blast
qed

lemma ident_objs:
  assumes "good s" "set es \<subseteq> set (table s p)"
  shows "map ident (map (\<lambda>e. JObj (snd e)) es) = map fst es"
  using assms(2) ident_entry(1) [OF assms(1)] by (induction es) auto

lemma drop_selected:
  assumes "good s"
  shows "drop_ids (fst ` set (filter P (table s p))) (table s p) = filter (\<lambda>e. \<not> P e) (table s p)"
proof -
  have d: "distinct (map fst (table s p))" using good_table [OF assms] by (simp add: table_ok_def)
  have "e \<in> set (table s p) \<Longrightarrow> fst e \<in> fst ` set (filter P (table s p)) \<longleftrightarrow> P e" for e
  proof
    assume "e \<in> set (table s p)" "fst e \<in> fst ` set (filter P (table s p))"
    then obtain e' where "e' \<in> set (table s p)" "P e'" "fst e' = fst e" by auto
    then show "P e" using eq_key_imp_eq_value [OF d] \<open>e \<in> set (table s p)\<close> by (metis prod.collapse)
  qed simp
  then show ?thesis unfolding drop_ids_def by (intro filter_cong) auto
qed

text \<open>What is known when the matching is over.\<close>

lemma sync_plan:
  assumes s: "good s" and p: "plain_path p" and q: "distinct (map fst q)"
    and reqs: "\<forall>r \<in> set reqs. request_ok r" and filt: "decides filt keep"
    and g: "api_get A p q s = (Inr resp, s1)"
    and fo: "filter_objs filt (gj_array (api_gjson A) resp) f = (objs, f1)"
    and d: "drop_useless (match_objs (api_gjson A) ignored idf objs
      (start_slots (api_gjson A) reqs) []) = (sls, cs)"
  shows "good s1" "table s1 = table s" "gj_is_array (api_gjson A) resp" "length sls = length reqs"
    "distinct (map ident (slots_objs sls @ cs))"
    "ident ` set (slots_objs sls) \<union> ident ` set cs = fst ` set (filter (selects q keep) (table s p))"
    "\<forall>j \<in> set (slots_objs sls @ cs). is_entry s p j"
    "\<forall>x \<in> set (zip reqs sls). row_ok ignored x"
proof -
  let ?G = "api_gjson A" and ?es = "filter (selects q keep) (table s p)"
  note gl = get_law [OF s p q g]
  show "good s1" "table s1 = table s" "gj_is_array ?G resp"
    using gl gjson_okD(2) [OF gjson] by simp_all
  have resp: "gj_array ?G resp =
      map (\<lambda>e. JObj (snd e)) (filter (\<lambda>e. query_matches q (snd e)) (table s p))"
    using gl gjson_okD(3) [OF gjson] by simp
  have objs: "objs = map (\<lambda>e. JObj (snd e)) ?es"
    using filter_objs_decides [OF filt, of "gj_array ?G resp" f] fo resp
    by (simp add: filter_map comp_def selects_def [abs_def] conj_commute)
  note mt = matching [OF d]
  show len: "length sls = length reqs" using arg_cong [OF mt(2), of length] by simp
  have ids: "map ident objs = map fst ?es" unfolding objs by (rule ident_objs [OF s]) auto
  have "distinct (map fst ?es)"
    using good_table [OF s, of p] by (simp add: table_ok_def distinct_map_filter)
  then have "distinct (map ident objs)" using ids by simp
  moreover have "mset (map ident (slots_objs sls @ cs)) = mset (map ident objs)"
    using mt(1) by (metis mset_append mset_map)
  ultimately show "distinct (map ident (slots_objs sls @ cs))" by (metis mset_eq_imp_distinct_iff)
  have set: "set (slots_objs sls) \<union> set cs = set objs" using mt(1) by (metis set_mset_mset set_mset_union)
  then show "ident ` set (slots_objs sls) \<union> ident ` set cs = fst ` set ?es"
    using ids by (metis image_Un list.set_map)
  have "\<forall>j \<in> set objs. is_entry s p j" unfolding objs by (auto simp: is_entry_def)
  then show "\<forall>j \<in> set (slots_objs sls @ cs). is_entry s p j" using set by auto
  show "\<forall>x \<in> set (zip reqs sls). row_ok ignored x"
  proof
    fix x assume "x \<in> set (zip reqs sls)"
    then obtain i where i: "i < length reqs" "x = (reqs ! i, sls ! i)"
      using len by (auto simp: set_zip)
    have "slot_req (sls ! i) = JObj (reqs ! i)"
      using arg_cong [OF mt(2), of "\<lambda>l. l ! i"] i(1) len gjson_okD(1) [OF gjson] by simp
    moreover have "sls ! i \<in> set sls" using i(1) len by simp
    ultimately show "row_ok ignored x"
      using i reqs mt(3,4) by (auto simp: row_ok_def list_all_iff)
  qed
qed

text \<open>The conflicts are gone, the objects in the slots are still there.\<close>

lemma after_deletes:
  assumes s: "good s" "plain_path p" "\<forall>j \<in> set (slots_objs sls @ cs). is_entry s p j"
    "distinct (map ident (slots_objs sls @ cs))" "delete_conflicts A p cs s = (Inr u, s2)"
  shows "good s2" "table s2 = (table s)(p := drop_ids (ident ` set cs) (table s p))"
    "\<forall>j \<in> set (slots_objs sls). is_entry s2 p j" "distinct (map ident (slots_objs sls))"
proof -
  show c: "good s2" "table s2 = (table s)(p := drop_ids (ident ` set cs) (table s p))"
    "distinct (map ident (slots_objs sls))"
    using delete_conflicts_ok [OF s(1,2) _ _ s(5)] s(3,4) by auto
  show "\<forall>j \<in> set (slots_objs sls). is_entry s2 p j"
  proof
    fix j assume j: "j \<in> set (slots_objs sls)"
    then have "is_entry s p j" using s(3) by auto
    then obtain m where m: "j = JObj m" "(ident j, m) \<in> set (table s p)" using is_entryE [OF s(1)] by metis
    have "ident j \<notin> ident ` set cs" using s(4) j by auto
    then show "is_entry s2 p j" using m c by (auto simp: is_entry_def)
  qed
qed

lemma sync_contract:
  assumes s: "good s" and p: "plain_path p" and q: "distinct (map fst q)"
    and reqs: "\<forall>r \<in> set reqs. request_ok r" and ign: "reqs = [] \<or> id_key \<in> set ignored"
    and filt: "decides filt keep"
    and ok: "sync A p reqs q filt idf ignored f s = (Inr js, f', s')"
  shows "good s' \<and> (\<forall>p'. p' \<noteq> p \<longrightarrow> table s' p' = table s p') \<and>
    (\<exists>new. synced ignored reqs (selects q keep) (table s p) (table s' p) new \<and>
      js = map (\<lambda>e. JObj (snd e)) new)"
proof -
  let ?G = "api_gjson A"
  obtain resp s1 where g: "api_get A p q s = (Inr resp, s1)"
    using ok by (auto simp: sync_def wrap_def split: prod.splits sum.splits)
  obtain objs f1 where fo: "filter_objs filt (gj_array ?G resp) f = (objs, f1)" by fastforce
  obtain sls cs where d: "drop_useless (match_objs ?G ignored idf objs (start_slots ?G reqs) []) = (sls, cs)"
    by fastforce
  note plan = sync_plan [OF s p q reqs filt g fo d]
  obtain u s2 where del: "delete_conflicts A p cs s1 = (Inr u, s2)"
    and app: "apply_slots A p ignored (zip reqs sls) s2 = (Inr js, s')"
    using ok g plan(3) fo d by (auto simp: sync_def wrap_def split: prod.splits sum.splits)
  have ent: "\<forall>j \<in> set (slots_objs sls @ cs). is_entry s1 p j" using plan(7) by (simp add: is_entry_def plan(2))
  note c = after_deletes [OF plan(1) p ent plan(5) del, unfolded plan(2)]
  have snd: "map snd (zip reqs sls) = sls" using plan(4) by simp
  have kept: "drop_ids (ident ` set (slots_objs sls)) (table s2 p) = filter (\<lambda>e. \<not> selects q keep e) (table s p)"
    using c(2) plan(6) drop_selected [OF s, of "selects q keep" p] by simp
  show ?thesis
  proof (cases "reqs = []")
    case True
    then have "sls = []" using plan(4) by simp
    then have "table s2 p = filter (\<lambda>e. \<not> selects q keep e) (table s p)"
      using kept by (simp add: slots_objs_def)
    moreover have "s' = s2" "js = []" using app True by auto
    ultimately show ?thesis using c(1,2) True by (auto simp: synced_def)
  next
    case False
    then have i: "id_key \<in> set ignored" using ign by blast
    obtain new where n: "good s'" "\<forall>p'. p' \<noteq> p \<longrightarrow> table s' p' = table s2 p'"
        "mset (table s' p) = mset (drop_ids (ident ` set (slots_objs sls)) (table s2 p)) + mset new"
        "list_all2 (\<lambda>x e. fits ignored (\<lambda>e. e \<in> set (table s2 p) \<and>
          fst e \<in> ident ` set (slots_objs sls)) (fst x) e) (zip reqs sls) new" "js = map (\<lambda>e. JObj (snd e)) new"
      using apply_slots_ok [OF c(1) p i plan(8) _ _ app] c(3,4) snd by auto
    have sel: "selects q keep e" if "e \<in> set (table s2 p)" "fst e \<in> ident ` set (slots_objs sls)" for e
    proof -
      have e: "e \<in> set (table s p)" "fst e \<in> fst ` set (filter (selects q keep) (table s p))"
        using that c(2) plan(6) by auto
      then have "e \<notin> set (drop_ids (fst ` set (filter (selects q keep) (table s p))) (table s p))" by simp
      then show ?thesis using e(1) unfolding drop_selected [OF s] by simp
    qed
    have "list_all2 (fits ignored (selects q keep)) reqs new"
      using n(4) plan(4) sel by (simp add: list_all2_conv_all_nth fits_def) metis
    then have "synced ignored reqs (selects q keep) (table s p) (table s' p) new"
      using n(3) kept by (simp add: synced_def)
    then show ?thesis using n(1,2,5) c(2) by auto
  qed
qed

end

section \<open>Nothing to do\<close>

text \<open>The slots when the objects at the indices \<open>D\<close> have been found.\<close>

definition found_slots :: "jobject list \<Rightarrow> json list \<Rightarrow> nat set \<Rightarrow> slot list" where
  "found_slots reqs js D = map (\<lambda>j. \<lparr>slot_req = JObj (reqs ! j),
     slot_found = (if j \<in> D then Some (js ! j) else None), slot_patch = None\<rparr>) [0..<length reqs]"

lemma place_found:
  assumes "k < length reqs" "k \<notin> D" "compare_objs G (js ! k) (JObj (reqs ! k)) ignored"
    and "\<forall>i < length reqs. i \<noteq> k \<longrightarrow> \<not> compare_objs G (js ! k) (JObj (reqs ! i)) ignored \<and>
      \<not> same_id idf (js ! k) (JObj (reqs ! i))"
  shows "place G ignored idf (js ! k) (found_slots reqs js D) = Some (found_slots reqs js (insert k D))"
proof -
  define sl where "sl D j = \<lparr>slot_req = JObj (reqs ! j),
     slot_found = (if j \<in> D then Some (js ! j) else None), slot_patch = None\<rparr>" for D j
  have "place G ignored idf (js ! k) (map (sl D) is) = Some (map (sl (insert k D)) is)"
    if "set is \<subseteq> {..<length reqs}" "k \<in> set is" "distinct is" for "is"
    using that
  proof (induction "is")
    case (Cons i "is")
    show ?case
    proof (cases "i = k")
      case True
      then have "map (sl D) is = map (sl (insert k D)) is"
        using Cons.prems(3) by (intro map_cong) (auto simp: sl_def)
      with True show ?thesis using assms(2,3) by (simp add: sl_def)
    next
      case False
      then have "sl (insert k D) i = sl D i" by (simp add: sl_def)
      moreover have "\<not> compare_objs G (js ! k) (JObj (reqs ! i)) ignored"
        "\<not> same_id idf (js ! k) (JObj (reqs ! i))" using assms(4) Cons.prems(1) False by auto
      ultimately show ?thesis using Cons False by (simp add: sl_def)
    qed
  qed simp
  from this [of "[0..<length reqs]"] show ?thesis
    using assms(1) by (simp add: found_slots_def sl_def [abs_def] lessThan_atLeast0)
qed

lemma match_found:
  assumes "distinct ks" "set ks \<inter> D = {}" "set ks \<subseteq> {..<length reqs}"
    and "\<forall>k < length reqs. compare_objs G (js ! k) (JObj (reqs ! k)) ignored"
    and "\<forall>k < length reqs. \<forall>i < length reqs. i \<noteq> k \<longrightarrow>
      \<not> compare_objs G (js ! k) (JObj (reqs ! i)) ignored \<and> \<not> same_id idf (js ! k) (JObj (reqs ! i))"
  shows "match_objs G ignored idf (map ((!) js) ks) (found_slots reqs js D) cs =
    (found_slots reqs js (D \<union> set ks), cs)"
  using assms(1-3)
proof (induction ks arbitrary: D)
  case (Cons k ks)
  have "place G ignored idf (js ! k) (found_slots reqs js D) = Some (found_slots reqs js (insert k D))"
    using Cons.prems assms(4,5) by (intro place_found) auto
  then show ?case using Cons by simp
qed simp

lemma mset_map_nth:
  "mset xs = mset (map f ys) \<Longrightarrow> \<exists>zs. mset zs = mset ys \<and> xs = map f zs"
proof (induction xs arbitrary: ys)
  case (Cons x xs)
  then have "x \<in> set (map f ys)" by (metis list.set_intros(1) set_mset_mset)
  then obtain y where y: "y \<in> set ys" "x = f y" by auto
  have "mset (map f ys) = add_mset x (mset (map f (remove1 y ys)))"
    using y by (metis image_mset_add_mset insert_DiffM mset_map mset_remove1 set_mset_mset)
  then have "mset xs = mset (map f (remove1 y ys))" using Cons.prems by simp
  from Cons.IH [OF this] obtain zs where "mset zs = mset (remove1 y ys)" "xs = map f zs" by blast
  then show ?case using y by (intro exI [of _ "y # zs"]) simp
qed simp

text \<open>The identity of a request separates it from the others and is kept by agreement.\<close>

definition id_separates :: "id_func \<Rightarrow> string list \<Rightarrow> jobject list \<Rightarrow> bool" where
  "id_separates idf ignored reqs \<longleftrightarrow>
     (case idf of None \<Rightarrow> length reqs \<le> 1
      | Some h \<Rightarrow> distinct (map (\<lambda>r. h (JObj r)) reqs) \<and>
          (\<forall>r \<in> set reqs. \<forall>m. keys_ok m \<longrightarrow> agree ignored r m \<longrightarrow> h (JObj m) = h (JObj r)))"

lemma apply_found:
  assumes "length js = length reqs"
  shows "apply_slots A p ignored (zip reqs (found_slots reqs js {..<length reqs})) s = (Inr js, s)"
proof -
  have rows: "apply_slots A p ignored rows s = (Inr (map (\<lambda>x. the (slot_found (snd x))) rows), s)"
    if "\<forall>x \<in> set rows. slot_found (snd x) \<noteq> None" for rows
    using that by (induction rows) (auto simp: apply_slot_def)
  have "map (\<lambda>x. the (slot_found (snd x))) (zip reqs (found_slots reqs js {..<length reqs})) = js"
    using assms by (auto simp: found_slots_def intro!: nth_equalityI)
  moreover have "\<forall>x \<in> set (zip reqs (found_slots reqs js {..<length reqs})). slot_found (snd x) \<noteq> None"
    by (auto simp: found_slots_def set_zip)
  ultimately show ?thesis using rows by metis
qed

context rest_store begin

text \<open>When the selected entries agree with the requests one by one, \<open>Sync\<close> only reads.\<close>

lemma sync_quiet:
  assumes s: "good s" and p: "plain_path p" and q: "distinct (map fst q)"
    and reqs: "\<forall>r \<in> set reqs. request_ok r" and ign: "id_key \<in> set ignored"
    and filt: "decides filt keep" and idf: "id_separates idf ignored reqs"
    and new: "mset (filter (selects q keep) (table s p)) = mset new"
      "list_all2 (\<lambda>r e. agree ignored r (snd e)) reqs new"
    and get: "api_get A p q s = (Inr resp, s1)"
  shows "\<exists>f'. sync A p reqs q filt idf ignored f s = (Inr (map (\<lambda>e. JObj (snd e)) new), f', s1)"
proof -
  let ?G = "api_gjson A" and ?js = "map (\<lambda>e. JObj (snd e)) new"
  note gl = get_law [OF s p q get]
  have resp: "gj_is_array ?G resp" "gj_array ?G resp =
      map (\<lambda>e. JObj (snd e)) (filter (\<lambda>e. query_matches q (snd e)) (table s p))"
    using gl gjson_okD(2,3) [OF gjson] by simp_all
  obtain objs f1 where fo: "filter_objs filt (gj_array ?G resp) f = (objs, f1)" by fastforce
  have objs: "objs = map (\<lambda>e. JObj (snd e)) (filter (selects q keep) (table s p))"
    using filter_objs_decides [OF filt, of "gj_array ?G resp" f] fo resp(2)
    by (simp add: filter_map comp_def selects_def [abs_def] conj_commute)
  have len: "length new = length reqs" using new(2) by (metis list_all2_lengthD)
  have ko: "keys_ok (snd e)" if "e \<in> set new" for e
  proof -
    have "e \<in> set (table s p)" using that new(1) by (metis filter_is_subset set_mset_mset subsetD)
    then show ?thesis using entry_ok [OF s, of "fst e" "snd e" p] by (simp add: entry_ok_def)
  qed
  have cmp: "compare_objs ?G (?js ! k) (JObj (reqs ! i)) ignored \<longleftrightarrow> agree ignored (reqs ! i) (snd (new ! k))"
    if "k < length reqs" "i < length reqs" for k i
  proof -
    have "request_ok (reqs ! i)" using reqs that(2) by simp
    then show ?thesis
      using compare_objs_agree [OF gjson ko _ ign, of "new ! k" "reqs ! i"] that len by (simp add: request_ok_def)
  qed
  have ag: "agree ignored (reqs ! k) (snd (new ! k))" if "k < length reqs" for k
    using new(2) that by (rule list_all2_nthD)
  have sep: "\<not> same_id idf (?js ! k) (JObj (reqs ! i)) \<and> \<not> agree ignored (reqs ! i) (snd (new ! k))"
    if "k < length reqs" "i < length reqs" "i \<noteq> k" for k i
  proof (cases idf)
    case None
    then show ?thesis using idf that by (simp add: id_separates_def)
  next
    case (Some h)
    then have h: "distinct (map (\<lambda>r. h (JObj r)) reqs)"
        "\<And>r m. r \<in> set reqs \<Longrightarrow> keys_ok m \<Longrightarrow> agree ignored r m \<Longrightarrow> h (JObj m) = h (JObj r)"
      using idf by (auto simp: id_separates_def)
    have k: "keys_ok (snd (new ! k))" using ko that(1) len by simp
    have "h (JObj (snd (new ! k))) = h (JObj (reqs ! k))" using h(2) [OF _ k ag [OF that(1)]] that(1) by simp
    moreover have "h (JObj (reqs ! k)) \<noteq> h (JObj (reqs ! i))"
      using h(1) that by (simp add: distinct_conv_nth)
    ultimately show ?thesis using h(2) [of "reqs ! i", OF _ k] that len Some by (auto simp: same_id_def)
  qed
  have "mset objs = mset (map ((!) ?js) [0..<length reqs])"
  proof -
    have "map ((!) ?js) [0..<length ?js] = ?js" by (rule map_nth)
    then show ?thesis using new(1) objs len by (simp add: mset_map)
  qed
  then obtain ks where ks: "mset ks = mset [0..<length reqs]" "objs = map ((!) ?js) ks"
    using mset_map_nth by blast
  have kp: "distinct ks" "set ks = {..<length reqs}"
    using ks(1) by (metis distinct_upt mset_eq_imp_distinct_iff) (metis atLeast_upt ks(1) set_mset_mset)
  have start: "start_slots ?G reqs = found_slots reqs ?js {}"
    using gjson_okD(1) [OF gjson] by (auto simp: start_slots_def found_slots_def intro!: nth_equalityI)
  have "match_objs ?G ignored idf objs (start_slots ?G reqs) [] = (found_slots reqs ?js {..<length reqs}, [])"
    unfolding ks(2) start using match_found [OF kp(1), of "{}" reqs ?G ?js ignored idf "[]"] kp(2) cmp ag sep by auto
  moreover have "drop_useless (found_slots reqs ?js {..<length reqs}, []) = (found_slots reqs ?js {..<length reqs}, [])"
    by (auto simp: drop_useless_def found_slots_def useless_def filter_empty_conv)
  ultimately have "drop_useless (match_objs ?G ignored idf objs (start_slots ?G reqs) []) =
      (found_slots reqs ?js {..<length reqs}, [])" by simp
  then show ?thesis
    using apply_found [of ?js reqs A p ignored s1] len get resp(1) fo by (simp add: sync_def wrap_def)
qed

end

section \<open>A router that answers\<close>

text \<open>A store whose calls on listed entries and well-formed requests do succeed.\<close>

locale reliable_store = rest_store A table good
  for A :: "'s api" and table :: "'s \<Rightarrow> string \<Rightarrow> entry list" and good :: "'s \<Rightarrow> bool" +
  assumes get_succeeds: "good s \<Longrightarrow> plain_path p \<Longrightarrow> distinct (map fst q) \<Longrightarrow>
      \<exists>j s'. api_get A p q s = (Inr j, s')"
    and put_succeeds: "good s \<Longrightarrow> plain_path p \<Longrightarrow> request_ok r \<Longrightarrow> \<exists>j s'. api_put A p r s = (Inr j, s')"
    and patch_succeeds: "good s \<Longrightarrow> plain_path p \<Longrightarrow> (i, m) \<in> set (table s p) \<Longrightarrow> patch_ok b \<Longrightarrow>
      \<exists>j s'. api_patch A (p @ ''/'' @ i) b s = (Inr j, s')"
    and delete_succeeds: "good s \<Longrightarrow> plain_path p \<Longrightarrow> (i, m) \<in> set (table s p) \<Longrightarrow>
      \<exists>u s'. api_delete A (p @ ''/'' @ i) s = (Inr u, s')"

context reliable_store begin

lemma delete_conflicts_succeeds:
  assumes "good s" "plain_path p" "\<forall>j \<in> set cs. is_entry s p j" "distinct (map ident cs)"
  shows "\<exists>s'. delete_conflicts A p cs s = (Inr (), s')"
  using assms
proof (induction cs rule: rev_induct)
  case (snoc j cs)
  have app: "delete_conflicts A p (xs @ ys) s0 = (case delete_conflicts A p xs s0 of
      (Inl e, s') \<Rightarrow> (Inl e, s') | (Inr _, s') \<Rightarrow> delete_conflicts A p ys s')" for xs ys s0
    by (induction xs arbitrary: s0) (auto simp: Let_def split: prod.splits sum.splits)
  obtain s1 where s1: "delete_conflicts A p cs s = (Inr (), s1)" using snoc by auto
  have so: "slots_objs [\<lparr>slot_req = j, slot_found = Some j, slot_patch = None\<rparr>] = [j]"
    by (simp add: slots_objs_def slot_objs_def)
  have "good s1" "is_entry s1 p j"
    using after_deletes [where sls = "[\<lparr>slot_req = j, slot_found = Some j, slot_patch = None\<rparr>]",
        OF snoc.prems(1,2) _ _ s1] snoc.prems(3,4) by (auto simp: so)
  then obtain m where m: "(ident j, m) \<in> set (table s1 p)" "ident j \<noteq> ''''" using is_entryE by metis
  obtain u s2 where "api_delete A (p @ ''/'' @ ident j) s1 = (Inr u, s2)"
    using delete_succeeds [OF \<open>good s1\<close> snoc.prems(2) m(1)] by blast
  then show ?case using m(2) s1 by (simp add: app wrap_def)
qed simp

lemma apply_slot_succeeds:
  assumes "good s" "plain_path p" "row_ok ignored (r, sl)" "id_key \<in> set ignored"
    and "\<forall>j \<in> set (slot_objs sl). is_entry s p j"
  shows "\<exists>j s'. apply_slot A p ignored r sl s = (Inr j, s')"
proof (cases "slot_found sl")
  case None
  note fnone = None
  have r: "request_ok r" "slot_req sl = JObj r" using assms(3) by (simp_all add: row_ok_def)
  show ?thesis
  proof (cases "slot_patch sl")
    case None
    then show ?thesis using fnone put_succeeds [OF assms(1,2) r(1)] by (auto simp: apply_slot_def wrap_def)
  next
    case (Some f)
    then obtain m where m: "f = JObj m" "(ident f, m) \<in> set (table s p)" "ident f \<noteq> ''''"
      using is_entryE [OF assms(1)] assms(5) fnone by (auto simp: slot_objs_def)
    have "keys_ok m" using entry_ok [OF assms(1) m(2)] by (simp add: entry_ok_def)
    then have "patch_ok (generate_patch_request (api_gjson A) (JObj m) (JObj r) ignored)"
      using patch_request_ok [OF gjson _ r(1) assms(4)] by blast
    then obtain j s' where "api_patch A (p @ ''/'' @ ident f)
        (generate_patch_request (api_gjson A) (JObj m) (JObj r) ignored) s = (Inr j, s')"
      using patch_succeeds [OF assms(1,2) m(2)] by blast
    then show ?thesis using fnone Some m r(2) by (simp add: apply_slot_def wrap_Inr)
  qed
qed (simp add: apply_slot_def)

lemma apply_slots_succeeds:
  assumes "good s" "plain_path p" "id_key \<in> set ignored" "\<forall>x \<in> set rows. row_ok ignored x"
    and "\<forall>j \<in> set (slots_objs (map snd rows)). is_entry s p j"
    and "distinct (map ident (slots_objs (map snd rows)))"
  shows "\<exists>js s'. apply_slots A p ignored rows s = (Inr js, s')"
  using assms(1,4-6)
proof (induction rows arbitrary: s)
  case (Cons x rows)
  obtain r sl where x: "x = (r, sl)" by fastforce
  have so: "slots_objs (map snd (x # rows)) = slot_objs sl @ slots_objs (map snd rows)"
    by (simp add: slots_objs_def x)
  have row: "row_ok ignored (r, sl)" using Cons.prems(2) x by simp
  obtain j s1 where j: "apply_slot A p ignored r sl s = (Inr j, s1)"
    using apply_slot_succeeds [OF Cons.prems(1) assms(2) row assms(3)] Cons.prems(3) so by auto
  then obtain e where e: "served ignored p r sl s j s1 e"
    using apply_slot_ok [OF Cons.prems(1) assms(2) _ assms(3) _ _ _ _ j] row Cons.prems(3) so
    by (auto simp: row_ok_def)
  have "slot_ids sl \<inter> ident ` set (slots_objs (map snd rows)) = {}"
    using Cons.prems(4) so by (simp add: slot_ids_def)
  then have "\<forall>k \<in> set (slots_objs (map snd rows)). is_entry s1 p k"
    using served_keeps [OF Cons.prems(1) e] Cons.prems(3) so by fastforce
  then obtain js s' where "apply_slots A p ignored rows s1 = (Inr js, s')"
    using Cons.IH [of s1] e Cons.prems(2,4) so by (auto simp: served_def)
  then show ?case using j x by simp
qed simp

lemma sync_succeeds:
  assumes s: "good s" and p: "plain_path p" and q: "distinct (map fst q)"
    and reqs: "\<forall>r \<in> set reqs. request_ok r" and ign: "reqs = [] \<or> id_key \<in> set ignored"
    and filt: "decides filt keep"
  shows "\<exists>js f' s'. sync A p reqs q filt idf ignored f s = (Inr js, f', s')"
proof -
  let ?G = "api_gjson A"
  obtain resp s1 where g: "api_get A p q s = (Inr resp, s1)" using get_succeeds [OF s p q] by blast
  obtain objs f1 where fo: "filter_objs filt (gj_array ?G resp) f = (objs, f1)" by fastforce
  obtain sls cs where d: "drop_useless (match_objs ?G ignored idf objs (start_slots ?G reqs) []) = (sls, cs)"
    by fastforce
  note plan = sync_plan [OF s p q reqs filt g fo d]
  have ent: "\<forall>j \<in> set (slots_objs sls @ cs). is_entry s1 p j" using plan(7) by (simp add: is_entry_def plan(2))
  obtain s2 where del: "delete_conflicts A p cs s1 = (Inr (), s2)"
    using delete_conflicts_succeeds [OF plan(1) p, of cs] ent plan(5) by auto
  note c = after_deletes [OF plan(1) p ent plan(5) del]
  have "\<exists>js s3. apply_slots A p ignored (zip reqs sls) s2 = (Inr js, s3)"
  proof (cases "reqs = []")
    case False
    then show ?thesis
      using apply_slots_succeeds [OF c(1) p _ plan(8)] c(3,4) ign plan(4) by simp
  qed simp
  then show ?thesis using g plan(3) fo d del by (auto simp: sync_def wrap_def)
qed

end

end
