(* ===== verification/Mock_Props.thy ===== *)
theory Mock_Props
  imports Mock_Router Rest_Sync
begin

text \<open>
  The mock router behind the REST client fulfils the interface of \<open>Sync\<close>: a request goes through
  \<open>buildURL\<close>, the parsing of the URL, the dispatch and the handler, and its answer through the
  decoding. Then the contract of \<open>Sync\<close> holds for it end to end.
\<close>

section \<open>Numbered identifiers\<close>

lemma digit_val_digit: "n < 10 \<Longrightarrow> digit_val (char_of (48 + n)) = Some n"
  by (simp add: digit_val_def)

lemma dec_rev_inj: "dec_rev m = dec_rev n \<Longrightarrow> m = n"
proof (induction m arbitrary: n rule: dec_rev.induct)
  case (1 m)
  have d: "hd (dec_rev k) = char_of (48 + k mod 10)" "tl (dec_rev k) = (if k < 10 then [] else dec_rev (k div 10))" for k
    by (subst dec_rev.simps; simp)+
  have ne: "dec_rev k \<noteq> []" for k by (subst dec_rev.simps) simp
  have "Some (m mod 10) = Some (n mod 10)"
    using d(1) [of m] d(1) [of n] 1(2) digit_val_digit [of "m mod 10"] digit_val_digit [of "n mod 10"] by simp
  moreover have "m div 10 = n div 10"
  proof (cases "m < 10")
    case True
    then have "n < 10" using d(2) [of m] d(2) [of n] 1(2) ne by (auto split: if_splits)
    with True show ?thesis by simp
  next
    case False
    then have "tl (dec_rev n) \<noteq> []" using d(2) [of m] 1(2) ne by metis
    then have "\<not> n < 10" using d(2) [of n] by metis
    then show ?thesis using 1(1) [OF False, of "n div 10"] False d(2) [of m] d(2) [of n] 1(2) by simp
  qed
  ultimately show ?case by (metis mod_div_mult_eq option.inject)
qed

lemma dec_inj: "dec m = dec n \<longleftrightarrow> m = n"
  using dec_rev_inj by (auto simp: dec_def)

lemma dec_chars: "c \<in> set (dec n) \<Longrightarrow> \<exists>d < 10 :: nat. c = char_of (48 + d)"
proof -
  have "c \<in> set (dec_rev n) \<Longrightarrow> \<exists>d < 10 :: nat. c = char_of (48 + d)"
  proof (induction n rule: dec_rev.induct)
    case (1 n)
    have "c \<in> set (if n < 10 then [char_of (48 + n)] else char_of (48 + n mod 10) # dec_rev (n div 10))"
      using 1(2) by (simp only: dec_rev.simps [of n, symmetric])
    then show ?case using 1(1) by (cases "n < 10") (auto intro: exI [of _ "n mod 10"])
  qed
  then show "c \<in> set (dec n) \<Longrightarrow> \<exists>d < 10 :: nat. c = char_of (48 + d)" by (simp add: dec_def)
qed

lemma plain_id_dec: "plain_id (CHR ''*'' # dec n)"
proof -
  have "path_char c \<and> c \<noteq> CHR ''/''" if c: "c \<in> set (dec n)" for c
  proof -
    obtain d :: nat where d: "d < 10" "c = char_of (48 + d)" using dec_chars [OF c] by blast
    then have n: "(of_char c :: nat) = 48 + d" by simp
    moreover have "(of_char (CHR ''/'') :: nat) = 47" by simp
    ultimately show ?thesis using d(1) by (auto simp: path_char_def Let_def)
  qed
  then show ?thesis by (simp add: plain_id_def list_all_iff)
qed

section \<open>From the client to the handler\<close>

definition host_ok :: "string \<Rightarrow> bool" where
  "host_ok h \<longleftrightarrow> list_all (\<lambda>c. \<not> control_char c \<and> c \<notin> {CHR ''/'', CHR ''?'', CHR ''#''}) h"

definition scheme_ok :: "string \<Rightarrow> bool" where
  "scheme_ok h \<longleftrightarrow> list_all (\<lambda>c. \<not> control_char c \<and> c \<notin> {CHR '':'', CHR ''#''}) h"

definition client_ok :: "client \<Rightarrow> bool" where
  "client_ok c \<longleftrightarrow> cl_path c = ''/rest'' \<and> host_ok (cl_host c) \<and> scheme_ok (cl_scheme c)"

definition target_char :: "char \<Rightarrow> bool" where
  "target_char c \<longleftrightarrow> path_char c \<or> c = CHR ''*''"

definition target_ok :: "string \<Rightarrow> bool" where
  "target_ok p \<longleftrightarrow> p \<noteq> [] \<and> hd p = CHR ''/'' \<and> last p \<noteq> CHR ''/'' \<and> list_all target_char p"

lemma plain_path_target: "plain_path p \<Longrightarrow> target_ok p"
  by (auto simp: plain_path_def target_ok_def target_char_def list_all_iff)

lemma entry_target:
  assumes "plain_path p" "plain_id i"
  shows "target_ok (p @ ''/'' @ i)"
proof -
  have "path_char (CHR ''/'')" by (simp add: path_char_def)
  moreover have "last i \<noteq> CHR ''/''"
    using assms(2) by (cases i) (auto simp: plain_id_def list_all_iff)
  moreover have "list_all target_char i"
    using assms(2) by (cases i) (auto simp: plain_id_def list_all_iff target_char_def)
  ultimately show ?thesis
    using assms by (auto simp: plain_path_def plain_id_def target_ok_def target_char_def list_all_iff)
qed

lemma target_char_plain:
  assumes "target_char c"
  shows "c \<noteq> CHR ''%''" "c \<noteq> CHR ''?''" "c \<noteq> CHR ''#''" "\<not> control_char c"
  using assms by (auto simp: target_char_def path_char_def control_char_def Let_def)

lemma unescape_plain: "CHR ''%'' \<notin> set s \<Longrightarrow> unescape False s = Some s"
  by (induction s) auto

lemma cut_absent: "c \<notin> set s \<Longrightarrow> cut_before c s = s" "c \<notin> set s \<Longrightarrow> cut_after c s = []"
  by (induction s) (auto simp: cut_before_def cut_after_def)

lemma cut_append_absent:
  "c \<notin> set u \<Longrightarrow> cut_before c (u @ v) = u @ cut_before c v"
  "c \<notin> set u \<Longrightarrow> v \<noteq> [] \<Longrightarrow> hd v \<noteq> c \<Longrightarrow> cut_after c (u @ v) = cut_after c v"
  by (induction u) (auto simp: cut_before_def cut_after_def)

lemma trim_suffix_slash: "p \<noteq> [] \<Longrightarrow> last p \<noteq> CHR ''/'' \<Longrightarrow> trim_suffix ''/'' p = p"
  by (cases p rule: rev_cases) (auto simp: trim_suffix_def trim_prefix_def has_prefix_def)

lemma build_url_target:
  assumes "client_ok c" "target_ok p"
  shows "build_url c p q = cl_scheme c @ ''://'' @ cl_host c @ ''/rest'' @ p @
    (if encode_query q = '''' then '''' else ''?'' @ encode_query q)"
proof -
  obtain p' where p': "p = CHR ''/'' # p'" using assms(2) by (cases p) (auto simp: target_ok_def)
  have "trim_suffix ''/'' (''/rest'' @ ''/'' @ p') = ''/rest'' @ ''/'' @ p'"
    using assms(2) p' by (intro trim_suffix_slash) (auto simp: target_ok_def)
  then show ?thesis
    using assms(1) p' by (simp add: build_url_def client_ok_def trim_prefix_def has_prefix_def Let_def)
qed

lemma str_join_set: "set (str_join sep ws) \<subseteq> set sep \<union> (\<Union>w \<in> set ws. set w)"
  by (induction sep ws rule: str_join.induct) auto

lemma encode_query_chars:
  assumes "x \<in> set (encode_query q)"
  shows "unreserved x \<or> x \<in> {CHR ''%'', CHR ''+'', CHR ''='', CHR ''&''}"
proof -
  have "x = CHR ''&'' \<or> (\<exists>kv \<in> set q. x \<in> set (encode_pair kv))"
    using assms str_join_set [of "''&''" "map encode_pair (sort_key fst q)"]
    by (auto simp: encode_query_def)
  then show ?thesis using query_escape_safe [of x] by (auto simp: encode_pair_def)
qed

lemma encode_query_plain:
  assumes "x \<in> set (encode_query q)"
  shows "\<not> control_char x" "x \<noteq> CHR ''#''"
  using encode_query_chars [OF assms] by (auto simp: unreserved_def control_char_def Let_def)

lemma parse_built_url:
  assumes "client_ok c" "target_ok p"
  shows "parse_url (build_url c p q) = Some (cl_host c, ''/rest'' @ p, encode_query q)"
proof -
  define raw where "raw = (if encode_query q = '''' then '''' else ''?'' @ encode_query q)"
  define hier where "hier = cl_host c @ ''/rest'' @ p"
  have u: "build_url c p q = cl_scheme c @ ''://'' @ hier @ raw"
    using build_url_target [OF assms] by (simp add: raw_def hier_def)
  have tp: "\<forall>x \<in> set p. target_char x" using assms(2) by (simp add: target_ok_def list_all_iff)
  note t = target_char_plain
  have h: "\<forall>x \<in> set (cl_host c). \<not> control_char x \<and> x \<notin> {CHR ''/'', CHR ''?'', CHR ''#''}"
    and s: "\<forall>x \<in> set (cl_scheme c). \<not> control_char x \<and> x \<notin> {CHR '':'', CHR ''#''}"
    using assms(1) by (simp_all add: client_ok_def host_ok_def scheme_ok_def list_all_iff)
  define plain where "plain x \<longleftrightarrow> \<not> control_char x \<and> x \<noteq> CHR ''#''" for x
  have segs: "list_all plain (cl_scheme c)" "list_all plain (cl_host c)" "list_all plain p"
    "list_all plain (encode_query q)"
    using h s tp t(3,4) encode_query_plain by (simp_all add: plain_def list_all_iff)
  have "list_all plain ''://''" "list_all plain ''/rest''" "plain (CHR ''?'')"
    by (simp_all add: plain_def control_char_def)
  with segs have "list_all plain (build_url c p q)" by (simp add: u hier_def raw_def)
  then have hash: "CHR ''#'' \<notin> set (build_url c p q)" and ctl: "\<not> list_ex control_char (build_url c p q)"
    by (auto simp: plain_def list_all_iff list_ex_iff)
  have quest: "CHR ''?'' \<notin> set hier" unfolding hier_def using t(2) tp h by auto
  have colon: "cut_after (CHR '':'') (cl_scheme c @ CHR '':'' # v) = v" for v
    using s by (intro cut_append) auto
  have rest_part: "drop 2 (cut_after (CHR '':'') (build_url c p q)) = hier @ raw"
    unfolding u by (simp add: colon)
  have b: "cut_before (CHR ''?'') (hier @ raw) = hier"
    "cut_after (CHR ''?'') (hier @ raw) = encode_query q"
    using quest by (auto simp: raw_def cut_append cut_absent)
  have host: "cut_before (CHR ''/'') hier = cl_host c"
    unfolding hier_def using h by (simp add: cut_append_absent) (simp add: cut_before_def)
  have path: "unescape False (''/rest'' @ p) = Some (''/rest'' @ p)"
    using t(1) tp by (intro unescape_plain) auto
  show ?thesis
    using cut_absent [OF hash] rest_part b host ctl path by (simp add: parse_url_def Let_def hier_def)
qed

definition mock_api :: "gjson \<Rightarrow> client \<Rightarrow> mock api" where
  "mock_api G c = \<lparr>api_gjson = G, api_client = c, api_http = mock_http\<rparr>"

definition request_of :: "client \<Rightarrow> string \<Rightarrow> string \<Rightarrow> json option \<Rightarrow> query \<Rightarrow> http_request" where
  "request_of c method p b q =
     \<lparr>rq_method = method, rq_host = cl_host c, rq_path = ''/rest'' @ p, rq_query = encode_query q,
      rq_auth = (if cl_username c \<noteq> '''' \<and> cl_password c \<noteq> '''' then Some (cl_username c, cl_password c) else None),
      rq_body = b\<rparr>"

text \<open>A request of the client reaches the handler with its method, path, query and body.\<close>

lemma do_request_mock:
  assumes "client_ok c" "target_ok p"
  shows "do_request (mock_api G c) method p r q m =
    (case handler (request_of c method p (map_option JObj r) q) m of (resp, m') \<Rightarrow> (decode_response G resp, m'))"
  using parse_built_url [OF assms, of q]
  by (simp add: do_request_def call_def mock_api_def new_request_def request_of_def mock_http_def
      split: prod.splits)

lemma handler_path:
  assumes "target_ok p"
  shows "trim_suffix ''/'' (trim_prefix ''/rest'' (''/rest'' @ p)) = p"
  using assms by (simp add: trim_prefix_def has_prefix_def target_ok_def trim_suffix_slash)

section \<open>The stored tables\<close>

definition mock_table :: "mock \<Rightarrow> string \<Rightarrow> entry list" where
  "mock_table m p = map (\<lambda>r. (res_id r, res_fields r)) (resources m p)"

text \<open>Identifiers are unique per path and older than the next one, entries are well formed.\<close>

definition mock_good :: "mock \<Rightarrow> bool" where
  "mock_good m \<longleftrightarrow> (\<forall>p. table_ok (mock_table m p) \<and>
     (\<forall>r \<in> set (resources m p). \<exists>n < mk_next m. res_id r = CHR ''*'' # dec n))"

lemma resources_simps [simp]:
  "resources (log_request e m) = resources m"
  "resources (set_resources p l m) = (resources m)(p := l)"
  "mk_next (log_request e m) = mk_next m" "mk_next (set_resources p l m) = mk_next m"
  "resources (m\<lparr>mk_next := n\<rparr>) = resources m"
  by (auto simp: resources_def log_request_def set_resources_def map_of_put_field)

lemma mock_good_log [simp]: "mock_good (log_request e m) = mock_good m"
  by (simp add: mock_good_def mock_table_def)

lemma mock_table_log [simp]: "mock_table (log_request e m) = mock_table m"
  by (simp add: mock_table_def fun_eq_iff)

lemma mock_table_set:
  "mock_table (set_resources p l m) = (mock_table m)(p := map (\<lambda>r. (res_id r, res_fields r)) l)"
  by (simp add: mock_table_def fun_eq_iff)

lemma mock_good_set:
  assumes "mock_good m" "table_ok (map (\<lambda>r. (res_id r, res_fields r)) l)"
    and "\<forall>r \<in> set l. \<exists>n < mk_next m. res_id r = CHR ''*'' # dec n"
  shows "mock_good (set_resources p l m)"
  using assms by (simp add: mock_good_def mock_table_set)

lemma split_id_plain: "plain_path p \<Longrightarrow> split_id p = (p, '''')"
proof -
  assume p: "plain_path p"
  have "\<not> has_prefix ''*'' (rev (takeWhile (\<lambda>c. c \<noteq> CHR ''/'') (rev p)))"
  proof
    assume "has_prefix ''*'' (rev (takeWhile (\<lambda>c. c \<noteq> CHR ''/'') (rev p)))"
    then have "CHR ''*'' \<in> set (rev (takeWhile (\<lambda>c. c \<noteq> CHR ''/'') (rev p)))"
      by (metis has_prefix_iff append_Cons list.set_intros(1))
    then have "CHR ''*'' \<in> set p" using set_takeWhileD by fastforce
    then show False using p by (auto simp: plain_path_def list_all_iff path_char_def)
  qed
  then show ?thesis by (simp add: split_id_def Let_def)
qed

lemma split_id_entry:
  assumes "plain_id i"
  shows "split_id (p @ ''/'' @ i) = (p, i)"
proof -
  have slash: "\<forall>c \<in> set (rev i). c \<noteq> CHR ''/''"
    using assms by (cases i) (auto simp: plain_id_def list_all_iff)
  have "takeWhile (\<lambda>c. c \<noteq> CHR ''/'') (rev (p @ ''/'' @ i)) = rev i"
    using slash by (simp add: takeWhile_append)
  moreover have "has_prefix ''*'' i" using assms by (cases i) (auto simp: plain_id_def has_prefix_def)
  ultimately show ?thesis by (simp add: split_id_def Let_def)
qed

lemma filter_by_query_matches:
  assumes "distinct (map fst q)"
  shows "filter_by_query l (sort_key fst q) = filter (\<lambda>r. query_matches q (res_fields r)) l"
proof -
  have d: "distinct (map fst (sort_key fst q))"
    using assms by (metis mset_map mset_sort mset_eq_imp_distinct_iff)
  have "map_of (sort_key fst q) k = Some v \<longleftrightarrow> (k, v) \<in> set q" for k v
    using d by simp
  then have "Some (string_field flds (fst kv)) = map_of (sort_key fst q) (fst kv) \<longleftrightarrow>
      field_text flds (fst kv) = snd kv" if "kv \<in> set q" for kv flds
    using that assms unfolding string_field_def field_text_def
    by (cases kv) (metis (no_types, lifting) fst_conv option.inject snd_conv)
  then have "matches_values (sort_key fst q) flds = query_matches q flds" for flds
    by (simp add: matches_values_def query_matches_def list_all_iff)
  then show ?thesis by (cases q) (auto simp: filter_by_query_def query_matches_def)
qed

lemma patch_fields:
  assumes "distinct (map fst b)"
  shows "map_of (foldl patch_field flds b) = patched (map_of flds) b"
    and "distinct (map fst flds) \<Longrightarrow> distinct (map fst (foldl patch_field flds b))"
proof -
  show "map_of (foldl patch_field flds b) = patched (map_of flds) b"
    using assms
  proof (induction b arbitrary: flds)
    case Nil
    then show ?case by (simp add: patched_def fun_eq_iff)
  next
    case (Cons kv b)
    have step: "map_of (patch_field flds kv) = patched (map_of flds) [kv]"
      by (cases "snd kv") (auto simp: patch_field_def map_of_put_field map_of_del_field patched_def fun_eq_iff)
    have "map_of b (fst kv) = None" using Cons.prems by (simp add: map_of_eq_None_iff)
    then have "patched (patched (map_of flds) [kv]) b = patched (map_of flds) (kv # b)"
      by (cases kv) (auto simp: patched_def fun_eq_iff split: option.splits)
    then show ?case using Cons step by simp
  qed
  show "distinct (map fst flds) \<Longrightarrow> distinct (map fst (foldl patch_field flds b))"
    by (induction b arbitrary: flds) (auto simp: patch_field_def distinct_put_field distinct_del_field)
qed

lemma patch_first_ids:
  assumes "distinct (map res_id l)"
  shows "patch_first i b l = (case find (\<lambda>r. res_id r = i) l of None \<Rightarrow> None
    | Some r \<Rightarrow> Some (map (\<lambda>x. if res_id x = i then x\<lparr>res_fields := foldl patch_field (res_fields x) b\<rparr> else x) l,
        foldl patch_field (res_fields r) b))"
  using assms
proof (induction l)
  case (Cons r l)
  show ?case
  proof (cases "res_id r = i")
    case True
    then have "map (\<lambda>x. if res_id x = i then x\<lparr>res_fields := foldl patch_field (res_fields x) b\<rparr> else x) l = l"
      using Cons.prems True by (intro map_idI) (auto, metis imageI)
    then show ?thesis using True by (simp add: Let_def)
  next
    case False
    then show ?thesis using Cons by (auto split: option.splits)
  qed
qed simp

lemma delete_first_ids:
  "distinct (map res_id l) \<Longrightarrow> i \<in> res_id ` set l \<Longrightarrow>
    delete_first i l = Some (filter (\<lambda>r. res_id r \<noteq> i) l)"
proof (induction l)
  case (Cons r l)
  show ?case
  proof (cases "res_id r = i")
    case True
    then have "filter (\<lambda>r. res_id r \<noteq> i) l = l"
      using Cons.prems(1) True by (intro filter_True) (auto, metis imageI)
    then show ?thesis using True by simp
  next
    case False
    then show ?thesis using Cons by auto
  qed
qed simp

section \<open>The interface\<close>

lemma mock_goodD:
  assumes "mock_good m"
  shows "table_ok (mock_table m p)" "distinct (map res_id (resources m p))"
    "r \<in> set (resources m p) \<Longrightarrow> entry_ok (res_id r, res_fields r)"
    "r \<in> set (resources m p) \<Longrightarrow> \<exists>n < mk_next m. res_id r = CHR ''*'' # dec n"
  using assms by (auto simp: mock_good_def mock_table_def table_ok_def list_all_iff comp_def)

lemma decode_json [simp]:
  assumes "gjson_ok G" "n < 400"
  shows "decode_response G (json_response n j) = Inr j"
  using assms by (simp add: decode_response_def json_response_def gjson_okD)

lemma decode_not_found [simp]: "decode_response G not_found \<noteq> Inr j"
  by (auto simp: decode_response_def not_found_def json_response_def split: option.splits)

lemma mock_get:
  assumes "gjson_ok G" "client_ok c" "mock_good m" "plain_path p" "distinct (map fst q)"
  shows "\<exists>m'. api_get (mock_api G c) p q m = (Inr (JArr (map (\<lambda>e. JObj (snd e))
      (filter (\<lambda>e. query_matches q (snd e)) (mock_table m p)))), m') \<and>
    mock_good m' \<and> mock_table m' = mock_table m"
proof -
  have t: "target_ok p" using assms(4) by (rule plain_path_target)
  show ?thesis
    using assms(1,3)
    by (simp add: api_get_def do_request_mock [OF assms(2) t] request_of_def handler_def
        handler_path [OF t, simplified] handle_get_def split_id_plain [OF assms(4)] parse_query_encode
        filter_by_query_matches [OF assms(5)])
      (simp add: mock_table_def filter_map comp_def)
qed

lemma new_resource_ok:
  assumes "request_ok r"
  shows "entry_ok (next_id m, put_field id_key (JStr (next_id m)) r)"
proof -
  have k: "keys_ok r" using assms by (simp add: request_ok_def)
  have "keys_ok (put_field id_key (JStr (next_id m)) r)"
    using k by (auto simp: keys_ok_iff map_of_put_field distinct_put_field split: if_splits) blast
  then show ?thesis
    by (simp add: entry_ok_def next_id_def plain_id_dec map_of_put_field)
qed

lemma new_resource_same:
  "mk_next m' = mk_next m \<Longrightarrow> new_resource m' r = new_resource m r"
  by (simp add: new_resource_def next_id_def)

lemma add_resource_ok:
  assumes "mock_good m" "request_ok r"
  shows "mock_good (add_resource p r m)"
    and "mock_table (add_resource p r m) = (mock_table m)(p := mock_table m p @
      [(next_id m, put_field id_key (JStr (next_id m)) r)])"
proof -
  let ?n = "new_resource m r" and ?m = "add_resource p r m"
  have res: "resources ?m = (resources m)(p := resources m p @ [?n])"
    by (simp add: add_resource_def)
  then show tab: "mock_table ?m = (mock_table m)(p := mock_table m p @
      [(next_id m, put_field id_key (JStr (next_id m)) r)])"
    by (auto simp: mock_table_def fun_eq_iff new_resource_def)
  have fresh: "next_id m \<notin> set (map fst (mock_table m p))"
    using mock_goodD(4) [OF assms(1)] by (fastforce simp: mock_table_def next_id_def dec_inj)
  have "table_ok (mock_table ?m p')" for p'
    using mock_goodD(1) [OF assms(1), of p'] fresh new_resource_ok [OF assms(2), of m]
    by (cases "p' = p") (simp_all add: tab table_ok_def)
  moreover have "\<exists>k < mk_next ?m. res_id x = CHR ''*'' # dec k" if "x \<in> set (resources ?m p')" for x p'
  proof -
    have "mk_next ?m = mk_next m + 1" by (simp add: add_resource_def)
    then show ?thesis using that mock_goodD(4) [OF assms(1), of x p']
      by (cases "p' = p") (auto simp: res new_resource_def next_id_def less_Suc_eq)
  qed
  ultimately show "mock_good ?m" by (simp add: mock_good_def)
qed

lemma mock_good_new: "mock_good new_mock"
  by (simp add: mock_good_def mock_table_def resources_def new_mock_def table_ok_def)

lemma mock_good_seed: "mock_good m \<Longrightarrow> \<forall>r \<in> set rs. request_ok r \<Longrightarrow> mock_good (seed p rs m)"
  by (induction rs arbitrary: m) (auto simp: seed_def add_resource_ok)

lemma mock_put:
  assumes "gjson_ok G" "client_ok c" "mock_good m" "plain_path p" "request_ok r"
  shows "\<exists>i fs m'. api_put (mock_api G c) p r m = (Inr (JObj fs), m') \<and> mock_good m' \<and>
    map_of fs = (map_of r)(id_key \<mapsto> JStr i) \<and>
    mock_table m' = (mock_table m)(p := mock_table m p @ [(i, fs)])"
proof -
  have t: "target_ok p" using assms(4) by (rule plain_path_target)
  let ?m0 = "log_request (LogBody ''PUT'' p r) m"
  have "api_put (mock_api G c) p r m =
      (Inr (JObj (put_field id_key (JStr (next_id ?m0)) r)), add_resource p r ?m0)"
    using assms(1)
    by (simp add: api_put_def do_request_mock [OF assms(2) t] request_of_def handler_def
        handler_path [OF t, simplified] handle_put_def decode_body_def new_resource_def Let_def)
  moreover have "mock_good ?m0" using assms(3) by simp
  ultimately show ?thesis
    using add_resource_ok [OF _ assms(5), of ?m0 p] by (auto simp: map_of_put_field)
qed

lemma patched_entry_ok:
  assumes "entry_ok (i, m)" "patch_ok b"
  shows "entry_ok (i, foldl patch_field m b)"
proof -
  have m: "keys_ok m" "map_of m id_key = Some (JStr i)" "plain_id i" using assms(1) by (simp_all add: entry_ok_def)
  have b: "keys_ok b" "map_of b id_key = None"
    using assms(2) by (auto simp: patch_ok_def list_all_iff map_of_eq_None_iff)
  note pf = patch_fields [OF keys_okD(1) [OF b(1)]]
  have "keys_ok (foldl patch_field m b)"
    unfolding keys_ok_iff pf(1)
    using pf(2) [OF keys_okD(1) [OF m(1)]] m(1) b(1)
    by (auto simp: patched_def keys_ok_iff split: option.splits json.splits) fastforce+
  moreover have "map_of (foldl patch_field m b) id_key = Some (JStr i)"
    using m(2) b(2) unfolding pf(1) by (simp add: patched_def)
  ultimately show ?thesis using m(3) by (simp add: entry_ok_def)
qed

lemma mock_patch:
  assumes "gjson_ok G" "client_ok c" "mock_good m" "plain_path p" "(i, flds) \<in> set (mock_table m p)" "patch_ok b"
  shows "\<exists>fs m'. api_patch (mock_api G c) (p @ ''/'' @ i) b m = (Inr (JObj fs), m') \<and> mock_good m' \<and>
    map_of fs = patched (map_of flds) b \<and>
    mock_table m' = (mock_table m)(p := map (\<lambda>e. if fst e = i then (i, fs) else e) (mock_table m p))"
proof -
  let ?l = "resources m p" and ?fs = "foldl patch_field flds b"
  let ?l' = "map (\<lambda>x. if res_id x = i then x\<lparr>res_fields := foldl patch_field (res_fields x) b\<rparr> else x) ?l"
  let ?m = "set_resources p ?l' (log_request (LogBody ''PATCH'' (p @ ''/'' @ i) b) m)"
  obtain r where r: "r \<in> set ?l" "res_id r = i" "res_fields r = flds" using assms(5) by (auto simp: mock_table_def)
  note d = mock_goodD(2) [OF assms(3), of p]
  have e: "entry_ok (i, flds)" using mock_goodD(3) [OF assms(3) r(1)] r by simp
  then have i: "plain_id i" by (simp add: entry_ok_def)
  then have ine: "i \<noteq> []" by (simp add: plain_id_def)
  have same: "x \<in> set ?l \<Longrightarrow> res_id x = i \<Longrightarrow> x = r" for x using d r by (metis inj_on_eq_iff distinct_map)
  have f: "find (\<lambda>x. res_id x = i) ?l = Some r"
  proof (cases "find (\<lambda>x. res_id x = i) ?l")
    case None
    then show ?thesis using r by (auto simp: find_None_iff)
  next
    case (Some x)
    then have "x \<in> set ?l" "res_id x = i" by (auto simp: find_Some_iff)
    then show ?thesis using Some same by simp
  qed
  have t: "target_ok (p @ ''/'' @ i)" using assms(4) i by (rule entry_target)
  have call: "api_patch (mock_api G c) (p @ ''/'' @ i) b m = (Inr (JObj ?fs), ?m)"
    unfolding api_patch_def do_request_mock [OF assms(2) t] request_of_def handler_def
      http_request.select_convs Let_def handler_path [OF t] handle_patch_def split_id_entry [OF i]
    using assms(1) ine r(3) by (simp add: decode_body_def patch_first_ids [OF d] f)
  have tl: "map (\<lambda>r. (res_id r, res_fields r)) ?l' = map (\<lambda>e. if fst e = i then (i, ?fs) else e) (mock_table m p)"
    unfolding mock_table_def map_map
  proof (rule map_cong [OF refl])
    fix x assume x: "x \<in> set ?l"
    show "((\<lambda>r. (res_id r, res_fields r)) \<circ> (\<lambda>x. if res_id x = i then x\<lparr>res_fields :=
        foldl patch_field (res_fields x) b\<rparr> else x)) x =
      ((\<lambda>e. if fst e = i then (i, ?fs) else e) \<circ> (\<lambda>r. (res_id r, res_fields r))) x"
    proof (cases "res_id x = i")
      case True
      then have "res_fields x = flds" using same [OF x] r(3) by simp
      with True show ?thesis by simp
    qed simp
  qed
  have tab: "mock_table ?m = (mock_table m)(p := map (\<lambda>e. if fst e = i then (i, ?fs) else e) (mock_table m p))"
    by (simp only: mock_table_set mock_table_log tl)
  have "table_ok (map (\<lambda>e. if fst e = i then (i, ?fs) else e) (mock_table m p))"
  proof -
    have ids: "map fst (map (\<lambda>e. if fst e = i then (i, ?fs) else e) l) = map fst l" for l
      by (induction l) auto
    show ?thesis
      using mock_goodD(1) [OF assms(3), of p] patched_entry_ok [OF e assms(6)]
      unfolding table_ok_def ids by (auto simp: list_all_iff)
  qed
  then have "table_ok (map (\<lambda>r. (res_id r, res_fields r)) ?l')" unfolding tl .
  then have "mock_good ?m"
    using assms(3) mock_goodD(4) [OF assms(3), of _ p] by (intro mock_good_set) (auto simp del: map_map)
  moreover have "map_of ?fs = patched (map_of flds) b"
    using patch_fields(1) assms(6) by (simp add: patch_ok_def keys_ok_def flat_object_def)
  ultimately show ?thesis using call tab by blast
qed

lemma mock_delete:
  assumes "client_ok c" "mock_good m" "plain_path p" "(i, flds) \<in> set (mock_table m p)"
  shows "\<exists>m'. api_delete (mock_api G c) (p @ ''/'' @ i) m = (Inr (), m') \<and> mock_good m' \<and>
    mock_table m' = (mock_table m)(p := filter (\<lambda>e. fst e \<noteq> i) (mock_table m p))"
proof -
  let ?l = "resources m p"
  let ?m = "set_resources p (filter (\<lambda>r. res_id r \<noteq> i) ?l) (log_request (LogRequest ''DELETE'' (p @ ''/'' @ i)) m)"
  obtain r where r: "r \<in> set ?l" "res_id r = i" using assms(4) by (auto simp: mock_table_def)
  have "entry_ok (i, res_fields r)" using mock_goodD(3) [OF assms(2) r(1)] r by simp
  then have i: "plain_id i" by (simp add: entry_ok_def)
  then have ine: "i \<noteq> []" by (simp add: plain_id_def)
  have del: "delete_first i ?l = Some (filter (\<lambda>r. res_id r \<noteq> i) ?l)"
    using mock_goodD(2) [OF assms(2)] r by (intro delete_first_ids) auto
  have t: "target_ok (p @ ''/'' @ i)" using assms(3) i by (rule entry_target)
  have "api_delete (mock_api G c) (p @ ''/'' @ i) m = (Inr (), ?m)"
    unfolding api_delete_def do_request_mock [OF assms(1) t] request_of_def handler_def
      http_request.select_convs Let_def handler_path [OF t] handle_delete_def split_id_entry [OF i]
    using ine by (simp add: del decode_response_def)
  moreover have tl: "map (\<lambda>r. (res_id r, res_fields r)) (filter (\<lambda>r. res_id r \<noteq> i) ?l) =
      filter (\<lambda>e. fst e \<noteq> i) (mock_table m p)"
    by (simp add: mock_table_def filter_map comp_def)
  moreover have "table_ok (filter (\<lambda>e. fst e \<noteq> i) (mock_table m p))"
    using mock_goodD(1) [OF assms(2), of p] by (auto simp: table_ok_def list_all_iff distinct_map_filter)
  then have "mock_good ?m"
    using assms(2) mock_goodD(4) [OF assms(2), of _ p] by (intro mock_good_set) (auto simp: tl)
  ultimately show ?thesis by (auto simp: mock_table_set)
qed

lemma mock_store:
  assumes "gjson_ok G" "client_ok c"
  shows "rest_store (mock_api G c) mock_table mock_good"
proof
  show "gjson_ok (api_gjson (mock_api G c))" using assms(1) by (simp add: mock_api_def)
  show "table_ok (mock_table s p)" if "mock_good s" for s p using that by (rule mock_goodD)
  show "mock_good s' \<and> mock_table s' = mock_table s \<and>
      j = JArr (map (\<lambda>e. JObj (snd e)) (filter (\<lambda>e. query_matches q (snd e)) (mock_table s p)))"
    if "mock_good s" "plain_path p" "distinct (map fst q)" "api_get (mock_api G c) p q s = (Inr j, s')" for s p q j s'
    using mock_get [OF assms that(1-3)] that(4) by auto
  show "mock_good s' \<and> (\<exists>i m. j = JObj m \<and> map_of m = (map_of r)(id_key \<mapsto> JStr i) \<and>
      mock_table s' = (mock_table s)(p := mock_table s p @ [(i, m)]))"
    if "mock_good s" "plain_path p" "request_ok r" "api_put (mock_api G c) p r s = (Inr j, s')" for s p r j s'
    using mock_put [OF assms that(1-3)] that(4) by auto
  show "mock_good s' \<and> (\<exists>m'. j = JObj m' \<and> map_of m' = patched (map_of m) b \<and>
      mock_table s' = (mock_table s)(p := map (\<lambda>e. if fst e = i then (i, m') else e) (mock_table s p)))"
    if "mock_good s" "plain_path p" "(i, m) \<in> set (mock_table s p)" "patch_ok b"
      "api_patch (mock_api G c) (p @ ''/'' @ i) b s = (Inr j, s')" for s p i m b j s'
    using mock_patch [OF assms that(1-4)] that(5) by auto
  show "mock_good s' \<and> mock_table s' = (mock_table s)(p := filter (\<lambda>e. fst e \<noteq> i) (mock_table s p))"
    if "mock_good s" "plain_path p" "(i, m) \<in> set (mock_table s p)"
      "api_delete (mock_api G c) (p @ ''/'' @ i) s = (Inr u, s')" for s p i m u s'
    using mock_delete [OF assms(2) that(1-3), of G] that(4) by auto
qed

definition local_client :: client where
  "local_client = new_client ''http'' ''127.0.0.1:8080'' ''''"

lemma local_client_ok: "client_ok local_client"
  by code_simp

lemma mock_reliable:
  assumes "gjson_ok G" "client_ok c"
  shows "reliable_store (mock_api G c) mock_table mock_good"
proof (rule reliable_store.intro)
  show "rest_store (mock_api G c) mock_table mock_good" using assms by (rule mock_store)
  show "reliable_store_axioms (mock_api G c) mock_table mock_good"
  proof
    show "\<exists>j s'. api_get (mock_api G c) p q s = (Inr j, s')"
      if "mock_good s" "plain_path p" "distinct (map fst q)" for s p q
      using mock_get [OF assms that] by blast
    show "\<exists>j s'. api_put (mock_api G c) p r s = (Inr j, s')"
      if "mock_good s" "plain_path p" "request_ok r" for s p r
      using mock_put [OF assms that] by blast
    show "\<exists>j s'. api_patch (mock_api G c) (p @ ''/'' @ i) b s = (Inr j, s')"
      if "mock_good s" "plain_path p" "(i, m) \<in> set (mock_table s p)" "patch_ok b" for s p i m b
      using mock_patch [OF assms that] by blast
    show "\<exists>u s'. api_delete (mock_api G c) (p @ ''/'' @ i) s = (Inr u, s')"
      if "mock_good s" "plain_path p" "(i, m) \<in> set (mock_table s p)" for s p i m
      using mock_delete [OF assms(2) that, of G] by blast
  qed
qed

interpretation mock: reliable_store "mock_api plain_gjson local_client" mock_table mock_good
  by (rule mock_reliable [OF gjson_ok_plain local_client_ok])

end
