(* ===== verification/Sync_Props.thy ===== *)
theory Sync_Props
  imports Mock_Props
begin

text \<open>The properties of the REST client: the contract of \<open>Sync\<close>, its behaviour when there is
  nothing to do, the way of a request to the router, and the recognition of errors.\<close>

section \<open>Decimal numerals\<close>

lemma dec_val_append:
  "dec_val v (s @ t) = (case dec_val v s of None \<Rightarrow> None | Some w \<Rightarrow> dec_val w t)"
  by (induction s arbitrary: v) (auto split: option.splits)

lemma parse_nat_dec: "parse_nat (dec n) = Some n"
proof -
  have "dec_val 0 (rev (dec_rev n)) = Some n"
  proof (induction n rule: dec_rev.induct)
    case (1 n)
    show ?case
    proof (cases "n < 10")
      case True
      then show ?thesis by (subst dec_rev.simps) (simp add: digit_val_digit)
    next
      case False
      have "rev (dec_rev n) = rev (dec_rev (n div 10)) @ [char_of (48 + n mod 10)]"
        using False by (subst dec_rev.simps) simp
      then show ?thesis using 1 [OF False] digit_val_digit [of "n mod 10"] by (simp add: dec_val_append)
    qed
  qed
  moreover have "dec n \<noteq> []" by (subst dec_def, subst dec_rev.simps) simp
  ultimately show ?thesis by (simp add: parse_nat_def dec_def)
qed

section \<open>A sample router\<close>

definition nat_path :: string where "nat_path = ''/ip/firewall/nat''"

definition sample_rule :: "string \<Rightarrow> string \<Rightarrow> jobject" where
  "sample_rule chain dst = [(''chain'', JStr chain), (''dst-address'', JStr dst), (''disabled'', JBool False)]"

definition sample_reqs :: "jobject list" where
  "sample_reqs = [sample_rule ''a'' ''10.0.0.2'', sample_rule ''a'' ''10.0.0.3'']"

definition sample_query :: query where "sample_query = [(''chain'', ''a'')]"

definition dst_id :: id_func where "dst_id = Some (\<lambda>j. get_string plain_gjson j ''dst-address'')"

definition sample_mock :: mock where
  "sample_mock = seed nat_path [sample_rule ''a'' ''10.0.0.1'', sample_rule ''a'' ''10.0.0.2'',
     sample_rule ''b'' ''10.0.0.1''] new_mock"

definition every :: "json \<Rightarrow> bool" where "every j = True"

lemma samples_ok:
  "mock_good sample_mock" "plain_path nat_path" "distinct (map fst sample_query)"
  "\<forall>r \<in> set sample_reqs. request_ok r" "id_key \<in> set [id_key]"
  "decides (None :: unit filter_func) every"
proof -
  have "\<forall>r \<in> set [sample_rule ''a'' ''10.0.0.1'', sample_rule ''a'' ''10.0.0.2'', sample_rule ''b'' ''10.0.0.1''].
      request_ok r" by code_simp
  then show "mock_good sample_mock" unfolding sample_mock_def by (intro mock_good_seed mock_good_new)
  show "plain_path nat_path" "distinct (map fst sample_query)" "\<forall>r \<in> set sample_reqs. request_ok r"
    by code_simp+
  show "decides (None :: unit filter_func) every" by (simp add: decides_def every_def [abs_def])
qed simp

section \<open>Properties\<close>

text \<open>C7: When \<open>Sync\<close> succeeds on a router that keeps the laws of its REST interface, the selected
  entries (those the query and the filter match) have been replaced by exactly one entry per
  request that fits it: it agrees with the request outside the ignored fields, and is an entry that
  was selected or has the very values of the request; every other entry of the path and every
  other path is as before, and the results are the new entries.\<close>

theorem sync_leaves_requested:
  assumes "rest_store A table good" "good s" "plain_path p" "distinct (map fst q)"
    and "\<forall>r \<in> set reqs. request_ok r" "reqs = [] \<or> id_key \<in> set ignored" "decides filt keep"
    and "sync A p reqs q filt idf ignored f s = (Inr js, f', s')"
  shows "good s' \<and> (\<forall>p'. p' \<noteq> p \<longrightarrow> table s' p' = table s p') \<and>
    (\<exists>new. mset (table s' p) = mset (filter (\<lambda>e. \<not> selects q keep e) (table s p)) + mset new \<and>
      list_all2 (fits ignored (selects q keep)) reqs new \<and> js = map (\<lambda>e. JObj (snd e)) new)"
  using rest_store.sync_contract [OF assms] by (simp add: synced_def conj_assoc)

theorem sync_leaves_requested_witness:
  "\<exists>js f' m' new. sync (mock_api plain_gjson local_client) nat_path sample_reqs sample_query None dst_id
      [id_key] () sample_mock = (Inr js, f', m') \<and>
    mset (mock_table m' nat_path) =
      mset (filter (\<lambda>e. \<not> selects sample_query every e) (mock_table sample_mock nat_path)) + mset new \<and>
    list_all2 (fits [id_key] (selects sample_query every)) sample_reqs new"
proof -
  obtain js f' m' where r: "sync (mock_api plain_gjson local_client) nat_path sample_reqs sample_query None dst_id
      [id_key] () sample_mock = (Inr js, f', m')"
    using mock.sync_succeeds [OF samples_ok(1-4) disjI2 [OF samples_ok(5)] samples_ok(6)] by blast
  show ?thesis
    using sync_leaves_requested [OF mock.rest_store_axioms samples_ok(1-4) disjI2 [OF samples_ok(5)] samples_ok(6) r] r
    by blast
qed

text \<open>C12: Against the mock router, through the URLs and the handlers, \<open>Sync\<close> always succeeds, and it
  leaves the requested entries.\<close>

theorem sync_mock_total:
  assumes "gjson_ok G" "client_ok c" "mock_good m" "plain_path p" "distinct (map fst q)"
    and "\<forall>r \<in> set reqs. request_ok r" "reqs = [] \<or> id_key \<in> set ignored" "decides filt keep"
  shows "\<exists>js f' m' new. sync (mock_api G c) p reqs q filt idf ignored f m = (Inr js, f', m') \<and>
    mock_good m' \<and> synced ignored reqs (selects q keep) (mock_table m p) (mock_table m' p) new"
proof -
  obtain js f' m' where r: "sync (mock_api G c) p reqs q filt idf ignored f m = (Inr js, f', m')"
    using reliable_store.sync_succeeds [OF mock_reliable [OF assms(1,2)] assms(3-8)] by blast
  show ?thesis using rest_store.sync_contract [OF mock_store [OF assms(1,2)] assms(3-8) r] r by blast
qed

theorem sync_mock_total_witness:
  "\<exists>js f' m' new. sync (mock_api plain_gjson local_client) nat_path sample_reqs sample_query None dst_id
      [id_key] () sample_mock = (Inr js, f', m') \<and>
    synced [id_key] sample_reqs (selects sample_query every) (mock_table sample_mock nat_path)
      (mock_table m' nat_path) new"
  using sync_mock_total [OF gjson_ok_plain local_client_ok samples_ok(1-4) disjI2 [OF samples_ok(5)] samples_ok(6)]
  by blast

text \<open>C13: When the selected entries already agree with the requests one by one, and the identity
  function tells the requests apart, \<open>Sync\<close> only reads: its final state is the one after the listing.\<close>

theorem sync_idempotent:
  assumes "rest_store A table good" "good s" "plain_path p" "distinct (map fst q)"
    and "\<forall>r \<in> set reqs. request_ok r" "id_key \<in> set ignored" "decides filt keep"
    and "id_separates idf ignored reqs"
    and "mset (filter (selects q keep) (table s p)) = mset new"
      "list_all2 (\<lambda>r e. agree ignored r (snd e)) reqs new"
    and "api_get A p q s = (Inr resp, s1)"
  shows "\<exists>f'. sync A p reqs q filt idf ignored f s = (Inr (map (\<lambda>e. JObj (snd e)) new), f', s1)"
  using rest_store.sync_quiet [OF assms] .

lemma sample_table:
  "filter (selects sample_query every) (mock_table sample_mock nat_path) =
    [(''*1'', sample_rule ''a'' ''10.0.0.1'' @ [(id_key, JStr ''*1'')]),
     (''*2'', sample_rule ''a'' ''10.0.0.2'' @ [(id_key, JStr ''*2'')])]"
  by code_simp

lemma dst_id_separates:
  assumes "\<forall>r \<in> set reqs. request_ok r" "distinct (map (\<lambda>r. get_string plain_gjson (JObj r) ''dst-address'') reqs)"
    "''dst-address'' \<notin> set ignored"
  shows "id_separates dst_id ignored reqs"
proof -
  have k: "unescape_key ''dst-address'' = ''dst-address''" by code_simp
  have "get_string plain_gjson (JObj m) ''dst-address'' = get_string plain_gjson (JObj r) ''dst-address''"
    if "agree ignored r m" for r m
  proof -
    have "map_option scalar_string (map_of r ''dst-address'') = map_option scalar_string (map_of m ''dst-address'')"
      using that assms(3) by (simp add: agree_def)
    then show ?thesis
      by (cases "map_of r ''dst-address''"; cases "map_of m ''dst-address''")
        (simp_all add: get_string_def plain_gjson_def k)
  qed
  then show ?thesis using assms(2) by (simp add: id_separates_def dst_id_def)
qed

theorem sync_idempotent_witness:
  "\<exists>f'. sync (mock_api plain_gjson local_client) nat_path
      [sample_rule ''a'' ''10.0.0.2'', sample_rule ''a'' ''10.0.0.1''] sample_query (None :: unit filter_func) dst_id
      [id_key] () sample_mock =
    (Inr [JObj (sample_rule ''a'' ''10.0.0.2'' @ [(id_key, JStr ''*2'')]),
          JObj (sample_rule ''a'' ''10.0.0.1'' @ [(id_key, JStr ''*1'')])], f',
     log_request (LogQuery ''GET'' nat_path sample_query) sample_mock)"
proof -
  let ?reqs = "[sample_rule ''a'' ''10.0.0.2'', sample_rule ''a'' ''10.0.0.1'']"
  let ?new = "[(''*2'', sample_rule ''a'' ''10.0.0.2'' @ [(id_key, JStr ''*2'')]),
    (''*1'', sample_rule ''a'' ''10.0.0.1'' @ [(id_key, JStr ''*1'')])]"
  have r: "\<forall>r \<in> set ?reqs. request_ok r" by code_simp
  have d: "distinct (map (\<lambda>r. get_string plain_gjson (JObj r) ''dst-address'') ?reqs)" by code_simp
  have i: "id_separates dst_id [id_key] ?reqs"
    using r d by (rule dst_id_separates) (simp add: id_key_def)
  have m: "mset (filter (selects sample_query every) (mock_table sample_mock nat_path)) = mset ?new"
    unfolding sample_table by simp
  have a: "list_all2 (\<lambda>r e. agree [id_key] r (snd e)) ?reqs ?new" by (simp add: agree_def sample_rule_def)
  have "snd (api_get (mock_api plain_gjson local_client) nat_path sample_query sample_mock) =
      log_request (LogQuery ''GET'' nat_path sample_query) sample_mock"
    by code_simp
  then obtain j where g: "api_get (mock_api plain_gjson local_client) nat_path sample_query sample_mock =
      (Inr j, log_request (LogQuery ''GET'' nat_path sample_query) sample_mock)"
    using mock.get_succeeds [OF samples_ok(1-3)] by auto
  show ?thesis
    using sync_idempotent [OF mock.rest_store_axioms samples_ok(1-3) r samples_ok(5,6) i m a g, of "()"] by simp
qed

text \<open>C40: The URL that the client builds is read back by the parser into the host, the path below
  \<open>/rest\<close> and a query with the same pairs, whatever bytes the keys and values hold.\<close>

theorem url_roundtrip:
  assumes "client_ok c" "target_ok p"
  shows "\<exists>raw. parse_url (build_url c p q) = Some (cl_host c, ''/rest'' @ p, raw) \<and>
    parse_query raw = sort_key fst q"
  using parse_built_url [OF assms, of q] parse_query_encode [of q] by blast

theorem url_roundtrip_witness:
  "\<exists>raw. parse_url (build_url local_client ''/ip/firewall/nat'' [(''comment'', ''a=b & c?'')]) =
      Some (''127.0.0.1:8080'', ''/rest/ip/firewall/nat'', raw) \<and>
    parse_query raw = [(''comment'', ''a=b & c?'')]"
proof -
  have t: "target_ok ''/ip/firewall/nat''" by code_simp
  have h: "cl_host local_client = ''127.0.0.1:8080''" by code_simp
  show ?thesis
    using url_roundtrip [OF local_client_ok t, of "[(''comment'', ''a=b & c?'')]"] by (simp add: h)
qed

text \<open>An error answer of the router becomes the API error with its code, and the tests for 401,
  403 and 404 see the code through any wrapping.\<close>

theorem api_error_recognised:
  assumes "st \<ge> 400" "n < 2 ^ 64"
  shows "\<exists>e. decode_response G (json_response st (JObj [(''detail'', JStr d), (''error'', JNum (dec n)),
        (''message'', JStr t)])) = Inl (ApiError e) \<and> ae_code e = n \<and> ae_message e = t \<and> ae_detail e = d \<and>
      (\<forall>msg es. is_unauthorized (Wrapped msg (ApiError e)) = (n = 401) \<and>
        is_forbidden (Wrapped msg (ApiError e)) = (n = 403) \<and>
        is_not_found (Wrapped msg (ApiError e)) = (n = 404) \<and>
        is_not_found (Joined (ApiError e # es)) = (n = 404))"
proof -
  have l: "to_lower ''detail'' = ''detail''" "to_lower ''error'' = ''error''" "to_lower ''message'' = ''message''"
    by code_simp+
  show ?thesis
    using assms
    by (simp add: decode_response_def json_response_def decode_api_error_def decode_error_field_def l
        parse_nat_dec is_unauthorized_def is_forbidden_def is_not_found_def has_code_def)
qed

theorem api_error_recognised_witness:
  "\<exists>e. decode_response plain_gjson (json_response 404 (JObj [(''detail'', JStr ''no such item''),
      (''error'', JNum (dec 404)), (''message'', JStr ''Not Found'')])) = Inl (ApiError e) \<and>
    is_not_found (Wrapped ''failed to delete conflicting object'' (ApiError e))"
  using api_error_recognised [of 404 404 plain_gjson "''no such item''" "''Not Found''"] by force

text \<open>The mock router writes the code under another key than the client reads: its 404 answers are
  decoded with code 0 and are not recognised as such.\<close>

theorem mock_error_code_lost:
  "\<exists>e. decode_response G not_found = Inl (ApiError e) \<and> ae_code e = 0 \<and> \<not> is_not_found (ApiError e)"
proof -
  have l: "to_lower ''detail'' = ''detail''" "to_lower ''code'' = ''code''" "to_lower ''message'' = ''message''"
    by code_simp+
  show ?thesis
    by (simp add: not_found_def error_json_def decode_response_def json_response_def decode_api_error_def
        decode_error_field_def l is_not_found_def has_code_def)
qed

end
