(* ===== verification/Router_Rules.thy ===== *)
theory Router_Rules
  imports Rest_Client Service Utils
begin

text \<open>
  The entries of \<open>internal/routeros/backend.go\<close>: the names of the lists and chains, the requests
  that describe the rules of the controller and of one service, and the fields that a comparison
  ignores. The operations that synchronise them are in \<open>Router_Backend\<close>. SHA-256 is a parameter.
  Go iterates over a map in an order that is not specified; \<open>order\<close> puts the keys into that order.
\<close>

section \<open>Names\<close>

definition lb_ips_list :: string where "lb_ips_list = ''mikrolb-lb-ips''"
definition lb_connection_chain :: string where "lb_connection_chain = ''mikrolb-dnat''"
definition snat_chain :: string where "snat_chain = ''mikrolb-snat''"

definition lb_service_chain :: "(string \<Rightarrow> byte list) \<Rightarrow> string \<Rightarrow> string" where
  "lb_service_chain sha uid = ''mikrolb-svc-'' @ generate_unique_hash sha 8 [uid]"

definition lb_port_chain :: "(string \<Rightarrow> byte list) \<Rightarrow> string \<Rightarrow> endpoint_port \<Rightarrow> string" where
  "lb_port_chain sha uid p =
     lb_service_chain sha uid @ ''-port-'' @ dec (unat (ep_port p)) @ ''-'' @ to_lower (ep_protocol p)"

definition snat_ips_list :: "(string \<Rightarrow> byte list) \<Rightarrow> string \<Rightarrow> string" where
  "snat_ips_list sha uid = ''mikrolb-src-ips-'' @ generate_unique_hash sha 8 [uid]"

definition api_family :: "ip_family \<Rightarrow> string" where
  "api_family f = (if f = IPv4 then ''ip'' else if f = IPv6 then ''ipv6'' else '''')"

definition table_path :: "ip_family \<Rightarrow> string \<Rightarrow> string" where
  "table_path f tab = ''/'' @ api_family f @ ''/firewall/'' @ tab"

section \<open>Ignored fields\<close>

definition ignored_firewall :: "string list" where
  "ignored_firewall = [''.id'', ''bytes'', ''dynamic'', ''invalid'', ''log'', ''log-prefix'', ''packets'', ''vrf'']"

definition ignored_list :: "string list" where
  "ignored_list = [''.id'', ''dynamic'', ''creation-time'']"

definition ignored_address :: "string list" where
  "ignored_address = [''.id'', ''actual-interface'', ''deprecated'', ''dynamic'', ''eui-64'', ''from-pool'',
     ''global'', ''invalid'', ''network'', ''slave'', ''vrf'']"

section \<open>Rules of the controller\<close>

definition enabled_fields :: jobject where
  "enabled_fields = [(''disabled'', JBool False), (''log'', JBool False)]"

definition texts :: "(string \<times> string) list \<Rightarrow> jobject" where
  "texts l = map (\<lambda>(k, v). (k, JStr v)) l"

definition mangle_rule :: jobject where
  "mangle_rule = texts [(''chain'', ''prerouting''), (''action'', ''mark-connection''),
     (''new-connection-mark'', ''mikrolb-lb-connection''), (''comment'', ''mikrolb: mark LB connections''),
     (''dst-address-list'', lb_ips_list), (''passthrough'', ''true'')] @ enabled_fields"

definition accept_rule :: jobject where
  "accept_rule = texts [(''chain'', ''forward''), (''action'', ''accept''),
     (''connection-mark'', ''mikrolb-lb-connection''), (''comment'', ''mikrolb: accept LB connections'')] @
     enabled_fields"

definition icmp_protocol :: "ip_family \<Rightarrow> string option" where
  "icmp_protocol f = (if f = IPv4 then Some ''icmp'' else if f = IPv6 then Some ''icmpv6'' else None)"

definition reject_rule :: "string \<Rightarrow> jobject" where
  "reject_rule proto = texts [(''chain'', ''input''), (''action'', ''reject''),
     (''reject-with'', ''icmp-admin-prohibited''), (''protocol'', ''!'' @ proto),
     (''dst-address-list'', lb_ips_list), (''comment'', ''mikrolb: reject unmatched LB ports'')] @ enabled_fields"

definition connection_rule :: jobject where
  "connection_rule = texts [(''chain'', ''dstnat''), (''action'', ''jump''),
     (''jump-target'', lb_connection_chain), (''dst-address-list'', lb_ips_list),
     (''comment'', ''mikrolb: LB connections'')] @ enabled_fields"

definition snat_jump_rule :: jobject where
  "snat_jump_rule = texts [(''chain'', ''srcnat''), (''action'', ''jump''), (''jump-target'', snat_chain),
     (''comment'', ''mikrolb: SNAT connections'')] @ enabled_fields"

section \<open>Entries of a service\<close>

text \<open>The mask of an address by family; another family is refused.\<close>

definition family_mask :: "ip_family \<Rightarrow> string option" where
  "family_mask f = (if f = IPv4 then Some '''' else if f = IPv6 then Some ''/128'' else None)"

definition service_tag :: "service \<Rightarrow> string" where
  "service_tag svc = ''service '' @ svc_name svc @ '' ('' @ svc_uid svc @ '')''"

definition of_fam :: "ip_family \<Rightarrow> addr list \<Rightarrow> addr list" where
  "of_fam f ips = filter (\<lambda>ip. get_ip_family ip = f) ips"

definition list_entry :: "string \<Rightarrow> string \<Rightarrow> service \<Rightarrow> addr \<Rightarrow> jobject" where
  "list_entry list msk svc ip =
     texts [(''list'', list), (''address'', addr_string ip @ msk), (''comment'', ''mikrolb: '' @ service_tag svc)] @
     [(''disabled'', JBool False)]"

definition lb_list_entries :: "ip_family \<Rightarrow> string \<Rightarrow> service \<Rightarrow> jobject list" where
  "lb_list_entries f msk svc = map (list_entry lb_ips_list msk svc) (of_fam f (lb_ips svc))"

definition snat_list_entries :: "(string \<Rightarrow> byte list) \<Rightarrow> ip_family \<Rightarrow> string \<Rightarrow> service \<Rightarrow> jobject list" where
  "snat_list_entries sha f msk svc =
     map (list_entry (snat_ips_list sha (svc_uid svc)) msk svc)
       (of_fam f (concat (map ep_ips (svc_endpoints svc))))"

definition service_rules :: "(string \<Rightarrow> byte list) \<Rightarrow> ip_family \<Rightarrow> string \<Rightarrow> service \<Rightarrow> jobject list" where
  "service_rules sha f msk svc = map (\<lambda>ip.
     texts [(''chain'', lb_connection_chain), (''action'', ''jump''),
       (''jump-target'', lb_service_chain sha (svc_uid svc)), (''dst-address'', addr_string ip @ msk),
       (''comment'', ''mikrolb: LB for '' @ service_tag svc)] @ enabled_fields) (of_fam f (lb_ips svc))"

subsection \<open>Ports\<close>

definition served_protocol :: "endpoint_port \<Rightarrow> bool" where
  "served_protocol p \<longleftrightarrow> ep_protocol p = ''TCP'' \<or> ep_protocol p = ''UDP''"

definition port_text :: "endpoint_port \<Rightarrow> string" where
  "port_text p = dec (unat (ep_port p)) @ ''/'' @ ep_protocol p"

text \<open>The jump to the chain of a port, once per port and protocol; the first one counts.\<close>

definition port_rule :: "(string \<Rightarrow> byte list) \<Rightarrow> service \<Rightarrow> endpoint_port \<Rightarrow> jobject" where
  "port_rule sha svc p =
     texts [(''chain'', lb_service_chain sha (svc_uid svc)), (''action'', ''jump''),
       (''jump-target'', lb_port_chain sha (svc_uid svc) p)] @
     [(''dst-port'', JNum (dec (unat (ep_port p))))] @
     texts [(''protocol'', to_lower (ep_protocol p)),
       (''comment'', ''mikrolb: LB for '' @ service_tag svc @ '', port '' @ port_text p)] @ enabled_fields"

definition add_port ::
  "(string \<Rightarrow> byte list) \<Rightarrow> service \<Rightarrow> (string \<times> jobject) list \<times> string list \<Rightarrow> endpoint_port \<Rightarrow>
    (string \<times> jobject) list \<times> string list" where
  "add_port sha svc acc p =
     (if \<not> served_protocol p \<or> port_text p \<in> fst ` set (fst acc) then acc
      else (fst acc @ [(port_text p, port_rule sha svc p)],
            List.insert (lb_port_chain sha (svc_uid svc) p) (snd acc)))"

definition port_rules :: "(string \<Rightarrow> byte list) \<Rightarrow> service \<Rightarrow> (string \<times> jobject) list \<times> string list" where
  "port_rules sha svc = foldl (add_port sha svc) ([], []) (concat (map ep_ports (svc_endpoints svc)))"

text \<open>The values of a map in the order of its iteration.\<close>

definition in_order :: "(string list \<Rightarrow> string list) \<Rightarrow> (string \<times> 'v) list \<Rightarrow> 'v list" where
  "in_order order m = map (\<lambda>k. the (map_of m k)) (order (map fst m))"

subsection \<open>Destinations\<close>

definition address_field :: "ip_family \<Rightarrow> string" where
  "address_field f = (if f = IPv4 then ''to-addresses'' else ''to-address'')"

text \<open>\<open>AddrPort.String\<close>: brackets around an IPv6 address.\<close>

definition addr_port_string :: "addr \<Rightarrow> port \<Rightarrow> string" where
  "addr_port_string ip p =
     (if \<not> is_valid ip then ''invalid AddrPort''
      else if is6 ip then ''['' @ addr_string ip @ '']:'' @ dec (unat p)
      else addr_string ip @ '':'' @ dec (unat p))"

definition dnat_rule ::
  "(string \<Rightarrow> byte list) \<Rightarrow> ip_family \<Rightarrow> string \<Rightarrow> service \<Rightarrow> endpoint_port \<Rightarrow> addr \<Rightarrow> jobject" where
  "dnat_rule sha f msk svc p ip =
     texts [(''chain'', lb_port_chain sha (svc_uid svc) p), (''action'', ''dst-nat''),
       (address_field f, addr_string ip @ msk)] @
     [(''to-ports'', JNum (dec (unat (ep_target p))))] @
     texts [(''protocol'', to_lower (ep_protocol p)),
       (''comment'', ''mikrolb: LB for '' @ service_tag svc @ '', port '' @ port_text p @ '' -> '' @
          addr_port_string ip (ep_target p))] @ enabled_fields"

definition append_at :: "string \<Rightarrow> 'v \<Rightarrow> (string \<times> 'v list) list \<Rightarrow> (string \<times> 'v list) list" where
  "append_at k v m = put_field k ((case map_of m k of None \<Rightarrow> [] | Some l \<Rightarrow> l) @ [v]) m"

definition dnat_pairs :: "ip_family \<Rightarrow> service \<Rightarrow> (endpoint_port \<times> addr) list" where
  "dnat_pairs f svc = concat (map (\<lambda>ep. concat (map (\<lambda>p.
     if served_protocol p then map (Pair p) (of_fam f (ep_ips ep)) else []) (ep_ports ep))) (svc_endpoints svc))"

definition dnat_by_chain ::
  "(string \<Rightarrow> byte list) \<Rightarrow> ip_family \<Rightarrow> string \<Rightarrow> service \<Rightarrow> (string \<times> jobject list) list" where
  "dnat_by_chain sha f msk svc = foldl (\<lambda>m (p, ip).
     append_at (lb_port_chain sha (svc_uid svc) p) (dnat_rule sha f msk svc p ip) m) [] (dnat_pairs f svc)"

text \<open>The round-robin parameter: on all rules of a chain but the last.\<close>

definition nth_text :: "nat \<Rightarrow> nat \<Rightarrow> string" where
  "nth_text n i = dec n @ '','' @ dec i"

definition add_nth :: "jobject list \<Rightarrow> jobject list" where
  "add_nth reqs = map (\<lambda>i. if i + 1 < length reqs
     then put_field ''nth'' (JStr (nth_text (length reqs) (i + 1))) (reqs ! i) else reqs ! i) [0..<length reqs]"

definition dnat_requests ::
  "(string \<Rightarrow> byte list) \<Rightarrow> ip_family \<Rightarrow> string \<Rightarrow> service \<Rightarrow> (string \<times> jobject list) list" where
  "dnat_requests sha f msk svc = map (\<lambda>(chain, reqs). (chain, add_nth reqs)) (dnat_by_chain sha f msk svc)"

definition snat_rule :: "(string \<Rightarrow> byte list) \<Rightarrow> ip_family \<Rightarrow> service \<Rightarrow> addr \<Rightarrow> jobject" where
  "snat_rule sha f svc ip =
     texts [(''chain'', snat_chain), (''action'', ''src-nat''),
       (''src-address-list'', snat_ips_list sha (svc_uid svc)), (address_field f, addr_string ip),
       (''comment'', ''mikrolb: SNAT for '' @ service_tag svc)] @ enabled_fields"

section \<open>Advertised addresses\<close>

definition advertisement :: "addr \<Rightarrow> string \<Rightarrow> string \<Rightarrow> jobject" where
  "advertisement ip msk iface =
     texts [(''interface'', iface), (''address'', addr_string ip @ msk), (''comment'', ''mikrolb: IP advertisement'')] @
     [(''disabled'', JBool False)] @
     (if is6 ip then [(''advertise'', JBool False), (''auto-link-local'', JBool True), (''eui-64'', JBool False),
        (''no-dad'', JBool False)] else [])"

end
