(* ===== verification/Gratuitous.thy ===== *)
theory Gratuitous
  imports Netip
begin

text \<open>
  \<open>internal/routeros/gratuitous.go\<close>: the packet that announces an address, and \<open>net.ParseMAC\<close>,
  by which the backend reads the address of the interface. \<open>gopacket.SerializeLayers\<close> is third-party
  code, a parameter on the list of layers.
\<close>

datatype layer =
    Ethernet (eth_src: "byte list") (eth_dst: "byte list") (eth_type: nat)
  | ARP (arp_hw_type: nat) (arp_proto: nat) (arp_hw_size: nat) (arp_proto_size: nat) (arp_op: nat) (arp_src_hw: "byte list")
      (arp_src: "byte list") (arp_dst_hw: "byte list") (arp_dst: "byte list")
  | IPv6_Header (ip6_version: nat) (ip6_src: "byte list") (ip6_dst: "byte list") (ip6_next: nat) (ip6_hops: nat)
  | ICMPv6 (icmp_type: nat) (icmp_code: nat)
  | Neighbor_Advertisement (na_flags: byte) (na_target: "byte list") (na_options: "(nat \<times> byte list) list")

definition ethertype_arp :: nat where "ethertype_arp = 0x0806"
definition ethertype_ipv6 :: nat where "ethertype_ipv6 = 0x86DD"

definition all_nodes :: "byte list" where
  "all_nodes = [0xff, 0x02, 0, 0, 0, 0, 0, 0, 0, 0, 0, 0, 0, 0, 0, 0x01]"

text \<open>\<open>Addr.Unmap\<close>: an IPv4-mapped IPv6 address becomes the IPv4 address.\<close>

definition unmap :: "addr \<Rightarrow> addr" where
  "unmap a = (case a of
     Addr6 w z \<Rightarrow> if unat w div 2 ^ 32 = 65535 then Addr4 (of_nat (unat w)) else a
   | _ \<Rightarrow> a)"

datatype gratuitous_error = BadMACLength nat | InvalidIP | SerializeFailed string

definition arp_layers :: "byte list \<Rightarrow> addr \<Rightarrow> layer list" where
  "arp_layers mac ip =
     [Ethernet mac (replicate 6 0xff) ethertype_arp,
      ARP 1 0x0800 6 4 1 mac (as_slice ip) (replicate 6 0) (as_slice ip)]"

definition nd_layers :: "byte list \<Rightarrow> addr \<Rightarrow> layer list" where
  "nd_layers mac ip =
     [Ethernet mac [0x33, 0x33, 0, 0, 0, 0x01] ethertype_ipv6,
      IPv6_Header 6 (as_slice ip) all_nodes 58 255,
      ICMPv6 136 0,
      Neighbor_Advertisement 0x20 (as_slice ip) [(2, mac)]]"

definition generate_gratuitous ::
  "(layer list \<Rightarrow> string + byte list) \<Rightarrow> byte list \<Rightarrow> addr \<Rightarrow> gratuitous_error + byte list" where
  "generate_gratuitous serialize mac ip =
     (if length mac \<noteq> 6 then Inl (BadMACLength (length mac))
      else if \<not> is_valid ip then Inl InvalidIP
      else
        (let ip' = unmap ip in
         case serialize (if is4 ip' then arp_layers mac ip' else nd_layers mac ip') of
           Inl e \<Rightarrow> Inl (SerializeFailed e)
         | Inr bs \<Rightarrow> Inr bs))"

section \<open>ParseMAC\<close>

definition hex_byte :: "string \<Rightarrow> byte option" where
  "hex_byte s =
     (case s of [a, b] \<Rightarrow> (case (hex_val a, hex_val b) of
         (Some x, Some y) \<Rightarrow> Some (of_nat (x * 16 + y)) | _ \<Rightarrow> None)
      | _ \<Rightarrow> None)"

fun all_some :: "'a option list \<Rightarrow> 'a list option" where
  "all_some [] = Some []"
| "all_some (None # xs) = None"
| "all_some (Some x # xs) = map_option ((#) x) (all_some xs)"

definition mac_bytes :: "string list \<Rightarrow> byte list option" where
  "mac_bytes ps =
     (case all_some (map hex_byte ps) of
        Some bs \<Rightarrow> if length bs \<in> {6, 8, 20} then Some bs else None
      | None \<Rightarrow> None)"

definition parse_mac :: "string \<Rightarrow> byte list option" where
  "parse_mac s =
     (if length s < 14 then None
      else if s ! 2 = CHR '':'' \<or> s ! 2 = CHR ''-'' then mac_bytes (split_on (s ! 2) s)
      else if s ! 4 = CHR ''.'' then
        (let gs = split_on (CHR ''.'') s in
         if list_all (\<lambda>g. length g = 4) gs then mac_bytes (concat (map (\<lambda>g. [take 2 g, drop 2 g]) gs))
         else None)
      else None)"

section \<open>Properties\<close>

lemma unmap_cases: "is_valid a \<Longrightarrow> is4 (unmap a) \<or> is6 (unmap a)"
  by (cases a) (auto simp: unmap_def is_valid_def)

lemma hex_byte_hex_digits:
  assumes "x < 16" "y < 16"
  shows "hex_byte [hex_digit x, hex_digit y] = Some (of_nat (x * 16 + y))"
proof -
  have "hex_val (hex_digit n) = Some n" if "n < 16" for n
    using that by (auto simp: hex_val_def hex_digit_def Let_def)
  then show ?thesis using assms by (simp add: hex_byte_def)
qed

lemma hex_bytes_roundtrip: "all_some (map hex_byte (map (\<lambda>b. hex_bytes [b]) bs)) = Some bs"
proof -
  have "hex_byte (hex_bytes [b]) = Some b" for b
  proof -
    have b: "unat b < 256" using unsigned_less [of b] by simp
    then have "unat b div 16 < 16" "unat b mod 16 < 16" by auto
    moreover have "(of_nat (unat b div 16 * 16 + unat b mod 16) :: byte) = b" by simp
    ultimately show ?thesis
      using hex_byte_hex_digits [of "unat b div 16" "unat b mod 16"] by (simp add: hex_bytes_def)
  qed
  then show ?thesis by (induction bs) auto
qed

text \<open>The announcement of a valid address over a six-byte hardware address is the ARP request of
  the address for itself when it is an IPv4 or IPv4-mapped address, and the unsolicited neighbour
  advertisement to all nodes with the hardware address as its option otherwise; both are sent from
  the hardware address.\<close>

theorem gratuitous_layers:
  assumes "length mac = 6" "is_valid ip"
  shows "\<exists>ls. generate_gratuitous serialize mac ip = (case serialize ls of
      Inl e \<Rightarrow> Inl (SerializeFailed e) | Inr bs \<Rightarrow> Inr bs) \<and>
    eth_src (hd ls) = mac \<and>
    (is4 (unmap ip) \<longrightarrow> length (as_slice (unmap ip)) = 4 \<and> eth_type (hd ls) = ethertype_arp \<and>
      tl ls = [ARP 1 0x0800 6 4 1 mac (as_slice (unmap ip)) (replicate 6 0) (as_slice (unmap ip))]) \<and>
    (\<not> is4 (unmap ip) \<longrightarrow> length (as_slice (unmap ip)) = 16 \<and> eth_type (hd ls) = ethertype_ipv6 \<and>
      last ls = Neighbor_Advertisement 0x20 (as_slice (unmap ip)) [(2, mac)])"
proof -
  let ?ls = "if is4 (unmap ip) then arp_layers mac (unmap ip) else nd_layers mac (unmap ip)"
  have "is4 (unmap ip) \<or> is6 (unmap ip)" using assms(2) by (rule unmap_cases)
  then show ?thesis
    using assms by (intro exI [of _ ?ls], cases "unmap ip")
      (auto simp: generate_gratuitous_def Let_def arp_layers_def nd_layers_def)
qed

theorem gratuitous_layers_witness:
  "\<exists>ls. generate_gratuitous (\<lambda>ls. Inr (eth_src (hd ls))) [1, 2, 3, 4, 5, 6] (Addr6 0xffff0a000001 [])
      = Inr (eth_src (hd ls)) \<and>
    tl ls = [ARP 1 0x0800 6 4 1 [1, 2, 3, 4, 5, 6] [10, 0, 0, 1] (replicate 6 0) [10, 0, 0, 1]]"
proof -
  have u: "is4 (unmap (Addr6 0xffff0a000001 []))" "as_slice (unmap (Addr6 0xffff0a000001 [])) = [10, 0, 0, 1]"
    by code_simp+
  have v: "length [1 :: byte, 2, 3, 4, 5, 6] = 6" "is_valid (Addr6 0xffff0a000001 [])"
    by (simp_all add: is_valid_def)
  show ?thesis
    using gratuitous_layers [OF v, of "\<lambda>ls. Inr (eth_src (hd ls))"] u by auto
qed

end
