(* ===== verification/Router_Backend.thy ===== *)
theory Router_Backend
  imports Router_Rules Gratuitous
begin

text \<open>
  The operations of \<open>internal/routeros/backend.go\<close>, each a sequence of \<open>Sync\<close> calls on the state of
  the router that stops at the first error, unless the code collects the errors. The mutex makes an
  operation atomic. What Go or third-party code decides is in the record \<open>backend_env\<close>.
\<close>

record 's backend_env =
  bk_api :: "'s api"
  bk_sha :: "string \<Rightarrow> byte list"
  bk_order :: "string list \<Rightarrow> string list"
  bk_serialize :: "layer list \<Rightarrow> string + byte list"
  bk_timeout :: int
  bk_now :: int
  bk_later :: int

section \<open>Sequencing\<close>

definition and_then :: "('a, 's) reply \<Rightarrow> ('a \<Rightarrow> 's \<Rightarrow> ('b, 's) reply) \<Rightarrow> ('b, 's) reply" where
  "and_then r f = (case r of (Inl e, s) \<Rightarrow> (Inl e, s) | (Inr a, s) \<Rightarrow> f a s)"

text \<open>Steps in a row, each with the text by which its error is wrapped.\<close>

type_synonym 's task = "string \<times> ('s \<Rightarrow> (unit, 's) reply)"

fun run_tasks :: "'s task list \<Rightarrow> 's \<Rightarrow> (unit, 's) reply" where
  "run_tasks [] s = (Inr (), s)"
| "run_tasks ((msg, f) # ts) s = and_then (wrap msg (f s)) (\<lambda>_. run_tasks ts)"

text \<open>All steps, with the errors collected.\<close>

fun collect_tasks :: "('s \<Rightarrow> (unit, 's) reply) list \<Rightarrow> 's \<Rightarrow> client_error list \<times> 's" where
  "collect_tasks [] s = ([], s)"
| "collect_tasks (f # fs) s =
     (case f s of (r, s') \<Rightarrow> (case collect_tasks fs s' of (errs, s'') \<Rightarrow>
        ((case r of Inl e \<Rightarrow> e # errs | Inr _ \<Rightarrow> errs), s'')))"

text \<open>\<open>errors.Join\<close>.\<close>

definition join_errors :: "client_error list \<Rightarrow> client_error + unit" where
  "join_errors errs = (if errs = [] then Inr () else Inl (Joined errs))"

section \<open>Synchronising\<close>

text \<open>\<open>Sync\<close> with a filter that keeps no state; the results are used by no caller.\<close>

definition pure_filter :: "(json \<Rightarrow> bool) option \<Rightarrow> unit filter_func" where
  "pure_filter p = map_option (\<lambda>f j u. (f j, u)) p"

definition sync_rules ::
  "'s api \<Rightarrow> string \<Rightarrow> jobject list \<Rightarrow> query \<Rightarrow> (json \<Rightarrow> bool) option \<Rightarrow> id_func \<Rightarrow> string list \<Rightarrow> 's \<Rightarrow>
    (unit, 's) reply" where
  "sync_rules A path reqs q filt idf ignored s =
     (case sync A path reqs q (pure_filter filt) idf ignored () s of
        (Inl e, _, s') \<Rightarrow> (Inl e, s') | (Inr _, _, s') \<Rightarrow> (Inr (), s'))"

abbreviation (input) text_of :: "'s api \<Rightarrow> string \<Rightarrow> json \<Rightarrow> string" where
  "text_of A k j \<equiv> get_string (api_gjson A) j k"

definition ensure_lb_mangle_rule :: "'s api \<Rightarrow> ip_family \<Rightarrow> 's \<Rightarrow> (unit, 's) reply" where
  "ensure_lb_mangle_rule A f = sync_rules A (table_path f ''mangle'') [mangle_rule]
     [(''chain'', ''prerouting''), (''action'', ''mark-connection''),
      (''new-connection-mark'', ''mikrolb-lb-connection'')] None None ignored_firewall"

definition ensure_lb_accept_rule :: "'s api \<Rightarrow> ip_family \<Rightarrow> 's \<Rightarrow> (unit, 's) reply" where
  "ensure_lb_accept_rule A f = sync_rules A (table_path f ''filter'') [accept_rule]
     [(''chain'', ''forward''), (''action'', ''accept''), (''connection-mark'', ''mikrolb-lb-connection'')]
     None None ignored_firewall"

definition ensure_lb_reject_rule :: "'s api \<Rightarrow> ip_family \<Rightarrow> 's \<Rightarrow> (unit, 's) reply" where
  "ensure_lb_reject_rule A f s =
     (case icmp_protocol f of
        None \<Rightarrow> (Inl (Plain (''unsupported ip family: '' @ f)), s)
      | Some proto \<Rightarrow> sync_rules A (table_path f ''filter'') [reject_rule proto]
          [(''chain'', ''input''), (''action'', ''reject''), (''dst-address-list'', lb_ips_list)]
          None None ignored_firewall s)"

definition ensure_lb_connection_rule :: "'s api \<Rightarrow> ip_family \<Rightarrow> 's \<Rightarrow> (unit, 's) reply" where
  "ensure_lb_connection_rule A f = sync_rules A (table_path f ''nat'') [connection_rule]
     [(''chain'', ''dstnat''), (''action'', ''jump''), (''jump-target'', lb_connection_chain)]
     None None ignored_firewall"

definition ensure_snat_jump :: "'s api \<Rightarrow> ip_family \<Rightarrow> 's \<Rightarrow> (unit, 's) reply" where
  "ensure_snat_jump A f = sync_rules A (table_path f ''nat'') [snat_jump_rule]
     [(''chain'', ''srcnat''), (''jump-target'', snat_chain)] None None ignored_firewall"

text \<open>The error of an unsupported family, before any call.\<close>

definition with_mask ::
  "string \<Rightarrow> ip_family \<Rightarrow> (string \<Rightarrow> 's \<Rightarrow> (unit, 's) reply) \<Rightarrow> 's \<Rightarrow> (unit, 's) reply" where
  "with_mask msg f g s =
     (case family_mask f of None \<Rightarrow> (Inl (Plain (msg @ '': '' @ f)), s) | Some m \<Rightarrow> g m s)"

text \<open>An entry is the service's when its comment names the uid or its address is one of the service.\<close>

definition managed_by :: "'s api \<Rightarrow> string \<Rightarrow> json \<Rightarrow> bool" where
  "managed_by A uid j \<longleftrightarrow>
     has_prefix ''mikrolb:'' (text_of A ''comment'' j) \<and> str_contains uid (text_of A ''comment'' j)"

definition lb_list_filter :: "'s api \<Rightarrow> service \<Rightarrow> json \<Rightarrow> bool" where
  "lb_list_filter A svc j \<longleftrightarrow> managed_by A (svc_uid svc) j \<or>
     (case parse_addr (hd (split_on (CHR ''/'') (text_of A ''address'' j))) of
        None \<Rightarrow> False | Some ip \<Rightarrow> ip \<in> set (lb_ips svc))"

definition ensure_lb_ips_list :: "'s api \<Rightarrow> ip_family \<Rightarrow> service \<Rightarrow> 's \<Rightarrow> (unit, 's) reply" where
  "ensure_lb_ips_list A f svc = with_mask ''unsupported ip family'' f (\<lambda>m.
     sync_rules A (table_path f ''address-list'') (lb_list_entries f m svc) [(''list'', lb_ips_list)]
       (Some (lb_list_filter A svc)) (Some (text_of A ''address'')) ignored_list)"

definition ensure_lb_service_rule ::
  "'s api \<Rightarrow> (string \<Rightarrow> byte list) \<Rightarrow> ip_family \<Rightarrow> service \<Rightarrow> 's \<Rightarrow> (unit, 's) reply" where
  "ensure_lb_service_rule A sha f svc = with_mask ''unsupported family'' f (\<lambda>m.
     sync_rules A (table_path f ''nat'') (service_rules sha f m svc)
       [(''chain'', lb_connection_chain), (''action'', ''jump''),
        (''jump-target'', lb_service_chain sha (svc_uid svc))]
       None (Some (text_of A ''dst-address'')) ignored_firewall)"

text \<open>The filter keeps everything and records the chains that no requested rule jumps to.\<close>

definition stale_filter :: "'s api \<Rightarrow> string list \<Rightarrow> string list filter_func" where
  "stale_filter A targets = Some (\<lambda>j stale.
     (True, if text_of A ''jump-target'' j \<in> set targets then stale
            else List.insert (text_of A ''jump-target'' j) stale))"

fun clean_chains :: "'s api \<Rightarrow> ip_family \<Rightarrow> string list \<Rightarrow> 's \<Rightarrow> 's" where
  "clean_chains A f [] s = s"
| "clean_chains A f (c # cs) s =
     clean_chains A f cs (snd (sync_rules A (table_path f ''nat'') [] [(''chain'', c)] None None [] s))"

definition port_id :: "'s api \<Rightarrow> json \<Rightarrow> string" where
  "port_id A j = text_of A ''dst-port'' j @ ''/'' @ text_of A ''protocol'' j"

definition ensure_lb_port_rules ::
  "'s api \<Rightarrow> (string \<Rightarrow> byte list) \<Rightarrow> (string list \<Rightarrow> string list) \<Rightarrow> ip_family \<Rightarrow> service \<Rightarrow> 's \<Rightarrow>
    (unit, 's) reply" where
  "ensure_lb_port_rules A sha order f svc s =
     (case port_rules sha svc of (rules, targets) \<Rightarrow>
        (case sync A (table_path f ''nat'') (in_order order rules)
            [(''chain'', lb_service_chain sha (svc_uid svc))] (stale_filter A targets)
            (Some (port_id A)) ignored_firewall [] s of
           (Inl e, _, s') \<Rightarrow> (Inl e, s')
         | (Inr _, stale, s') \<Rightarrow> (Inr (), clean_chains A f (order stale) s')))"

definition dnat_id :: "'s api \<Rightarrow> ip_family \<Rightarrow> json \<Rightarrow> string" where
  "dnat_id A f j = ''['' @ text_of A (address_field f) j @ '']:'' @ text_of A ''to-ports'' j @ ''/'' @
     text_of A ''protocol'' j"

definition ensure_lb_dnat_rules ::
  "'s api \<Rightarrow> (string \<Rightarrow> byte list) \<Rightarrow> (string list \<Rightarrow> string list) \<Rightarrow> ip_family \<Rightarrow> service \<Rightarrow> 's \<Rightarrow>
    (unit, 's) reply" where
  "ensure_lb_dnat_rules A sha order f svc = with_mask ''unsupported family'' f (\<lambda>m s.
     (let by_chain = dnat_requests sha f m svc in
      case collect_tasks (map (\<lambda>c. sync_rules A (table_path f ''nat'') (the (map_of by_chain c)) [(''chain'', c)]
          None (Some (dnat_id A f)) ignored_firewall) (order (map fst by_chain))) s of
        (errs, s') \<Rightarrow> (join_errors errs, s')))"

definition ensure_snat_ips_list ::
  "'s api \<Rightarrow> (string \<Rightarrow> byte list) \<Rightarrow> ip_family \<Rightarrow> service \<Rightarrow> 's \<Rightarrow> (unit, 's) reply" where
  "ensure_snat_ips_list A sha f svc = with_mask ''unsupported family'' f (\<lambda>m.
     sync_rules A (table_path f ''address-list'') (snat_list_entries sha f m svc)
       [(''list'', snat_ips_list sha (svc_uid svc))] None (Some (text_of A ''address'')) ignored_list)"

definition snat_ip :: "ip_family \<Rightarrow> service \<Rightarrow> addr" where
  "snat_ip f svc = (if f = IPv4 then snat_ipv4 svc else snat_ipv6 svc)"

definition ensure_snat_service_rule ::
  "'s api \<Rightarrow> (string \<Rightarrow> byte list) \<Rightarrow> ip_family \<Rightarrow> service \<Rightarrow> 's \<Rightarrow> (unit, 's) reply" where
  "ensure_snat_service_rule A sha f svc = with_mask ''unsupported family'' f (\<lambda>_.
     sync_rules A (table_path f ''nat'')
       (if is_valid (snat_ip f svc) then [snat_rule sha f svc (snat_ip f svc)] else [])
       [(''chain'', snat_chain), (''src-address-list'', snat_ips_list sha (svc_uid svc))]
       None (Some (text_of A (address_field f))) ignored_firewall)"

section \<open>Removing\<close>

definition cleanup_lb_ips_list :: "'s api \<Rightarrow> ip_family \<Rightarrow> string \<Rightarrow> 's \<Rightarrow> (unit, 's) reply" where
  "cleanup_lb_ips_list A f uid = sync_rules A (table_path f ''address-list'') [] [(''list'', lb_ips_list)]
     (Some (managed_by A uid)) None ignored_list"

definition delete_lb_service_rules :: "'s api \<Rightarrow> ip_family \<Rightarrow> string \<Rightarrow> 's \<Rightarrow> (unit, 's) reply" where
  "delete_lb_service_rules A f uid = sync_rules A (table_path f ''nat'') [] [] (Some (managed_by A uid)) None []"

definition delete_snat_service_rule ::
  "'s api \<Rightarrow> (string \<Rightarrow> byte list) \<Rightarrow> ip_family \<Rightarrow> string \<Rightarrow> 's \<Rightarrow> (unit, 's) reply" where
  "delete_snat_service_rule A sha f uid = sync_rules A (table_path f ''nat'') []
     [(''chain'', snat_chain), (''src-address-list'', snat_ips_list sha uid)] None None []"

definition delete_snat_ips_list ::
  "'s api \<Rightarrow> (string \<Rightarrow> byte list) \<Rightarrow> ip_family \<Rightarrow> string \<Rightarrow> 's \<Rightarrow> (unit, 's) reply" where
  "delete_snat_ips_list A sha f uid = sync_rules A (table_path f ''address-list'') []
     [(''list'', snat_ips_list sha uid)] None None []"

section \<open>The operations on services\<close>

definition lb_tasks :: "'s backend_env \<Rightarrow> service \<Rightarrow> ip_family \<Rightarrow> 's task list" where
  "lb_tasks B svc f =
     (let A = bk_api B; sha = bk_sha B in
      if has_lb_ip svc f then
        [(''failed to ensure LB service port DNAT rules for family '' @ f, ensure_lb_dnat_rules A sha (bk_order B) f svc),
         (''failed to ensure LB service port rules for family '' @ f, ensure_lb_port_rules A sha (bk_order B) f svc),
         (''failed to ensure LB service rule for family '' @ f, ensure_lb_service_rule A sha f svc),
         (''failed to ensure LB IPs list for family '' @ f, ensure_lb_ips_list A f svc)]
      else
        [(''failed to cleanup LB IPs list for family '' @ f, cleanup_lb_ips_list A f (svc_uid svc)),
         (''failed to delete LB service for family '' @ f, delete_lb_service_rules A f (svc_uid svc))])"

definition snat_tasks :: "'s backend_env \<Rightarrow> service \<Rightarrow> ip_family \<Rightarrow> 's task list" where
  "snat_tasks B svc f =
     (let A = bk_api B; sha = bk_sha B in
      if has_snat_ip svc f then
        [(''failed to ensure SNAT service IPs list for family '' @ f, ensure_snat_ips_list A sha f svc),
         (''failed to ensure SNAT service rule for family '' @ f, ensure_snat_service_rule A sha f svc)]
      else
        [(''failed to delete SNAT service rule for family '' @ f, delete_snat_service_rule A sha f (svc_uid svc)),
         (''failed to delete SNAT service IPs list for family '' @ f, delete_snat_ips_list A sha f (svc_uid svc))])"

definition ensure_service :: "'s backend_env \<Rightarrow> service \<Rightarrow> 's \<Rightarrow> (unit, 's) reply" where
  "ensure_service B svc =
     run_tasks (concat (map (\<lambda>f. lb_tasks B svc f @ snat_tasks B svc f) [IPv4, IPv6]))"

definition delete_service :: "'s backend_env \<Rightarrow> string \<Rightarrow> string \<Rightarrow> 's \<Rightarrow> (unit, 's) reply" where
  "delete_service B name uid s =
     (let A = bk_api B; sha = bk_sha B in
      case collect_tasks (concat (map (\<lambda>f.
          [cleanup_lb_ips_list A f uid, delete_lb_service_rules A f uid,
           delete_snat_service_rule A sha f uid, delete_snat_ips_list A sha f uid]) [IPv4, IPv6])) s of
        (errs, s') \<Rightarrow> (join_errors errs, s'))"

definition setup_router :: "'s backend_env \<Rightarrow> 's \<Rightarrow> (unit, 's) reply" where
  "setup_router B =
     (let A = bk_api B in
      run_tasks (concat (map (\<lambda>f.
        [(''failed to ensure LB reject rule for family '' @ f, ensure_lb_reject_rule A f),
         (''failed to ensure LB accept rule for family '' @ f, ensure_lb_accept_rule A f),
         (''failed to ensure LB mangle rule for family '' @ f, ensure_lb_mangle_rule A f),
         (''failed to ensure LB connection chain rule for family '' @ f, ensure_lb_connection_rule A f),
         (''failed to ensure SNAT rule for family '' @ f, ensure_snat_jump A f)]) [IPv4, IPv6])))"

section \<open>Advertising an address\<close>

definition address_path :: "addr \<Rightarrow> string" where
  "address_path ip = (if is6 ip then ''/ipv6/address'' else ''/ip/address'')"

definition address_mask :: "addr \<Rightarrow> string" where
  "address_mask ip = (if is6 ip then ''/128'' else ''/32'')"

definition advertise :: "'s api \<Rightarrow> addr \<Rightarrow> string \<Rightarrow> 's \<Rightarrow> (unit, 's) reply" where
  "advertise A ip iface = sync_rules A (address_path ip) [advertisement ip (address_mask ip) iface]
     [(''address'', addr_string ip @ address_mask ip)] None None ignored_address"

definition delete_ip_advertisement :: "'s backend_env \<Rightarrow> addr \<Rightarrow> 's \<Rightarrow> (unit, 's) reply" where
  "delete_ip_advertisement B ip =
     (let A = bk_api B in
      sync_rules A (address_path ip) [] []
        (Some (\<lambda>j. has_prefix ''mikrolb:'' (text_of A ''comment'' j) \<and>
          has_prefix (addr_string ip @ ''/'') (text_of A ''address'' j))) None [])"

text \<open>The route search: the interface, the metric and the destination of the best match so far.\<close>

record route_match =
  rm_iface :: string
  rm_metric :: nat
  rm_dst :: "prefix option"

definition no_match :: route_match where
  "no_match = \<lparr>rm_iface = '''', rm_metric = 0, rm_dst = None\<rparr>"

definition gateway_interface :: "string \<Rightarrow> string" where
  "gateway_interface gw = (if CHR ''%'' \<in> set gw then cut_after (CHR ''%'') gw else gw)"

definition get_bool :: "gjson \<Rightarrow> json \<Rightarrow> string \<Rightarrow> bool" where
  "get_bool G j k = (case gj_get G j k of None \<Rightarrow> False | Some v \<Rightarrow> gj_bool G v)"

definition get_uint :: "gjson \<Rightarrow> json \<Rightarrow> string \<Rightarrow> nat" where
  "get_uint G j k = (case gj_get G j k of None \<Rightarrow> 0 | Some v \<Rightarrow> gj_uint G v)"

definition better_route :: "prefix \<Rightarrow> nat \<Rightarrow> route_match \<Rightarrow> bool" where
  "better_route dst metric m \<longleftrightarrow>
     (case rm_dst m of
        None \<Rightarrow> True
      | Some d \<Rightarrow> \<not> prefix_bits dst < prefix_bits d \<and>
          \<not> (prefix_bits dst = prefix_bits d \<and> metric \<ge> rm_metric m))"

definition try_route :: "gjson \<Rightarrow> addr \<Rightarrow> route_match \<Rightarrow> json \<Rightarrow> route_match" where
  "try_route G ip m route =
     (if get_string G route ''dst-address'' = '''' \<or> \<not> get_bool G route ''active'' then m
      else (case parse_prefix (get_string G route ''dst-address'') of
        None \<Rightarrow> m
      | Some dst \<Rightarrow>
          if \<not> prefix_contains dst ip \<or> get_string G route ''immediate-gw'' = '''' then m
          else if better_route dst (get_uint G route ''distance'') m then
            \<lparr>rm_iface = gateway_interface (get_string G route ''immediate-gw''),
             rm_metric = get_uint G route ''distance'', rm_dst = Some dst\<rparr>
          else m))"

definition determine_interface :: "'s api \<Rightarrow> addr \<Rightarrow> 's \<Rightarrow> (string, 's) reply" where
  "determine_interface A ip s =
     and_then (wrap ''failed to get routes'' (api_get A ''/routing/route'' [] s)) (\<lambda>routes s'.
       (let m = foldl (try_route (api_gjson A) ip) no_match (gj_array (api_gjson A) routes) in
        if rm_iface m = '''' then (Inl (Plain ''no matching route found''), s') else (Inr (rm_iface m), s')))"

text \<open>Operations that ask for the policies keep the client's cache beside the router.\<close>

type_synonym ('a, 's) cached = "(client_error + 'a) \<times> policy_cache \<times> 's"

definition packet_error :: "gratuitous_error \<Rightarrow> client_error" where
  "packet_error e = (case e of
     BadMACLength n \<Rightarrow> Plain (''invalid MAC address length: '' @ dec n)
   | InvalidIP \<Rightarrow> Plain ''invalid IP address''
   | SerializeFailed t \<Rightarrow> Plain t)"

definition inject :: "'s backend_env \<Rightarrow> addr \<Rightarrow> string \<Rightarrow> 's \<Rightarrow> (unit, 's) reply" where
  "inject B ip iface s =
     (let A = bk_api B; G = api_gjson A in
      and_then (wrap ''failed to get device mode'' (api_get A ''/system/device-mode'' [] s)) (\<lambda>mode s1.
        if \<not> get_bool G mode ''traffic-gen'' then (Inr (), s1)
        else and_then (wrap ''failed to get interface details'' (api_get A ''/interface'' [(''name'', iface)] s1))
          (\<lambda>resp s2.
            if length (gj_array G resp) = 0 then (Inl (Plain (''interface not found: '' @ iface)), s2)
            else (case parse_mac (get_string G resp ''0.mac-address'') of
                None \<Rightarrow> (Inl (Plain ''invalid MAC address''), s2)
              | Some mac \<Rightarrow>
                  (case generate_gratuitous (bk_serialize B) mac ip of
                     Inl e \<Rightarrow> (Inl (Wrapped ''failed to generate advertisement packet'' (packet_error e)), s2)
                   | Inr packet \<Rightarrow>
                       and_then (api_post A ''/tool/traffic-generator/inject''
                         [(''interface'', JStr iface), (''data'', JStr (hex_bytes packet))] [] [] s2)
                         (\<lambda>_ s3. (Inr (), s3)))))))"

definition trigger_gratuitous ::
  "'s backend_env \<Rightarrow> addr \<Rightarrow> string \<Rightarrow> policy_cache \<Rightarrow> 's \<Rightarrow> (unit, 's) cached" where
  "trigger_gratuitous B ip iface pc s =
     (case policies (bk_api B) (bk_timeout B) (bk_now B) (bk_later B) pc s of
        (Inl e, pc', s') \<Rightarrow> (Inl (Wrapped ''failed to fetch user policies'' e), pc', s')
      | (Inr ps, pc', s') \<Rightarrow>
          if ''sniff'' \<notin> set ps \<or> ''test'' \<notin> set ps then (Inr (), pc', s')
          else (case inject B ip iface s' of (r, s'') \<Rightarrow> (r, pc', s'')))"

definition ensure_ip_advertisement ::
  "'s backend_env \<Rightarrow> addr \<Rightarrow> string \<Rightarrow> policy_cache \<Rightarrow> 's \<Rightarrow> (string, 's) cached" where
  "ensure_ip_advertisement B ip wanted pc s =
     (case (if wanted = '''' then wrap ''failed to automatically determine interface''
         (determine_interface (bk_api B) ip s) else (Inr wanted, s)) of
        (Inl e, s1) \<Rightarrow> (Inl e, pc, s1)
      | (Inr iface, s1) \<Rightarrow>
          (case advertise (bk_api B) ip iface s1 of
             (Inl e, s2) \<Rightarrow> (Inl e, pc, s2)
           | (Inr _, s2) \<Rightarrow>
               (case trigger_gratuitous B ip iface pc s2 of
                  (Inl e, pc', s3) \<Rightarrow> (Inl e, pc', s3)
                | (Inr _, pc', s3) \<Rightarrow> (Inr iface, pc', s3))))"

definition routeros_path :: string where
  "routeros_path = ''#(name=='' @ [CHR 0x22] @ ''routeros'' @ [CHR 0x22] @ '')''"

definition check_router :: "'s backend_env \<Rightarrow> policy_cache \<Rightarrow> 's \<Rightarrow> (string, 's) cached" where
  "check_router B pc s =
     (let A = bk_api B; G = api_gjson A in
      case policies A (bk_timeout B) (bk_now B) (bk_later B) pc s of
        (Inl e, pc', s1) \<Rightarrow> (Inl (Wrapped ''failed to fetch user policies'' e), pc', s1)
      | (Inr ps, pc', s1) \<Rightarrow>
          if ''read'' \<notin> set ps \<or> ''write'' \<notin> set ps
          then (Inl (Plain ''user does not have required read/write policies''), pc', s1)
          else
            (case wrap ''failed to check router packages'' (api_get A ''/system/package'' [] s1) of
               (Inl e, s2) \<Rightarrow> (Inl e, pc', s2)
             | (Inr resp, s2) \<Rightarrow>
                 (case gj_get G resp routeros_path of
                    None \<Rightarrow> (Inl (Plain ''RouterOS package not found''), pc', s2)
                  | Some pkg \<Rightarrow>
                      if get_string G pkg ''version'' = '''' then (Inl (Plain ''RouterOS version is empty''), pc', s2)
                      else (Inr (get_string G pkg ''version''), pc', s2))))"

end
