(* ===== verification/Rest_Failure.thy ===== *)
theory Rest_Failure
  imports Rest_Sync
begin

text \<open>
  \<open>Sync\<close> when calls fail. The locale \<open>atomic_store\<close> adds to the interface that a failed call has had
  its whole effect or none; a store that answers every call fulfils it. Then \<open>Sync\<close>, at whatever
  call it stops, has left the entries alone that it did not select.
\<close>

locale atomic_store = rest_store A table good
  for A :: "'s api" and table :: "'s \<Rightarrow> string \<Rightarrow> entry list" and good :: "'s \<Rightarrow> bool" +
  assumes get_fails: "good s \<Longrightarrow> plain_path p \<Longrightarrow> distinct (map fst q) \<Longrightarrow> api_get A p q s = (Inl e, s') \<Longrightarrow>
      good s' \<and> table s' = table s"
    and put_fails: "good s \<Longrightarrow> plain_path p \<Longrightarrow> request_ok r \<Longrightarrow> api_put A p r s = (Inl e, s') \<Longrightarrow>
      good s' \<and> (table s' = table s \<or> (\<exists>i m. table s' = (table s)(p := table s p @ [(i, m)])))"
    and patch_fails: "good s \<Longrightarrow> plain_path p \<Longrightarrow> (i, m) \<in> set (table s p) \<Longrightarrow> patch_ok b \<Longrightarrow>
      api_patch A (p @ ''/'' @ i) b s = (Inl e, s') \<Longrightarrow>
      good s' \<and> (table s' = table s \<or>
        (\<exists>m'. table s' = (table s)(p := map (\<lambda>e. if fst e = i then (i, m') else e) (table s p))))"
    and delete_fails: "good s \<Longrightarrow> plain_path p \<Longrightarrow> (i, m) \<in> set (table s p) \<Longrightarrow>
      api_delete A (p @ ''/'' @ i) s = (Inl e, s') \<Longrightarrow>
      good s' \<and> (table s' = table s \<or> table s' = (table s)(p := filter (\<lambda>e. fst e \<noteq> i) (table s p)))"

sublocale reliable_store \<subseteq> atomic: atomic_store A table good
proof
  fix s p q e s'
  assume "good s" "plain_path p" "distinct (map fst q)" "api_get A p q s = (Inl e, s')"
  then show "good s' \<and> table s' = table s" using get_succeeds [of s p q] by simp
next
  fix s p r e s'
  assume "good s" "plain_path p" "request_ok r" "api_put A p r s = (Inl e, s')"
  then show "good s' \<and> (table s' = table s \<or> (\<exists>i m. table s' = (table s)(p := table s p @ [(i, m)])))"
    using put_succeeds [of s p r] by simp
next
  fix s p i m b e s'
  assume "good s" "plain_path p" "(i, m) \<in> set (table s p)" "patch_ok b"
    "api_patch A (p @ ''/'' @ i) b s = (Inl e, s')"
  then show "good s' \<and> (table s' = table s \<or>
      (\<exists>m'. table s' = (table s)(p := map (\<lambda>e. if fst e = i then (i, m') else e) (table s p))))"
    using patch_succeeds [of s p i m b] by simp
next
  fix s p i m e s'
  assume "good s" "plain_path p" "(i, m) \<in> set (table s p)" "api_delete A (p @ ''/'' @ i) s = (Inl e, s')"
  then show "good s' \<and> (table s' = table s \<or> table s' = (table s)(p := filter (\<lambda>e. fst e \<noteq> i) (table s p)))"
    using delete_succeeds [of s p i m] by simp
qed

context atomic_store begin

text \<open>Nothing but entries with an identifier in \<open>I\<close> is lost, and no other path is touched.\<close>

definition spares :: "string \<Rightarrow> string set \<Rightarrow> 's \<Rightarrow> 's \<Rightarrow> bool" where
  "spares p I s s' \<longleftrightarrow> good s' \<and> (\<forall>p'. p' \<noteq> p \<longrightarrow> table s' p' = table s p') \<and>
     mset (drop_ids I (table s p)) \<subseteq># mset (table s' p)"

lemma spares_trans:
  assumes "spares p I s s1" "spares p J s1 s2"
  shows "spares p (I \<union> J) s s2"
proof -
  have "mset (drop_ids (I \<union> J) (table s p)) = filter_mset (\<lambda>e. fst e \<notin> J) (mset (drop_ids I (table s p)))"
    by (auto simp: mset_drop_ids filter_filter_mset intro: filter_mset_cong)
  also have "\<dots> \<subseteq># filter_mset (\<lambda>e. fst e \<notin> J) (mset (table s1 p))"
    using assms(1) by (intro multiset_filter_mono) (simp add: spares_def)
  also have "\<dots> \<subseteq># mset (table s2 p)" using assms(2) by (simp add: spares_def mset_drop_ids)
  finally show ?thesis using assms by (simp add: spares_def)
qed

lemma spares_mono: "spares p I s s' \<Longrightarrow> I \<subseteq> J \<Longrightarrow> spares p J s s'"
proof -
  assume s: "spares p I s s'" and "I \<subseteq> J"
  then have "mset (drop_ids J (table s p)) \<subseteq># mset (drop_ids I (table s p))"
    unfolding mset_drop_ids by (intro filter_mset_mono_strong) auto
  then show "spares p J s s'" using s unfolding spares_def by (meson subset_mset.trans)
qed

lemma spares_same: "good s' \<Longrightarrow> table s' = table s \<Longrightarrow> spares p I s s'"
  by (simp add: spares_def mset_drop_ids)

text \<open>Deleting: also when it fails, some of the conflicts are gone and nothing else.\<close>

lemma delete_conflicts_any:
  assumes "good s" "plain_path p" "\<forall>j \<in> set cs. is_entry s p j" "distinct (map ident cs)"
    and "delete_conflicts A p cs s = (r, s')"
  shows "\<exists>J \<subseteq> ident ` set cs. good s' \<and> table s' = (table s)(p := drop_ids J (table s p))"
  using assms
proof (induction cs arbitrary: s)
  case Nil
  then show ?case by (intro exI [of _ "{}"]) auto
next
  case (Cons j cs)
  obtain m where m: "j = JObj m" "(ident j, m) \<in> set (table s p)" "ident j \<noteq> ''''"
    using is_entryE [OF Cons.prems(1)] Cons.prems(3) by (metis list.set_intros(1))
  obtain r1 s1 where d: "api_delete A (p @ ''/'' @ ident j) s = (r1, s1)" by fastforce
  show ?case
  proof (cases r1)
    case (Inl e)
    then have "s' = s1" using Cons.prems(5) d m(3) by (simp add: Let_def wrap_def)
    moreover have "good s1 \<and> (table s1 = table s \<or> table s1 = (table s)(p := drop_ids {ident j} (table s p)))"
      using delete_fails [OF Cons.prems(1,2) m(2) d [unfolded Inl]] by (simp add: drop_ids_def)
    ultimately show ?thesis
      by (metis drop_ids_simps(1) empty_subsetI fun_upd_triv image_insert insert_subset list.simps(15) insertI1)
  next
    case (Inr u)
    then have r: "delete_conflicts A p cs s1 = (r, s')"
      using Cons.prems(5) d m(3) by (simp add: Let_def wrap_def)
    have l: "good s1" "table s1 = (table s)(p := drop_ids {ident j} (table s p))"
      using delete_law [OF Cons.prems(1,2) m(2) d [unfolded Inr]] by (simp_all add: drop_ids_def)
    have "\<forall>k \<in> set cs. is_entry s1 p k"
    proof
      fix k assume k: "k \<in> set cs"
      then obtain n where n: "k = JObj n" "(ident k, n) \<in> set (table s p)"
        using is_entryE [OF Cons.prems(1)] Cons.prems(3) by (metis list.set_intros(2))
      have "ident k \<in> ident ` set cs" using k by (rule imageI)
      moreover have "ident j \<notin> ident ` set cs" using Cons.prems(4) by simp
      ultimately have "ident k \<noteq> ident j" by metis
      then show "is_entry s1 p k" using l n by (auto simp: is_entry_def)
    qed
    moreover have "distinct (map ident cs)" using Cons.prems(4) by simp
    ultimately obtain J where J: "J \<subseteq> ident ` set cs" "good s'" "table s' = (table s1)(p := drop_ids J (table s1 p))"
      using Cons.IH [OF l(1) Cons.prems(2) _ _ r] by blast
    then have "table s' = (table s)(p := drop_ids (insert (ident j) J) (table s p))"
      using l(2) by simp
    then show ?thesis using J(1,2) by (intro exI [of _ "insert (ident j) J"]) auto
  qed
qed

lemma apply_slot_any:
  assumes "good s" "plain_path p" "row_ok ignored (r, sl)" "id_key \<in> set ignored"
    and "\<forall>j \<in> set (slot_objs sl). is_entry s p j" "apply_slot A p ignored r sl s = (res, s')"
  shows "spares p (slot_ids sl) s s'"
proof (cases res)
  case (Inr j)
  then obtain e where "served ignored p r sl s j s' e"
    using apply_slot_ok [OF assms(1,2) _ assms(4) _ _ _ assms(5) assms(6) [unfolded Inr]] assms(3)
    by (auto simp: row_ok_def)
  then show ?thesis by (auto simp: served_def spares_def)
next
  case (Inl e)
  have r: "request_ok r" "slot_req sl = JObj r" using assms(3) by (simp_all add: row_ok_def)
  have none: "slot_found sl = None" using assms(6) Inl by (auto simp: apply_slot_def split: option.splits)
  show ?thesis
  proof (cases "slot_patch sl")
    case None
    then have "api_put A p r s = (Inl e, s') \<or> (\<exists>e'. api_put A p r s = (Inl e', s'))"
      using assms(6) Inl none by (auto simp: apply_slot_def wrap_def split: prod.splits sum.splits)
    then have "good s' \<and> (table s' = table s \<or> (\<exists>i m. table s' = (table s)(p := table s p @ [(i, m)])))"
      using put_fails [OF assms(1,2) r(1)] by blast
    then show ?thesis by (auto simp: spares_def mset_drop_ids intro: subset_mset.order_trans [OF multiset_filter_subset])
  next
    case (Some f)
    then have so: "slot_objs sl = [f]" using none by (simp add: slot_objs_def)
    then obtain m where m: "f = JObj m" "(ident f, m) \<in> set (table s p)" "ident f \<noteq> ''''"
      using is_entryE [OF assms(1)] assms(5) by (metis list.set_intros(1))
    have "keys_ok m" using entry_ok [OF assms(1) m(2)] by (simp add: entry_ok_def)
    then have b: "patch_ok (generate_patch_request (api_gjson A) (JObj m) (JObj r) ignored)"
      using patch_request_ok [OF gjson _ r(1) assms(4)] by blast
    obtain e' where "api_patch A (p @ ''/'' @ ident f)
        (generate_patch_request (api_gjson A) (JObj m) (JObj r) ignored) s = (Inl e', s')"
      using assms(6) Inl none Some m r(2) by (auto simp: apply_slot_def wrap_def split: prod.splits sum.splits)
    then consider "good s'" "table s' = table s"
      | m' where "good s'" "table s' = (table s)(p := map (\<lambda>e. if fst e = ident f then (ident f, m') else e) (table s p))"
      using patch_fails [OF assms(1,2) m(2) b] by blast
    then show ?thesis
    proof cases
      case 1
      then show ?thesis by (rule spares_same)
    next
      case 2
      have "distinct (map fst (table s p))" using good_table [OF assms(1)] by (simp add: table_ok_def)
      then show ?thesis using 2 replace_entry [OF _ m(2), of m'] so by (simp add: spares_def slot_ids_def)
    qed
  qed
qed

lemma apply_slots_any:
  assumes "good s" "plain_path p" "id_key \<in> set ignored" "\<forall>x \<in> set rows. row_ok ignored x"
    and "\<forall>j \<in> set (slots_objs (map snd rows)). is_entry s p j"
    and "distinct (map ident (slots_objs (map snd rows)))"
    and "apply_slots A p ignored rows s = (res, s')"
  shows "spares p (ident ` set (slots_objs (map snd rows))) s s'"
  using assms(1,4-7)
proof (induction rows arbitrary: s res)
  case Nil
  then show ?case by (simp add: spares_same)
next
  case (Cons x rows)
  obtain r sl where x: "x = (r, sl)" by fastforce
  let ?I = "ident ` set (slots_objs (map snd rows))"
  have so: "slots_objs (map snd (x # rows)) = slot_objs sl @ slots_objs (map snd rows)"
    by (simp add: slots_objs_def x)
  have ids: "ident ` set (slots_objs (map snd (x # rows))) = slot_ids sl \<union> ?I"
    unfolding so by (simp add: slot_ids_def image_Un)
  have row: "row_ok ignored (r, sl)" using Cons.prems(2) x by simp
  obtain r1 s1 where c: "apply_slot A p ignored r sl s = (r1, s1)" by fastforce
  have sp: "spares p (slot_ids sl) s s1"
    using apply_slot_any [OF Cons.prems(1) assms(2) row assms(3) _ c] Cons.prems(3) so by simp
  show ?case
  proof (cases r1)
    case (Inl e)
    then have "s' = s1" using Cons.prems(5) c x by simp
    then show ?thesis unfolding ids using spares_mono [OF sp] by blast
  next
    case (Inr j)
    obtain res1 where c2: "apply_slots A p ignored rows s1 = (res1, s')"
      using Cons.prems(5) c x Inr by (auto split: prod.splits sum.splits)
    obtain e where e: "served ignored p r sl s j s1 e"
      using apply_slot_ok [OF Cons.prems(1) assms(2) _ assms(3) _ _ _ _ c [unfolded Inr]] row Cons.prems(3) so
      by (auto simp: row_ok_def)
    have "slot_ids sl \<inter> ?I = {}" using Cons.prems(4) so by (simp add: slot_ids_def)
    then have "\<forall>k \<in> set (slots_objs (map snd rows)). is_entry s1 p k"
      using served_keeps [OF Cons.prems(1) e] Cons.prems(3) so by fastforce
    then have "spares p ?I s1 s'"
      using Cons.IH [OF _ _ _ _ c2] sp Cons.prems(2,4) so by (simp add: spares_def)
    then show ?thesis unfolding ids using spares_trans [OF sp] by blast
  qed
qed

text \<open>Whatever happens, the entries that were not selected are still there.\<close>

lemma sync_spares:
  assumes s: "good s" and p: "plain_path p" and q: "distinct (map fst q)"
    and reqs: "\<forall>r \<in> set reqs. request_ok r" and ign: "reqs = [] \<or> id_key \<in> set ignored"
    and filt: "decides filt keep"
    and res: "sync A p reqs q filt idf ignored f s = (r, f', s')"
  shows "good s' \<and> (\<forall>p'. p' \<noteq> p \<longrightarrow> table s' p' = table s p') \<and>
    mset (filter (\<lambda>e. \<not> selects q keep e) (table s p)) \<subseteq># mset (table s' p) \<and>
    (reqs = [] \<longrightarrow> (\<exists>J. table s' p = drop_ids J (table s p) \<and>
      J \<subseteq> fst ` set (filter (selects q keep) (table s p))))"
proof -
  let ?G = "api_gjson A" and ?S = "fst ` set (filter (selects q keep) (table s p))"
  have goal: ?thesis if "spares p ?S s s'" "reqs = [] \<longrightarrow> (\<exists>J \<subseteq> ?S. table s' p = drop_ids J (table s p))"
    using that drop_selected [OF s, of "selects q keep" p] by (auto simp: spares_def)
  have triv: "table s p = drop_ids {} (table s p)" by simp
  obtain gr s1 where g: "api_get A p q s = (gr, s1)" by fastforce
  show ?thesis
  proof (cases gr)
    case (Inl e)
    then have "s' = s1" using res g by (simp add: sync_def wrap_def)
    then have "good s' \<and> table s' = table s" using get_fails [OF s p q g [unfolded Inl]] by simp
    then show ?thesis by (intro goal) (auto simp: spares_same intro!: exI [of _ "{}"])
  next
    case (Inr resp)
    note g = g [unfolded Inr]
    obtain objs f1 where fo: "filter_objs filt (gj_array ?G resp) f = (objs, f1)" by fastforce
    obtain sls cs where d: "drop_useless (match_objs ?G ignored idf objs (start_slots ?G reqs) []) = (sls, cs)"
      by fastforce
    note plan = sync_plan [OF s p q reqs filt g fo d]
    have ent: "\<forall>j \<in> set (slots_objs sls @ cs). is_entry s1 p j" using plan(7) by (simp add: is_entry_def plan(2))
    obtain dr s2 where del: "delete_conflicts A p cs s1 = (dr, s2)" by fastforce
    obtain J where J: "J \<subseteq> ident ` set cs" "good s2" "table s2 = (table s1)(p := drop_ids J (table s1 p))"
      using delete_conflicts_any [OF plan(1) p _ _ del] ent plan(5) by auto
    have s2: "spares p (ident ` set cs) s s2"
      using J plan(2) spares_mono [of p J s s2 "ident ` set cs"] by (simp add: spares_def)
    have sub: "ident ` set cs \<subseteq> ?S" "ident ` set (slots_objs sls) \<subseteq> ?S" using plan(6) by auto
    have e2: "\<exists>J \<subseteq> ?S. table s2 p = drop_ids J (table s p)"
      using J sub(1) plan(2) by (intro exI [of _ J]) auto
    show ?thesis
    proof (cases dr)
      case (Inl e)
      then have "s' = s2" using res g fo d del plan(3) by (simp add: sync_def wrap_def)
      then show ?thesis using spares_mono [OF s2 sub(1)] e2 by (intro goal) auto
    next
      case (Inr u)
      obtain ar where app: "apply_slots A p ignored (zip reqs sls) s2 = (ar, s')"
        using res g fo d del plan(3) Inr by (auto simp: sync_def wrap_def split: prod.splits)
      show ?thesis
      proof (cases "reqs = []")
        case True
        then have "s' = s2" using app by simp
        then show ?thesis using spares_mono [OF s2 sub(1)] e2 by (intro goal) auto
      next
        case False
        note c = after_deletes [OF plan(1) p ent plan(5) del [unfolded Inr]]
        have snd: "map snd (zip reqs sls) = sls" using plan(4) by simp
        have "spares p (ident ` set (slots_objs sls)) s2 s'"
          using apply_slots_any [OF c(1) p _ plan(8) _ _ app] c(3,4) ign False snd by auto
        from spares_trans [OF s2 this] have "spares p ?S s s'" using sub by (elim spares_mono) auto
        then show ?thesis using False by (intro goal) auto
      qed
    qed
  qed
qed

end

end
