(* ===== verification/Router_Sync.thy ===== *)
theory Router_Sync
  imports Router_Backend Rest_Failure
begin

text \<open>
  The contract of \<open>Sync\<close> carried over to the operations of the backend: what one call
  establishes, and that calls on other chains or lists preserve it.
\<close>

section \<open>Fields and requests\<close>

definition shown :: "jobject \<Rightarrow> string \<Rightarrow> string" where
  "shown m k = (case map_of m k of None \<Rightarrow> '''' | Some v \<Rightarrow> scalar_string v)"

definition owned :: "string \<Rightarrow> entry \<Rightarrow> bool" where
  "owned uid e \<longleftrightarrow> has_prefix ''mikrolb:'' (shown (snd e) ''comment'') \<and>
     str_contains uid (shown (snd e) ''comment'')"

lemma get_string_shown:
  assumes "gjson_ok G" "keys_ok m" "plain_key k"
  shows "get_string G (JObj m) k = shown m k"
  using gjson_okD(4) [OF assms(1) keys_okD(1) [OF assms(2)] assms(3)] gjson_okD(7) [OF assms(1)]
    keys_okD(2) [OF assms(2)]
  by (auto simp: get_string_def shown_def split: option.splits)

lemma plain_literals [simp]:
  "plain_key ''comment''" "plain_key ''address''" "plain_key ''chain''" "plain_key ''action''"
  "plain_key ''new-connection-mark''" "plain_key ''dst-address-list''" "plain_key ''passthrough''"
  "plain_key ''disabled''" "plain_key ''log''" "plain_key ''connection-mark''" "plain_key ''reject-with''"
  "plain_key ''protocol''" "plain_key ''list''" "plain_key ''jump-target''" "plain_key ''dst-address''"
  "plain_key ''dst-port''" "plain_key ''to-addresses''" "plain_key ''to-address''" "plain_key ''to-ports''"
  "plain_key ''nth''" "plain_key ''src-address-list''" "plain_key ''interface''" "plain_key ''advertise''"
  "plain_key ''auto-link-local''" "plain_key ''eui-64''" "plain_key ''no-dad''"
  by code_simp+

lemma request_ok_iff:
  "request_ok r \<longleftrightarrow> distinct (map fst r) \<and>
    list_all (\<lambda>f. plain_key (fst f) \<and> scalar (snd f) \<and> snd f \<noteq> JNull) r"
proof -
  have "\<not> plain_key id_key" by code_simp
  then show ?thesis
    by (auto simp: request_ok_def keys_ok_def flat_object_def list_all_iff)
qed

lemma texts_simps [simp]:
  "texts [] = []" "texts ((k, t) # l) = (k, JStr t) # texts l"
  by (simp_all add: texts_def)

lemmas request_simps = request_ok_iff enabled_fields_def field_text_def

text \<open>A field of an entry with a given text.\<close>

definition on :: "string \<Rightarrow> string \<Rightarrow> entry \<Rightarrow> bool" where
  "on k v e \<longleftrightarrow> field_text (snd e) k = v"

lemma on_unique: "on k v e \<Longrightarrow> on k w e \<longleftrightarrow> v = w"
  by (auto simp: on_def)

lemma exact_field:
  "exact ignored r m \<Longrightarrow> k \<notin> set ignored \<Longrightarrow> field_text m k = field_text r k"
  by (simp add: exact_def field_text_def)

lemma exact_on:
  "exact ignored r (snd e) \<Longrightarrow> k \<notin> set ignored \<Longrightarrow> on k v e \<longleftrightarrow> field_text r k = v"
  by (simp add: on_def exact_field)

section \<open>The selected entries are the requested ones\<close>

definition has_exactly :: "string list \<Rightarrow> (entry \<Rightarrow> bool) \<Rightarrow> jobject list \<Rightarrow> entry list \<Rightarrow> bool" where
  "has_exactly ignored sel reqs t \<longleftrightarrow> (\<exists>new. mset (filter sel t) = mset new \<and>
     list_all2 (\<lambda>r e. agree ignored r (snd e)) reqs new)"

lemma has_exactly_cong:
  "mset (filter sel t') = mset (filter sel t) \<Longrightarrow> has_exactly ignored sel reqs t' = has_exactly ignored sel reqs t"
  by (simp add: has_exactly_def)

lemma has_exactly_sel:
  "(\<And>e. e \<in> set t \<Longrightarrow> sel e = sel' e) \<Longrightarrow> has_exactly ignored sel reqs t = has_exactly ignored sel' reqs t"
  unfolding has_exactly_def by (metis (mono_tags, lifting) filter_cong)

lemma has_exactly_reorder:
  assumes "has_exactly ignored sel reqs t" "mset reqs' = mset reqs"
  shows "has_exactly ignored sel reqs' t"
proof -
  obtain new where n: "mset (filter sel t) = mset new" "list_all2 (\<lambda>r e. agree ignored r (snd e)) reqs new"
    using assms(1) by (auto simp: has_exactly_def)
  obtain new' where "list_all2 (\<lambda>r e. agree ignored r (snd e)) reqs' new'" "mset new' = mset new"
    using list_all2_reorder_left_invariance [OF n(2) assms(2)] by auto
  then show ?thesis unfolding has_exactly_def using n(1) by metis
qed

lemma has_exactly_weaken:
  "has_exactly ignored sel [] t \<Longrightarrow> (\<And>e. sel' e \<Longrightarrow> sel e) \<Longrightarrow> has_exactly ignored sel' [] t"
  by (auto simp: has_exactly_def filter_empty_conv)

lemma has_exactly_Nil: "has_exactly ignored sel [] t \<longleftrightarrow> (\<forall>e \<in> set t. \<not> sel e)"
  by (auto simp: has_exactly_def filter_empty_conv)

text \<open>The new entries of a synchronisation.\<close>

lemma synced_new:
  assumes "synced ignored reqs sel t t' new"
    and "\<And>r e. r \<in> set reqs \<Longrightarrow> e \<in> set t' \<Longrightarrow> exact ignored r (snd e) \<Longrightarrow> sel e"
  shows "filter sel new = new"
proof -
  have l: "list_all2 (fits ignored sel) reqs new" using assms(1) by (simp add: synced_def)
  have "set_mset (mset t') = set_mset (mset (filter (\<lambda>e. \<not> sel e) t) + mset new)"
    using assms(1) by (simp only: synced_def)
  then have sub: "set new \<subseteq> set t'" by auto
  have "sel e" if e: "e \<in> set new" for e
  proof -
    obtain i where i: "i < length new" "e = new ! i" using e by (auto simp: in_set_conv_nth)
    then have "fits ignored sel (reqs ! i) e" "i < length reqs"
      using l by (auto simp: list_all2_conv_all_nth)
    then show ?thesis using assms(2) [of "reqs ! i" e] e sub by (auto simp: fits_def)
  qed
  then show ?thesis by (simp add: filter_id_conv)
qed

lemma synced_establishes:
  assumes "synced ignored reqs sel t t' new" "filter sel new = new"
  shows "has_exactly ignored sel reqs t'"
proof -
  have "mset (filter sel t') = mset (filter sel new)"
    using assms(1) by (simp add: synced_def mset_filter filter_filter_mset)
  moreover have "list_all2 (\<lambda>r e. agree ignored r (snd e)) reqs new"
    using assms(1) unfolding synced_def by (blast intro: list_all2_mono [of "fits ignored sel"] fits_def [THEN iffD1, THEN conjunct1])
  ultimately show ?thesis using assms(2) by (auto simp: has_exactly_def)
qed

lemma synced_spares:
  assumes "synced ignored reqs sel t t' new" "filter sel new = new" "\<And>e. sel e \<Longrightarrow> \<not> sel' e"
  shows "mset (filter sel' t') = mset (filter sel' t)"
proof -
  have "filter sel' new = []" using assms(2,3) by (auto simp: filter_empty_conv filter_id_conv)
  moreover have "filter sel' (filter (\<lambda>e. \<not> sel e) t) = filter sel' t"
    using assms(3) by (auto intro!: filter_cong)
  ultimately show ?thesis
    using assms(1) by (metis (no_types, lifting) add.right_neutral filter_union_mset mset.simps(1) mset_filter synced_def)
qed

section \<open>One synchronisation\<close>

definition keeps :: "(json \<Rightarrow> bool) option \<Rightarrow> json \<Rightarrow> bool" where
  "keeps filt j = (case filt of None \<Rightarrow> True | Some P \<Rightarrow> P j)"

lemma decides_pure: "decides (pure_filter filt) (keeps filt)"
  by (auto simp: decides_def pure_filter_def keeps_def split: option.splits)

text \<open>The outcome of one synchronisation: what \<open>Sync\<close> promises when it succeeds.\<close>

context rest_store begin

definition step_ok ::
  "string \<Rightarrow> jobject list \<Rightarrow> query \<Rightarrow> (json \<Rightarrow> bool) option \<Rightarrow> string list \<Rightarrow> 's \<Rightarrow> 's \<Rightarrow> bool" where
  "step_ok p reqs q filt ignored s s' \<longleftrightarrow> good s' \<and> (\<forall>p'. p' \<noteq> p \<longrightarrow> table s' p' = table s p') \<and>
     (\<exists>new. synced ignored reqs (selects q (keeps filt)) (table s p) (table s' p) new)"

lemma sync_rules_ok:
  assumes "good s" "plain_path p" "distinct (map fst q)" "\<forall>r \<in> set reqs. request_ok r"
    and "reqs = [] \<or> id_key \<in> set ignored"
    and "sync_rules A p reqs q filt idf ignored s = (Inr u, s')"
  shows "step_ok p reqs q filt ignored s s'"
proof -
  obtain js f' where "sync A p reqs q (pure_filter filt) idf ignored () s = (Inr js, f', s')"
    using assms(6) by (auto simp: sync_rules_def split: prod.splits sum.splits)
  from sync_contract [OF assms(1-5) decides_pure this] show ?thesis by (auto simp: step_ok_def)
qed

text \<open>From \<open>s\<close> to \<open>s'\<close> only entries of the path \<open>p\<close> that \<open>own\<close> holds of have come or gone.\<close>

definition touches :: "string \<Rightarrow> (entry \<Rightarrow> bool) \<Rightarrow> 's \<Rightarrow> 's \<Rightarrow> bool" where
  "touches p own s s' \<longleftrightarrow> good s' \<and> (\<forall>p'. p' \<noteq> p \<longrightarrow> table s' p' = table s p') \<and>
     (\<forall>sel. (\<forall>e. own e \<longrightarrow> \<not> sel e) \<longrightarrow> mset (filter sel (table s' p)) = mset (filter sel (table s p)))"

lemma touches_same: "good s \<Longrightarrow> touches p own s s"
  by (simp add: touches_def)

lemma touches_trans:
  assumes "touches p own s s1" "touches p own s1 s2"
  shows "touches p own s s2"
  using assms by (simp add: touches_def)

lemma touches_cong:
  assumes "touches p own s s'"
    and "\<And>e. e \<in> set (table s p) \<or> e \<in> set (table s' p) \<Longrightarrow> own e \<Longrightarrow> own' e"
  shows "touches p own' s s'"
  unfolding touches_def
proof (intro conjI allI impI)
  fix sel assume n: "\<forall>e. own' e \<longrightarrow> \<not> sel e"
  have "filter sel (table r p) = filter (\<lambda>e. sel e \<and> \<not> own e) (table r p)" if "r = s \<or> r = s'" for r
    using that assms(2) n by (intro filter_cong) auto
  moreover have "mset (filter (\<lambda>e. sel e \<and> \<not> own e) (table s' p)) = mset (filter (\<lambda>e. sel e \<and> \<not> own e) (table s p))"
    using assms(1) by (simp add: touches_def)
  ultimately show "mset (filter sel (table s' p)) = mset (filter sel (table s p))" by metis
qed (use assms(1) in \<open>auto simp: touches_def\<close>)

lemma touches_mono: "touches p own s s' \<Longrightarrow> (\<And>e. own e \<Longrightarrow> own' e) \<Longrightarrow> touches p own' s s'"
  by (rule touches_cong)

lemma touches_keeps:
  assumes "touches p own s s'" "has_exactly ignored sel reqs (table s p')" "\<And>e. p' = p \<Longrightarrow> own e \<Longrightarrow> \<not> sel e"
  shows "has_exactly ignored sel reqs (table s' p')"
  using assms has_exactly_cong [of sel "table s' p" "table s p"] by (cases "p' = p") (auto simp: touches_def)

lemma touches_member:
  assumes "touches p own s s'" "e \<in> set (table s' p)" "\<not> own e"
  shows "e \<in> set (table s p)"
proof -
  have "mset (filter (\<lambda>e. \<not> own e) (table s' p)) = mset (filter (\<lambda>e. \<not> own e) (table s p))"
    using assms(1) by (simp add: touches_def)
  then have "set (filter (\<lambda>e. \<not> own e) (table s' p)) = set (filter (\<lambda>e. \<not> own e) (table s p))"
    by (rule mset_eq_setD)
  then show ?thesis using assms(2,3) by auto
qed

text \<open>A synchronisation whose requests it selects itself owns what it selects, and leaves the requested.\<close>

lemma step_spec:
  assumes "step_ok p reqs q filt ignored s s'"
    and "\<And>r e. r \<in> set reqs \<Longrightarrow> e \<in> set (table s' p) \<Longrightarrow> exact ignored r (snd e) \<Longrightarrow> sel e"
    and "\<And>e. e \<in> set (table s p) \<or> e \<in> set (table s' p) \<Longrightarrow> selects q (keeps filt) e = sel e"
  shows "touches p sel s s' \<and> has_exactly ignored sel reqs (table s' p)"
proof
  let ?S = "selects q (keeps filt)"
  obtain new where n: "synced ignored reqs ?S (table s p) (table s' p) new"
    and g: "good s'" "\<forall>p'. p' \<noteq> p \<longrightarrow> table s' p' = table s p'"
    using assms(1) by (auto simp: step_ok_def)
  have f: "filter ?S new = new" by (rule synced_new [OF n]) (use assms(2,3) in blast)
  show "has_exactly ignored sel reqs (table s' p)"
    using synced_establishes [OF n f] has_exactly_sel [of "table s' p" ?S sel] assms(3) by simp
  have "touches p ?S s s'" using synced_spares [OF n f] g by (auto simp: touches_def)
  then show "touches p sel s s'" by (rule touches_cong) (use assms(3) in auto)
qed

text \<open>Operations that own the entries \<open>sel\<close> of a path and leave the requested ones there.\<close>

definition ensures ::
  "('s \<Rightarrow> (unit, 's) reply) \<Rightarrow> string \<Rightarrow> string list \<Rightarrow> (entry \<Rightarrow> bool) \<Rightarrow> jobject list \<Rightarrow> bool" where
  "ensures op p ignored sel reqs \<longleftrightarrow> (\<forall>s s' u. good s \<longrightarrow> op s = (Inr u, s') \<longrightarrow>
     touches p sel s s' \<and> has_exactly ignored sel reqs (table s' p))"

lemma ensures_sync:
  assumes "plain_path p" "distinct (map fst q)" "\<forall>r \<in> set reqs. request_ok r" "reqs = [] \<or> id_key \<in> set ignored"
    and "\<And>r e. r \<in> set reqs \<Longrightarrow> exact ignored r (snd e) \<Longrightarrow> sel e"
    and "\<And>s e. good s \<Longrightarrow> e \<in> set (table s p) \<Longrightarrow> selects q (keeps filt) e = sel e"
  shows "ensures (sync_rules A p reqs q filt idf ignored) p ignored sel reqs"
  unfolding ensures_def
proof (intro allI impI)
  fix s s' u assume s: "good s" and r: "sync_rules A p reqs q filt idf ignored s = (Inr u, s')"
  have o: "step_ok p reqs q filt ignored s s'" by (rule sync_rules_ok [OF s assms(1-4) r])
  then have "good s'" by (simp add: step_ok_def)
  then show "touches p sel s s' \<and> has_exactly ignored sel reqs (table s' p)"
    using step_spec [OF o, of sel] assms(5,6) s by blast
qed

lemma ensures_empty: "ensures op p ignored sel [] \<Longrightarrow> ensures op p ignored' sel []"
  by (simp add: ensures_def has_exactly_Nil)

text \<open>A step without requests filters the table.\<close>

lemma step_removes:
  assumes "step_ok p [] q filt ignored s s'"
  shows "mset (table s' p) = mset (filter (\<lambda>e. \<not> selects q (keeps filt) e) (table s p))"
  using assms by (auto simp: step_ok_def synced_def)

text \<open>Several operations, each on the entries with another value of a field.\<close>

lemma collect_ensures:
  assumes "\<And>c. c \<in> set cs \<Longrightarrow> ensures (op c) p ignored (on k c) (R c)" "distinct cs" "good s"
    and "collect_tasks (map op cs) s = ([], s')"
  shows "touches p (\<lambda>e. \<exists>c \<in> set cs. on k c e) s s' \<and>
    (\<forall>c \<in> set cs. has_exactly ignored (on k c) (R c) (table s' p))"
  using assms
proof (induction cs arbitrary: s)
  case Nil
  then show ?case by (simp add: touches_same)
next
  case (Cons c cs)
  obtain s1 where o: "op c s = (Inr (), s1)" "collect_tasks (map op cs) s1 = ([], s')"
    using Cons.prems(4) by (auto split: prod.splits sum.splits)
  have t: "touches p (on k c) s s1" and h: "has_exactly ignored (on k c) (R c) (table s1 p)"
    using Cons.prems(1) [of c] Cons.prems(3) o(1) by (auto simp: ensures_def)
  have g: "good s1" using t by (simp add: touches_def)
  have ih: "touches p (\<lambda>e. \<exists>c \<in> set cs. on k c e) s1 s' \<and>
    (\<forall>c \<in> set cs. has_exactly ignored (on k c) (R c) (table s' p))"
    by (rule Cons.IH [OF _ _ g o(2)]) (use Cons.prems(1,2) in auto)
  have "has_exactly ignored (on k c) (R c) (table s' p)"
    by (rule touches_keeps [OF conjunct1 [OF ih] h]) (use Cons.prems(2) in \<open>auto simp: on_def\<close>)
  moreover have "touches p (\<lambda>e. \<exists>c \<in> set (c # cs). on k c e) s s'"
    by (rule touches_trans [OF touches_mono [OF t] touches_mono [OF conjunct1 [OF ih]]]) auto
  ultimately show ?case using ih by auto
qed

end

lemma exact_query:
  assumes "exact ignored r m" "query_matches q r" "set (map fst q) \<inter> set ignored = {}"
  shows "query_matches q m"
  unfolding query_matches_def list_all_iff
proof
  fix kv assume kv: "kv \<in> set q"
  then have "fst kv \<notin> set ignored" using assms(3) by auto
  then have "field_text m (fst kv) = field_text r (fst kv)" by (rule exact_field [OF assms(1)])
  then show "field_text m (fst kv) = snd kv"
    using assms(2) kv by (simp add: query_matches_def list_all_iff)
qed

lemma selects_None: "selects q (keeps None) = (\<lambda>e. query_matches q (snd e))"
  by (simp add: selects_def keeps_def fun_eq_iff)

section \<open>Success on a router that answers\<close>

context reliable_store begin

definition succeeds :: "('s \<Rightarrow> (unit, 's) reply) \<Rightarrow> bool" where
  "succeeds op \<longleftrightarrow> (\<forall>s. good s \<longrightarrow> (\<exists>s'. op s = (Inr (), s') \<and> good s'))"

lemma sync_rules_succeeds:
  assumes "plain_path p" "distinct (map fst q)" "\<forall>r \<in> set reqs. request_ok r" "reqs = [] \<or> id_key \<in> set ignored"
  shows "succeeds (sync_rules A p reqs q filt idf ignored)"
  unfolding succeeds_def
proof (intro allI impI)
  fix s assume s: "good s"
  obtain js f' s' where r: "sync A p reqs q (pure_filter filt) idf ignored () s = (Inr js, f', s')"
    using sync_succeeds [OF s assms decides_pure] by blast
  then have "good s'" using sync_contract [OF s assms decides_pure r] by blast
  then show "\<exists>s'. sync_rules A p reqs q filt idf ignored s = (Inr (), s') \<and> good s'"
    using r by (simp add: sync_rules_def)
qed

lemma collect_succeeds:
  "\<forall>op \<in> set ops. succeeds op \<Longrightarrow> good s \<Longrightarrow> \<exists>s'. collect_tasks ops s = ([], s') \<and> good s'"
proof (induction ops arbitrary: s)
  case (Cons op ops)
  obtain s1 where "op s = (Inr (), s1)" "good s1" using Cons.prems by (auto simp: succeeds_def)
  then show ?case using Cons.IH [of s1] Cons.prems(1) by auto
qed simp

lemma run_succeeds:
  "\<forall>t \<in> set ts. succeeds (snd t) \<Longrightarrow> good s \<Longrightarrow> \<exists>s'. run_tasks ts s = (Inr (), s') \<and> good s'"
proof (induction ts arbitrary: s)
  case (Cons t ts)
  obtain s1 where "snd t s = (Inr (), s1)" "good s1" using Cons.prems by (auto simp: succeeds_def)
  then show ?case using Cons.IH [of s1] Cons.prems(1) by (cases t) (auto simp: and_then_def wrap_def)
qed simp

end

end
