(* ===== verification/Router_Shapes.thy ===== *)
theory Router_Shapes
  imports Router_Sync Mock_Props
begin

text \<open>
  The shape of the requests of a service: they are well-formed, each lies in the chain or list of
  the call it is part of, and the two groupings by map keys hold what they should.
\<close>

section \<open>Paths\<close>

lemma table_paths:
  assumes "f = IPv4 \<or> f = IPv6"
  shows "plain_path (table_path f ''nat'')" "plain_path (table_path f ''address-list'')"
    "plain_path (table_path f ''mangle'')" "plain_path (table_path f ''filter'')"
proof -
  have "list_all (\<lambda>f. list_all (\<lambda>t. plain_path (table_path f t)) [''nat'', ''address-list'', ''mangle'', ''filter''])
      [IPv4, IPv6]"
    by code_simp
  then show "plain_path (table_path f ''nat'')" "plain_path (table_path f ''address-list'')"
    "plain_path (table_path f ''mangle'')" "plain_path (table_path f ''filter'')"
    using assms by auto
qed

lemma paths_distinct:
  "distinct [table_path IPv4 ''nat'', table_path IPv4 ''address-list'', table_path IPv4 ''mangle'',
     table_path IPv4 ''filter'', table_path IPv6 ''nat'', table_path IPv6 ''address-list'',
     table_path IPv6 ''mangle'', table_path IPv6 ''filter'']"
  by code_simp

context rest_store begin

lemma managed_owned:
  assumes "good s" "e \<in> set (table s p)"
  shows "managed_by A uid (JObj (snd e)) = owned uid e"
proof -
  have "keys_ok (snd e)" using entry_ok [OF assms(1), of "fst e" "snd e" p] assms(2) by (simp add: entry_ok_def)
  then show ?thesis by (simp add: managed_by_def owned_def get_string_shown [OF gjson])
qed

end

section \<open>Requests\<close>

lemma field_text_texts:
  "field_text (texts l @ m) k = (case map_of l k of Some t \<Rightarrow> t | None \<Rightarrow> field_text m k)"
proof -
  have "map_of (texts l) k = map_option JStr (map_of l k)"
    by (induction l) (auto simp: texts_def)
  then show ?thesis by (simp add: field_text_def map_add_def split: option.splits)
qed

lemma field_text_put: "field_text (put_field k v m) k' = (if k' = k then field_text [(k, v)] k else field_text m k')"
  by (simp add: field_text_def map_of_put_field)

lemma request_ok_put:
  assumes "request_ok m" "plain_key k" "scalar v" "v \<noteq> JNull"
  shows "request_ok (put_field k v m)"
proof -
  have "\<forall>f \<in> set (put_field k v m). f = (k, v) \<or> f \<in> set m" by (induction m) auto
  then show ?thesis using assms by (fastforce simp: request_ok_iff list_all_iff distinct_put_field)
qed

lemma list_entry_ok:
  "request_ok (list_entry l msk svc ip)" "field_text (list_entry l msk svc ip) ''list'' = l"
  by (simp_all add: list_entry_def request_ok_iff field_text_def)

lemma service_rule_ok:
  assumes "r \<in> set (service_rules sha f msk svc)"
  shows "request_ok r" "field_text r ''chain'' = lb_connection_chain" "field_text r ''action'' = ''jump''"
    "field_text r ''jump-target'' = lb_service_chain sha (svc_uid svc)"
  using assms by (auto simp: service_rules_def request_simps)

lemma port_rule_ok:
  "request_ok (port_rule sha svc p)"
  "field_text (port_rule sha svc p) ''chain'' = lb_service_chain sha (svc_uid svc)"
  by (simp_all add: port_rule_def request_simps)

lemma dnat_rule_ok:
  "request_ok (dnat_rule sha f msk svc p ip)"
  "field_text (dnat_rule sha f msk svc p ip) ''chain'' = lb_port_chain sha (svc_uid svc) p"
  by (simp_all add: dnat_rule_def request_simps address_field_def)

lemma snat_rule_ok:
  "request_ok (snat_rule sha f svc ip)" "field_text (snat_rule sha f svc ip) ''chain'' = snat_chain"
  "field_text (snat_rule sha f svc ip) ''src-address-list'' = snat_ips_list sha (svc_uid svc)"
  by (simp_all add: snat_rule_def request_simps address_field_def)

lemma add_nth_ok:
  assumes "\<forall>r \<in> set reqs. request_ok r \<and> field_text r ''chain'' = c"
  shows "\<forall>r \<in> set (add_nth reqs). request_ok r \<and> field_text r ''chain'' = c"
  using assms by (auto simp: add_nth_def request_ok_put field_text_put)

section \<open>Chains\<close>

lemma chain_names [simp]:
  "lb_service_chain sha u \<noteq> lb_connection_chain" "lb_service_chain sha u \<noteq> snat_chain"
  "lb_port_chain sha u p \<noteq> lb_connection_chain" "lb_port_chain sha u p \<noteq> snat_chain"
  "lb_port_chain sha u p \<noteq> lb_service_chain sha u" "snat_ips_list sha u \<noteq> lb_ips_list"
  "lb_connection_chain \<noteq> snat_chain"
  by (simp_all add: lb_service_chain_def lb_port_chain_def lb_connection_chain_def snat_chain_def
      snat_ips_list_def lb_ips_list_def)

lemmas chain_names_sym [simp] = chain_names [symmetric]

text \<open>Two ports with the same number and protocol have the same text, and only those.\<close>

lemma dec_no_slash: "CHR ''/'' \<notin> set (dec n)"
proof
  assume "CHR ''/'' \<in> set (dec n)"
  then obtain d :: nat where "d < 10" "CHR ''/'' = char_of (48 + d)" using dec_chars by blast
  then have "(of_char (CHR ''/'') :: nat) = 48 + d" by simp
  then show False by simp
qed

lemma port_text_inj:
  "port_text p = port_text q \<longleftrightarrow> ep_port p = ep_port q \<and> ep_protocol p = ep_protocol q"
proof
  assume e: "port_text p = port_text q"
  have "cut_before (CHR ''/'') (port_text r) = dec (unat (ep_port r))" "cut_after (CHR ''/'') (port_text r) = ep_protocol r"
    for r
    using dec_no_slash [of "unat (ep_port r)"]
    by (auto simp: port_text_def cut_before_def cut_after_def takeWhile_tail dropWhile_append)
  then show "ep_port p = ep_port q \<and> ep_protocol p = ep_protocol q"
    using e dec_inj by (metis word_unat_eq_iff)
qed (simp add: port_text_def)

lemma port_chain_cong:
  "port_text p = port_text q \<Longrightarrow> lb_port_chain sha u p = lb_port_chain sha u q"
  by (simp add: port_text_inj lb_port_chain_def)

section \<open>Rules by port\<close>

text \<open>The served ports of a service, in the order of its endpoints.\<close>

definition served_ports :: "service \<Rightarrow> endpoint_port list" where
  "served_ports svc = filter served_protocol (concat (map ep_ports (svc_endpoints svc)))"

definition port_inv ::
  "(string \<Rightarrow> byte list) \<Rightarrow> service \<Rightarrow> endpoint_port list \<Rightarrow> (string \<times> jobject) list \<times> string list \<Rightarrow> bool" where
  "port_inv sha svc ps acc \<longleftrightarrow> distinct (map fst (fst acc)) \<and>
     fst ` set (fst acc) = port_text ` set (filter served_protocol ps) \<and>
     (\<forall>kr \<in> set (fst acc). \<exists>p \<in> set (filter served_protocol ps). kr = (port_text p, port_rule sha svc p)) \<and>
     set (snd acc) = lb_port_chain sha (svc_uid svc) ` set (filter served_protocol ps)"

lemma port_inv_step:
  assumes "port_inv sha svc ps acc"
  shows "port_inv sha svc (ps @ [p]) (add_port sha svc acc p)"
proof (cases "served_protocol p \<and> port_text p \<notin> fst ` set (fst acc)")
  case True
  then show ?thesis using assms by (auto simp: port_inv_def add_port_def)
next
  case False
  then have a: "add_port sha svc acc p = acc" by (auto simp: add_port_def)
  show ?thesis
  proof (cases "served_protocol p")
    case True
    with False assms obtain q where q: "q \<in> set (filter served_protocol ps)" "port_text p = port_text q"
      unfolding port_inv_def by (metis imageE)
    then have "port_text p \<in> port_text ` set (filter served_protocol ps)"
      "lb_port_chain sha (svc_uid svc) p \<in> lb_port_chain sha (svc_uid svc) ` set (filter served_protocol ps)"
      using port_chain_cong [OF q(2)] by auto
    then have "insert (port_text p) (port_text ` set (filter served_protocol ps)) =
        port_text ` set (filter served_protocol ps)"
      "insert (lb_port_chain sha (svc_uid svc) p) (lb_port_chain sha (svc_uid svc) ` set (filter served_protocol ps)) =
        lb_port_chain sha (svc_uid svc) ` set (filter served_protocol ps)"
      by blast+
    then show ?thesis using assms True unfolding a port_inv_def by auto
  next
    case False
    then show ?thesis using assms unfolding a port_inv_def by simp
  qed
qed

lemma port_rules_inv:
  "port_inv sha svc (concat (map ep_ports (svc_endpoints svc))) (port_rules sha svc)"
proof -
  have "port_inv sha svc ps (foldl (add_port sha svc) ([], []) ps)" for ps
    by (induction ps rule: rev_induct) (simp_all add: port_inv_step, simp add: port_inv_def)
  then show ?thesis by (simp add: port_rules_def)
qed

lemma port_rules_shape:
  "distinct (map fst (fst (port_rules sha svc)))"
  "fst ` set (fst (port_rules sha svc)) = port_text ` set (served_ports svc)"
  "kr \<in> set (fst (port_rules sha svc)) \<Longrightarrow> \<exists>p \<in> set (served_ports svc). kr = (port_text p, port_rule sha svc p)"
  "set (snd (port_rules sha svc)) = lb_port_chain sha (svc_uid svc) ` set (served_ports svc)"
  using port_rules_inv [of sha svc] unfolding port_inv_def served_ports_def by blast+

text \<open>The values of a map, in whatever order.\<close>

lemma mset_in_order:
  assumes "mset (order (map fst m)) = mset (map fst m)" "distinct (map fst m)"
  shows "mset (in_order order m) = mset (map snd m)"
proof -
  have "mset (in_order order m) = mset (map (\<lambda>k. the (map_of m k)) (map fst m))"
    unfolding in_order_def mset_map assms(1) by simp
  also have "map (\<lambda>k. the (map_of m k)) (map fst m) = map snd m"
    using assms(2) by (auto simp: map_of_is_SomeI)
  finally show ?thesis .
qed

section \<open>Rules by chain\<close>

definition at_key :: "(string \<times> 'v list) list \<Rightarrow> string \<Rightarrow> 'v list" where
  "at_key m k = (case map_of m k of None \<Rightarrow> [] | Some l \<Rightarrow> l)"

lemma append_at_grouping:
  fixes key :: "'x \<Rightarrow> string" and val :: "'x \<Rightarrow> 'v"
  defines "g \<equiv> \<lambda>xs. foldl (\<lambda>m x. append_at (key x) (val x) m) [] xs"
  shows "distinct (map fst (g xs)) \<and> fst ` set (g xs) = key ` set xs \<and>
    (\<forall>k. at_key (g xs) k = map val (filter (\<lambda>x. key x = k) xs))"
proof (induction xs rule: rev_induct)
  case Nil
  then show ?case by (simp add: g_def at_key_def)
next
  case (snoc x xs)
  have g: "g (xs @ [x]) = append_at (key x) (val x) (g xs)" by (simp add: g_def)
  have "at_key (append_at k v m) k' = (if k' = k then at_key m k @ [v] else at_key m k')" for k v k' and m :: "(string \<times> 'v list) list"
    by (simp add: at_key_def append_at_def map_of_put_field)
  then show ?case
    using snoc unfolding g by (auto simp: append_at_def distinct_put_field put_field_keys)
qed

text \<open>The rules of the chain \<open>c\<close>: one per address and port of it, in the order of the endpoints, with
  the round-robin parameter on all but the last.\<close>

definition chain_rules ::
  "(string \<Rightarrow> byte list) \<Rightarrow> ip_family \<Rightarrow> string \<Rightarrow> service \<Rightarrow> string \<Rightarrow> jobject list" where
  "chain_rules sha f msk svc c = add_nth (map (\<lambda>(p, ip). dnat_rule sha f msk svc p ip)
     (filter (\<lambda>(p, ip). lb_port_chain sha (svc_uid svc) p = c) (dnat_pairs f svc)))"

definition dnat_chains :: "(string \<Rightarrow> byte list) \<Rightarrow> ip_family \<Rightarrow> service \<Rightarrow> string set" where
  "dnat_chains sha f svc = (\<lambda>(p, ip). lb_port_chain sha (svc_uid svc) p) ` set (dnat_pairs f svc)"

lemma dnat_requests_shape:
  "distinct (map fst (dnat_requests sha f msk svc))"
  "fst ` set (dnat_requests sha f msk svc) = dnat_chains sha f svc"
  "c \<in> dnat_chains sha f svc \<Longrightarrow> the (map_of (dnat_requests sha f msk svc) c) = chain_rules sha f msk svc c"
proof -
  let ?m = "dnat_by_chain sha f msk svc"
  have e: "?m = foldl (\<lambda>m x. append_at (case x of (p, ip) \<Rightarrow> lb_port_chain sha (svc_uid svc) p)
      (case x of (p, ip) \<Rightarrow> dnat_rule sha f msk svc p ip) m) [] (dnat_pairs f svc)"
    by (simp add: dnat_by_chain_def case_prod_unfold)
  note g = append_at_grouping [where key = "\<lambda>x. case x of (p, ip) \<Rightarrow> lb_port_chain sha (svc_uid svc) p"
      and val = "\<lambda>x. case x of (p, ip) \<Rightarrow> dnat_rule sha f msk svc p ip" and xs = "dnat_pairs f svc", folded e]
  have m: "map_of (map (\<lambda>(chain, reqs). (chain, add_nth reqs)) l) c = map_option add_nth (map_of l c)" for l c
    by (induction l) auto
  have k: "map fst (dnat_requests sha f msk svc) = map fst ?m"
    by (simp add: dnat_requests_def case_prod_unfold)
  then show "distinct (map fst (dnat_requests sha f msk svc))" using g by simp
  have "fst ` set (dnat_requests sha f msk svc) = fst ` set ?m" using k by (metis set_map)
  then show "fst ` set (dnat_requests sha f msk svc) = dnat_chains sha f svc"
    using g by (simp add: dnat_chains_def)
  assume "c \<in> dnat_chains sha f svc"
  then have "c \<in> fst ` set ?m" using g by (simp add: dnat_chains_def)
  then obtain l where l: "map_of ?m c = Some l" by (metis map_of_eq_None_iff not_None_eq)
  then have "l = map (\<lambda>(p, ip). dnat_rule sha f msk svc p ip)
     (filter (\<lambda>(p, ip). lb_port_chain sha (svc_uid svc) p = c) (dnat_pairs f svc))"
    using g by (auto simp: at_key_def case_prod_unfold split: option.splits)
  then show "the (map_of (dnat_requests sha f msk svc) c) = chain_rules sha f msk svc c"
    by (simp add: dnat_requests_def m l chain_rules_def)
qed

lemma chain_rules_ok:
  "r \<in> set (chain_rules sha f msk svc c) \<Longrightarrow> request_ok r"
  "r \<in> set (chain_rules sha f msk svc c) \<Longrightarrow> field_text r ''chain'' = c"
  using add_nth_ok [of "map (\<lambda>(p, ip). dnat_rule sha f msk svc p ip)
     (filter (\<lambda>(p, ip). lb_port_chain sha (svc_uid svc) p = c) (dnat_pairs f svc))" c] dnat_rule_ok
  by (auto simp: chain_rules_def)

lemma dnat_chains_served: "dnat_chains sha f svc \<subseteq> set (snd (port_rules sha svc))"
  unfolding port_rules_shape(4)
  by (fastforce simp: dnat_chains_def dnat_pairs_def served_ports_def split: if_splits)

end
