(* ===== verification/Router_Ensure.thy ===== *)
theory Router_Ensure
  imports Router_Shapes
begin

text \<open>
  What \<open>EnsureService\<close> establishes. Each step of it owns the entries of one chain or list; what it
  establishes there is kept by the steps that own others. Cleaning stale chains may fail without an
  error, so the argument needs that a failed call has had its whole effect or none.
\<close>

section \<open>The state of a service on the router\<close>

definition mask_of :: "ip_family \<Rightarrow> string" where
  "mask_of f = (if f = IPv4 then '''' else ''/128'')"

text \<open>An entry of the load balancer list that counts as the service's.\<close>

definition claims :: "service \<Rightarrow> entry \<Rightarrow> bool" where
  "claims svc e \<longleftrightarrow> owned (svc_uid svc) e \<or>
     (case parse_addr (hd (split_on (CHR ''/'') (shown (snd e) ''address''))) of
        None \<Rightarrow> False | Some ip \<Rightarrow> ip \<in> set (lb_ips svc))"

definition service_jump :: "(string \<Rightarrow> byte list) \<Rightarrow> service \<Rightarrow> entry \<Rightarrow> bool" where
  "service_jump sha svc e \<longleftrightarrow> on ''chain'' lb_connection_chain e \<and> on ''action'' ''jump'' e \<and>
     on ''jump-target'' (lb_service_chain sha (svc_uid svc)) e"

definition snat_entry :: "(string \<Rightarrow> byte list) \<Rightarrow> service \<Rightarrow> entry \<Rightarrow> bool" where
  "snat_entry sha svc e \<longleftrightarrow> on ''chain'' snat_chain e \<and>
     on ''src-address-list'' (snat_ips_list sha (svc_uid svc)) e"

text \<open>The NAT table and the address lists of a family, when they are as the service wants them.\<close>

definition lb_state ::
  "(string \<Rightarrow> byte list) \<Rightarrow> service \<Rightarrow> ip_family \<Rightarrow> entry list \<Rightarrow> entry list \<Rightarrow> bool" where
  "lb_state sha svc f rules addrs \<longleftrightarrow>
     (if has_lb_ip svc f then
        (\<forall>c \<in> dnat_chains sha f svc.
           has_exactly ignored_firewall (on ''chain'' c) (chain_rules sha f (mask_of f) svc c) rules) \<and>
        has_exactly ignored_firewall (on ''chain'' (lb_service_chain sha (svc_uid svc)))
          (map snd (fst (port_rules sha svc))) rules \<and>
        has_exactly ignored_firewall (service_jump sha svc) (service_rules sha f (mask_of f) svc) rules \<and>
        has_exactly ignored_list (\<lambda>e. on ''list'' lb_ips_list e \<and> claims svc e)
          (lb_list_entries f (mask_of f) svc) addrs
      else
        has_exactly ignored_firewall (\<lambda>e. owned (svc_uid svc) e \<and> \<not> on ''chain'' snat_chain e) [] rules \<and>
        has_exactly ignored_list (\<lambda>e. on ''list'' lb_ips_list e \<and> owned (svc_uid svc) e) [] addrs)"

definition snat_state ::
  "(string \<Rightarrow> byte list) \<Rightarrow> service \<Rightarrow> ip_family \<Rightarrow> entry list \<Rightarrow> entry list \<Rightarrow> bool" where
  "snat_state sha svc f rules addrs \<longleftrightarrow>
     has_exactly ignored_firewall (snat_entry sha svc)
       (if has_snat_ip svc f then [snat_rule sha f svc (snat_ip f svc)] else []) rules \<and>
     has_exactly ignored_list (on ''list'' (snat_ips_list sha (svc_uid svc)))
       (if has_snat_ip svc f then snat_list_entries sha f (mask_of f) svc else []) addrs"

context atomic_store begin

text \<open>Cleaning touches no other chain, whether its calls succeed or not.\<close>

lemma clean_chains_touches:
  assumes "f = IPv4 \<or> f = IPv6" "good s"
  shows "touches (table_path f ''nat'') (\<lambda>e. \<exists>c \<in> set cs. on ''chain'' c e) s (clean_chains A f cs s)"
  using assms(2)
proof (induction cs arbitrary: s)
  case Nil
  then show ?case by (simp add: touches_same)
next
  case (Cons c cs)
  let ?p = "table_path f ''nat''"
  obtain r f' s1 where o: "sync A ?p [] [(''chain'', c)] (pure_filter None) None [] () s = (r, f', s1)"
    by (metis prod_cases3)
  then have s1: "snd (sync_rules A ?p [] [(''chain'', c)] None None [] s) = s1"
    by (simp add: sync_rules_def split: sum.splits)
  have sp: "good s1" "\<forall>p'. p' \<noteq> ?p \<longrightarrow> table s1 p' = table s p'"
      "\<exists>J. table s1 ?p = drop_ids J (table s ?p) \<and>
        J \<subseteq> fst ` set (filter (selects [(''chain'', c)] (keeps None)) (table s ?p))"
    using sync_spares [OF Cons.prems table_paths(1) [OF assms(1)] _ _ _ decides_pure o] by auto
  have d: "distinct (map fst (table s ?p))" using good_table [OF Cons.prems, of ?p] by (simp add: table_ok_def)
  have "touches ?p (on ''chain'' c) s s1"
    unfolding touches_def
  proof (intro conjI allI impI)
    fix sel assume n: "\<forall>e. on ''chain'' c e \<longrightarrow> \<not> sel e"
    obtain J where J: "table s1 ?p = drop_ids J (table s ?p)"
      "J \<subseteq> fst ` set (filter (selects [(''chain'', c)] (keeps None)) (table s ?p))" using sp(3) by blast
    have "fst e \<notin> J" if e: "e \<in> set (table s ?p)" "sel e" for e
    proof
      assume "fst e \<in> J"
      then obtain e' where e': "e' \<in> set (table s ?p)" "selects [(''chain'', c)] (keeps None) e'" "fst e' = fst e"
        using J(2) by auto
      then have "e' = e" using d e(1) by (metis eq_key_imp_eq_value prod.collapse)
      then show False using e'(2) e(2) n by (simp add: selects_None query_matches_def on_def)
    qed
    then have "filter sel (table s1 ?p) = filter sel (table s ?p)"
      unfolding J(1) drop_ids_def by (auto intro!: filter_cong)
    then show "mset (filter sel (table s1 ?p)) = mset (filter sel (table s ?p))" by simp
  qed (use sp in auto)
  from touches_trans [OF touches_mono [OF this] touches_mono [OF Cons.IH [OF sp(1)]]]
  show ?case by (auto simp: s1)
qed

end

section \<open>The steps of a service\<close>

lemma with_mask_of: "f = IPv4 \<or> f = IPv6 \<Longrightarrow> with_mask msg f g = g (mask_of f)"
  by (auto simp: with_mask_def family_mask_def mask_of_def fun_eq_iff IPv4_def IPv6_def)

lemma ignored_facts:
  "id_key \<in> set ignored_firewall" "id_key \<in> set ignored_list" "''chain'' \<notin> set ignored_firewall"
  "''action'' \<notin> set ignored_firewall" "''jump-target'' \<notin> set ignored_firewall"
  "''src-address-list'' \<notin> set ignored_firewall" "''list'' \<notin> set ignored_list" "''comment'' \<notin> set ignored_list"
  by (simp_all add: ignored_firewall_def ignored_list_def id_key_def)

lemma selects_none:
  "selects [] (keeps None) e" "selects ((k, v) # q) (keeps None) e \<longleftrightarrow> on k v e \<and> selects q (keeps None) e"
  by (simp_all add: selects_None query_matches_def on_def)

lemma keeps_None: "keeps None = (\<lambda>_. True)"
  by (simp add: keeps_def fun_eq_iff)

lemma selects_some:
  "selects [] (keeps (Some P)) e \<longleftrightarrow> P (JObj (snd e))"
  "selects ((k, v) # q) (keeps (Some P)) e \<longleftrightarrow> on k v e \<and> selects q (keeps (Some P)) e"
  by (auto simp: selects_def keeps_def query_matches_def on_def)

lemma list_entry_owned:
  assumes "exact ignored_list (list_entry l msk svc ip) (snd e)"
  shows "owned (svc_uid svc) e"
proof -
  have "map_of (snd e) ''comment'' = Some (JStr (''mikrolb: '' @ service_tag svc))"
    using assms ignored_facts(8) by (simp add: exact_def list_entry_def)
  moreover have "str_contains (svc_uid svc) (''mikrolb: '' @ service_tag svc)"
    using str_contains_middle [of "svc_uid svc" "''mikrolb: service '' @ svc_name svc @ '' (''" "'')''"]
    by (simp add: service_tag_def)
  ultimately show ?thesis by (simp add: owned_def shown_def has_prefix_def)
qed

context atomic_store begin

lemma claims_filter:
  assumes "good s" "e \<in> set (table s p)"
  shows "lb_list_filter A svc (JObj (snd e)) = claims svc e"
proof -
  have "keys_ok (snd e)" using entry_ok [OF assms(1), of "fst e" "snd e" p] assms(2) by (simp add: entry_ok_def)
  then show ?thesis
    using managed_owned [OF assms] by (simp add: lb_list_filter_def claims_def get_string_shown [OF gjson])
qed

lemma service_steps:
  assumes f: "f = IPv4 \<or> f = IPv6"
  shows "ensures (ensure_lb_service_rule A sha f svc) (table_path f ''nat'') ignored_firewall
      (service_jump sha svc) (service_rules sha f (mask_of f) svc)"
    "ensures (ensure_lb_ips_list A f svc) (table_path f ''address-list'') ignored_list
      (\<lambda>e. on ''list'' lb_ips_list e \<and> claims svc e) (lb_list_entries f (mask_of f) svc)"
    "ensures (ensure_snat_ips_list A sha f svc) (table_path f ''address-list'') ignored_list
      (on ''list'' (snat_ips_list sha (svc_uid svc))) (snat_list_entries sha f (mask_of f) svc)"
    "is_valid (snat_ip f svc) \<Longrightarrow>
      ensures (ensure_snat_service_rule A sha f svc) (table_path f ''nat'') ignored_firewall
        (snat_entry sha svc) [snat_rule sha f svc (snat_ip f svc)]"
proof -
  note p = table_paths [OF f] and e = exact_on ignored_facts
  show "ensures (ensure_lb_service_rule A sha f svc) (table_path f ''nat'') ignored_firewall
      (service_jump sha svc) (service_rules sha f (mask_of f) svc)"
    unfolding ensure_lb_service_rule_def with_mask_of [OF f]
    by (rule ensures_sync) (auto simp: p service_rule_ok e service_jump_def selects_none)
  show "ensures (ensure_lb_ips_list A f svc) (table_path f ''address-list'') ignored_list
      (\<lambda>e. on ''list'' lb_ips_list e \<and> claims svc e) (lb_list_entries f (mask_of f) svc)"
    unfolding ensure_lb_ips_list_def with_mask_of [OF f] lb_list_entries_def
    by (rule ensures_sync)
      (auto simp: p list_entry_ok e selects_some claims_filter claims_def [of svc] list_entry_owned)
  show "ensures (ensure_snat_ips_list A sha f svc) (table_path f ''address-list'') ignored_list
      (on ''list'' (snat_ips_list sha (svc_uid svc))) (snat_list_entries sha f (mask_of f) svc)"
    unfolding ensure_snat_ips_list_def with_mask_of [OF f] snat_list_entries_def
    by (rule ensures_sync) (auto simp: p list_entry_ok e selects_none)
  assume "is_valid (snat_ip f svc)"
  then show "ensures (ensure_snat_service_rule A sha f svc) (table_path f ''nat'') ignored_firewall
        (snat_entry sha svc) [snat_rule sha f svc (snat_ip f svc)]"
    unfolding ensure_snat_service_rule_def with_mask_of [OF f]
    by simp (rule ensures_sync, auto simp: p snat_rule_ok e snat_entry_def selects_none)
qed

lemma removing_steps:
  assumes f: "f = IPv4 \<or> f = IPv6"
  shows "ensures (cleanup_lb_ips_list A f uid) (table_path f ''address-list'') ignored_list
      (\<lambda>e. on ''list'' lb_ips_list e \<and> owned uid e) []"
    "ensures (delete_lb_service_rules A f uid) (table_path f ''nat'') ignored_firewall (owned uid) []"
    "ensures (delete_snat_service_rule A sha f (svc_uid svc)) (table_path f ''nat'') ignored_firewall
      (snat_entry sha svc) []"
    "ensures (delete_snat_ips_list A sha f uid) (table_path f ''address-list'') ignored_list
      (on ''list'' (snat_ips_list sha uid)) []"
  unfolding cleanup_lb_ips_list_def delete_lb_service_rules_def delete_snat_service_rule_def delete_snat_ips_list_def
  by (rule ensures_empty, rule ensures_sync;
      auto simp: table_paths [OF f] selects_none selects_some managed_owned snat_entry_def)+

end

context atomic_store begin

lemma dnat_step:
  assumes f: "f = IPv4 \<or> f = IPv6" and "good s" and ord: "\<And>l. mset (order l) = mset l"
    and "ensure_lb_dnat_rules A sha order f svc s = (Inr u, s')"
  shows "touches (table_path f ''nat'') (\<lambda>e. \<exists>c \<in> dnat_chains sha f svc. on ''chain'' c e) s s' \<and>
    (\<forall>c \<in> dnat_chains sha f svc. has_exactly ignored_firewall (on ''chain'' c)
      (chain_rules sha f (mask_of f) svc c) (table s' (table_path f ''nat'')))"
proof -
  let ?p = "table_path f ''nat''" and ?R = "chain_rules sha f (mask_of f) svc"
  let ?m = "dnat_requests sha f (mask_of f) svc"
  let ?op = "\<lambda>c. sync_rules A ?p (the (map_of ?m c)) [(''chain'', c)] None (Some (dnat_id A f)) ignored_firewall"
  note d = dnat_requests_shape [where sha = sha and f = f and msk = "mask_of f" and svc = svc]
  have k: "set (order (map fst ?m)) = dnat_chains sha f svc" "distinct (order (map fst ?m))"
    using d(1,2) ord [of "map fst ?m"] mset_eq_setD mset_eq_imp_distinct_iff by (metis set_map)+
  have c: "collect_tasks (map ?op (order (map fst ?m))) s = ([], s')"
    using assms(4) unfolding ensure_lb_dnat_rules_def with_mask_of [OF f]
    by (auto simp: Let_def join_errors_def split: prod.splits if_splits)
  have "ensures (?op c) ?p ignored_firewall (on ''chain'' c) (?R c)" if "c \<in> dnat_chains sha f svc" for c
    unfolding d(3) [OF that]
    by (rule ensures_sync)
      (auto simp: table_paths [OF f] chain_rules_ok exact_on ignored_facts selects_none)
  then show ?thesis
    using collect_ensures [OF _ k(2) assms(2) c, where k = "''chain''" and R = ?R] unfolding k(1) by blast
qed

text \<open>The chains that rules of the service chain jump to and no requested rule does.\<close>

lemma stale_filter_collects:
  "set (snd (filter_objs (stale_filter A targets) objs l)) =
    set l \<union> ((\<lambda>j. get_string (api_gjson A) j ''jump-target'') ` set objs - set targets)"
  by (induction "stale_filter A targets" objs l rule: filter_objs.induct)
    (auto simp: stale_filter_def split: prod.splits)

lemma stale_decides: "decides (stale_filter A targets) (\<lambda>_. True)"
  by (simp add: decides_def stale_filter_def)

end

definition stale_chains :: "(string \<Rightarrow> byte list) \<Rightarrow> service \<Rightarrow> entry list \<Rightarrow> string set" where
  "stale_chains sha svc rules =
     (\<lambda>e. shown (snd e) ''jump-target'') ` set (filter (on ''chain'' (lb_service_chain sha (svc_uid svc))) rules) -
     lb_port_chain sha (svc_uid svc) ` set (served_ports svc)"

context atomic_store begin

lemma stale_subset:
  assumes f: "f = IPv4 \<or> f = IPv6" and s: "good s"
    and o: "sync A (table_path f ''nat'') reqs [(''chain'', lb_service_chain sha (svc_uid svc))]
      (stale_filter A (snd (port_rules sha svc))) idf ignored [] s = (Inr js, stale, s1)"
  shows "set stale \<subseteq> stale_chains sha svc (table s (table_path f ''nat''))"
proof -
  let ?p = "table_path f ''nat''" and ?c = "lb_service_chain sha (svc_uid svc)" and ?targets = "snd (port_rules sha svc)"
  obtain resp s0 where g: "api_get A ?p [(''chain'', ?c)] s = (Inr resp, s0)"
    using o by (auto simp: sync_def wrap_def split: prod.splits sum.splits)
  have resp: "resp = JArr (map (\<lambda>e. JObj (snd e)) (filter (on ''chain'' ?c) (table s ?p)))"
    using get_law [OF s table_paths(1) [OF f] _ g] by (simp add: query_matches_def on_def [abs_def])
  have "stale = snd (filter_objs (stale_filter A ?targets) (gj_array (api_gjson A) resp) [])"
    using o g by (auto simp: sync_def wrap_def split: prod.splits sum.splits if_splits)
  moreover have "gj_array (api_gjson A) resp = map (\<lambda>e. JObj (snd e)) (filter (on ''chain'' ?c) (table s ?p))"
    using gjson_okD [OF gjson] by (simp add: resp)
  moreover have "get_string (api_gjson A) (JObj (snd e)) ''jump-target'' = shown (snd e) ''jump-target''"
    if "e \<in> set (table s ?p)" for e
    using get_string_shown [OF gjson] entry_ok [OF s, of "fst e" "snd e" ?p] that by (simp add: entry_ok_def)
  ultimately show ?thesis
    using stale_filter_collects [of ?targets _ "[]"] port_rules_shape(4) [of sha svc] by (auto simp: stale_chains_def)
qed

lemma port_step:
  assumes f: "f = IPv4 \<or> f = IPv6" and s: "good s" and ord: "\<And>l. mset (order l) = mset l"
    and "lb_service_chain sha (svc_uid svc) \<notin> stale_chains sha svc (table s (table_path f ''nat''))"
    and "ensure_lb_port_rules A sha order f svc s = (Inr u, s')"
  shows "touches (table_path f ''nat'') (\<lambda>e. on ''chain'' (lb_service_chain sha (svc_uid svc)) e \<or>
      (\<exists>c \<in> stale_chains sha svc (table s (table_path f ''nat'')). on ''chain'' c e)) s s' \<and>
    has_exactly ignored_firewall (on ''chain'' (lb_service_chain sha (svc_uid svc)))
      (map snd (fst (port_rules sha svc))) (table s' (table_path f ''nat''))"
proof -
  let ?p = "table_path f ''nat''" and ?c = "lb_service_chain sha (svc_uid svc)"
  let ?rules = "fst (port_rules sha svc)" and ?targets = "snd (port_rules sha svc)"
  let ?stale = "stale_chains sha svc (table s ?p)"
  note sh = port_rules_shape [where sha = sha and svc = svc]
  obtain js stale s1 where o: "sync A ?p (in_order order ?rules) [(''chain'', ?c)] (stale_filter A ?targets)
      (Some (port_id A)) ignored_firewall [] s = (Inr js, stale, s1)" and s': "s' = clean_chains A f (order stale) s1"
    using assms(5) by (auto simp: ensure_lb_port_rules_def split: prod.splits sum.splits)
  have m: "mset (in_order order ?rules) = mset (map snd ?rules)" using ord sh(1) by (rule mset_in_order)
  have reqs: "request_ok r \<and> field_text r ''chain'' = ?c" if "r \<in> set (in_order order ?rules)" for r
    using that mset_eq_setD [OF m] sh(3) port_rule_ok by fastforce
  have "step_ok ?p (in_order order ?rules) [(''chain'', ?c)] None ignored_firewall s s1"
    using sync_contract [OF s table_paths(1) [OF f] _ _ _ stale_decides o] reqs ignored_facts(1)
    by (auto simp: step_ok_def keeps_None)
  then have st: "touches ?p (on ''chain'' ?c) s s1"
    and h: "has_exactly ignored_firewall (on ''chain'' ?c) (in_order order ?rules) (table s1 ?p)"
    using step_spec [of ?p _ _ _ _ s s1 "on ''chain'' ?c"] reqs
    by (simp_all add: exact_on ignored_facts selects_none)
  have sub: "set stale \<subseteq> ?stale" by (rule stale_subset [OF f s o])
  have g1: "good s1" using st by (simp add: touches_def)
  have cl: "touches ?p (\<lambda>e. \<exists>c \<in> ?stale. on ''chain'' c e) s1 s'"
    using clean_chains_touches [OF f g1, of "order stale"] sub mset_eq_setD [OF ord [of stale]] unfolding s'
    by (elim touches_mono) auto
  have "has_exactly ignored_firewall (on ''chain'' ?c) (in_order order ?rules) (table s' ?p)"
    by (rule touches_keeps [OF cl h]) (use assms(4) in \<open>auto simp: on_def\<close>)
  then show ?thesis
    using has_exactly_reorder [OF _ m [symmetric]] touches_trans [OF touches_mono [OF st] touches_mono [OF cl]]
    by (metis (lifting))
qed

end


section \<open>One family\<close>

text \<open>The entries that the service has a say in, given the NAT table it is applied to.\<close>

definition service_rule_entry ::
  "(string \<Rightarrow> byte list) \<Rightarrow> service \<Rightarrow> ip_family \<Rightarrow> entry list \<Rightarrow> entry \<Rightarrow> bool" where
  "service_rule_entry sha svc f rules e \<longleftrightarrow> snat_entry sha svc e \<or>
     (if has_lb_ip svc f then
        on ''chain'' (lb_service_chain sha (svc_uid svc)) e \<or> service_jump sha svc e \<or>
        (\<exists>c \<in> dnat_chains sha f svc \<union> stale_chains sha svc rules. on ''chain'' c e)
      else owned (svc_uid svc) e)"

definition service_list_entry :: "(string \<Rightarrow> byte list) \<Rightarrow> service \<Rightarrow> ip_family \<Rightarrow> entry \<Rightarrow> bool" where
  "service_list_entry sha svc f e \<longleftrightarrow> on ''list'' (snat_ips_list sha (svc_uid svc)) e \<or>
     on ''list'' lb_ips_list e \<and> (if has_lb_ip svc f then claims svc e else owned (svc_uid svc) e)"

lemma run_tasks_Cons:
  "run_tasks ((msg, op) # ts) s = (Inr u, s') \<longleftrightarrow> (\<exists>s1. op s = (Inr (), s1) \<and> run_tasks ts s1 = (Inr u, s'))"
  by (auto simp: and_then_def wrap_def split: prod.splits sum.splits)

lemma run_tasks_append:
  "run_tasks (ts @ us) s = (Inr u, s') \<longleftrightarrow> (\<exists>s1. run_tasks ts s = (Inr (), s1) \<and> run_tasks us s1 = (Inr u, s'))"
proof (induction ts arbitrary: s)
  case (Cons t ts)
  then show ?case by (cases t) (auto simp: run_tasks_Cons simp del: run_tasks.simps(2))
qed simp

lemma nat_not_list: "table_path f ''nat'' \<noteq> table_path f ''address-list''"
  by (simp add: table_path_def)

context atomic_store begin

text \<open>From \<open>s\<close> to \<open>s'\<close> only NAT rules of which \<open>R\<close> holds and list entries of which \<open>L\<close> holds have changed.\<close>

definition changes :: "ip_family \<Rightarrow> (entry \<Rightarrow> bool) \<Rightarrow> (entry \<Rightarrow> bool) \<Rightarrow> 's \<Rightarrow> 's \<Rightarrow> bool" where
  "changes f R L s s' \<longleftrightarrow> good s' \<and>
     (\<forall>p. p \<noteq> table_path f ''nat'' \<longrightarrow> p \<noteq> table_path f ''address-list'' \<longrightarrow> table s' p = table s p) \<and>
     (\<forall>sel. (\<forall>e. R e \<longrightarrow> \<not> sel e) \<longrightarrow> mset (filter sel (table s' (table_path f ''nat''))) =
        mset (filter sel (table s (table_path f ''nat'')))) \<and>
     (\<forall>sel. (\<forall>e. L e \<longrightarrow> \<not> sel e) \<longrightarrow> mset (filter sel (table s' (table_path f ''address-list''))) =
        mset (filter sel (table s (table_path f ''address-list''))))"

lemma changes_nat: "touches (table_path f ''nat'') own s s' \<Longrightarrow> (\<And>e. own e \<Longrightarrow> R e) \<Longrightarrow> changes f R L s s'"
  using nat_not_list [of f] by (simp add: changes_def touches_def)

lemma changes_list:
  "touches (table_path f ''address-list'') own s s' \<Longrightarrow> (\<And>e. own e \<Longrightarrow> L e) \<Longrightarrow> changes f R L s s'"
  using nat_not_list [of f] by (simp add: changes_def touches_def)

lemma changes_trans: "changes f R L s s1 \<Longrightarrow> changes f R L s1 s2 \<Longrightarrow> changes f R L s s2"
  by (simp add: changes_def)

lemma ensuresD:
  assumes "ensures op p ignored sel reqs" "good s" "op s = (Inr u, s')"
  shows "touches p sel s s'" "has_exactly ignored sel reqs (table s' p)" "good s'"
  using assms by (auto simp: ensures_def touches_def)

lemma stale_chains_cong:
  assumes "touches p own s s'" "\<And>e. on ''chain'' (lb_service_chain sha (svc_uid svc)) e \<Longrightarrow> \<not> own e"
  shows "stale_chains sha svc (table s' p) = stale_chains sha svc (table s p)"
proof -
  let ?sel = "on ''chain'' (lb_service_chain sha (svc_uid svc))"
  have "\<forall>e. own e \<longrightarrow> \<not> ?sel e" using assms(2) by blast
  then have "mset (filter ?sel (table s' p)) = mset (filter ?sel (table s p))"
    using assms(1) unfolding touches_def by blast
  then have "set (filter ?sel (table s' p)) = set (filter ?sel (table s p))" by (rule mset_eq_setD)
  then show ?thesis by (simp only: stale_chains_def)
qed

lemma lb_ensured:
  assumes f: "f = IPv4 \<or> f = IPv6" and s: "good s" and ord: "\<And>l. mset (bk_order B l) = mset l"
    and B: "bk_api B = A" and lb: "has_lb_ip svc f"
    and loop: "lb_service_chain (bk_sha B) (svc_uid svc) \<notin>
      stale_chains (bk_sha B) svc (table s (table_path f ''nat''))"
    and run: "run_tasks (lb_tasks B svc f) s = (Inr u, s')"
  shows "changes f (service_rule_entry (bk_sha B) svc f (table s (table_path f ''nat'')))
      (service_list_entry (bk_sha B) svc f) s s' \<and>
    lb_state (bk_sha B) svc f (table s' (table_path f ''nat'')) (table s' (table_path f ''address-list''))"
proof -
  let ?p = "table_path f ''nat''" and ?sha = "bk_sha B" and ?has = "has_exactly ignored_firewall"
  let ?R = "service_rule_entry ?sha svc f (table s ?p)" and ?L = "service_list_entry ?sha svc f"
  let ?c = "lb_service_chain ?sha (svc_uid svc)"
  obtain s1 s2 s3 where
    o1: "ensure_lb_dnat_rules A ?sha (bk_order B) f svc s = (Inr (), s1)" and
    o2: "ensure_lb_port_rules A ?sha (bk_order B) f svc s1 = (Inr (), s2)" and
    o3: "ensure_lb_service_rule A ?sha f svc s2 = (Inr (), s3)" and
    o4: "ensure_lb_ips_list A f svc s3 = (Inr (), s')"
    using run lb B by (auto simp: lb_tasks_def Let_def run_tasks_Cons simp del: run_tasks.simps(2))
  note d = dnat_step [OF f s ord o1]
  then have s1: "good s1" by (simp add: touches_def)
  have st: "stale_chains ?sha svc (table s1 ?p) = stale_chains ?sha svc (table s ?p)"
    by (rule stale_chains_cong [OF conjunct1 [OF d]]) (auto simp: on_def dnat_chains_def)
  note q = port_step [OF f s1 ord loop [folded st] o2, unfolded st]
  then have s2: "good s2" by (simp add: touches_def)
  note j = ensuresD [OF service_steps(1) [OF f] s2 o3] and l = ensuresD [OF service_steps(2) [OF f] _ o4]
  note l = l [OF j(3)]
  have dn: "c \<noteq> ?c \<and> c \<notin> stale_chains ?sha svc (table s ?p) \<and> c \<noteq> lb_connection_chain"
    if "c \<in> dnat_chains ?sha f svc" for c
    using that dnat_chains_served [of ?sha f svc] unfolding port_rules_shape(4)
    by (auto simp: stale_chains_def dnat_chains_def)
  have h: "?has (on ''chain'' c) (chain_rules ?sha f (mask_of f) svc c) (table s' ?p)"
    if c: "c \<in> dnat_chains ?sha f svc" for c
    by (rule touches_keeps [OF l(1) touches_keeps [OF j(1) touches_keeps [OF conjunct1 [OF q]]]])
      (use c d dn [OF c] nat_not_list [of f] in \<open>auto simp: on_def service_jump_def\<close>)
  have "?has (on ''chain'' ?c) (map snd (fst (port_rules ?sha svc))) (table s' ?p)"
    by (rule touches_keeps [OF l(1) touches_keeps [OF j(1) conjunct2 [OF q]]])
      (use nat_not_list [of f] in \<open>auto simp: on_def service_jump_def\<close>)
  moreover have "?has (service_jump ?sha svc) (service_rules ?sha f (mask_of f) svc) (table s' ?p)"
    by (rule touches_keeps [OF l(1) j(2)]) (use nat_not_list [of f] in auto)
  ultimately have "lb_state ?sha svc f (table s' ?p) (table s' (table_path f ''address-list''))"
    using h l(2) lb by (simp add: lb_state_def)
  moreover have "changes f ?R ?L s s'"
    by (rule changes_trans [OF changes_nat [OF conjunct1 [OF d]] changes_trans [OF changes_nat [OF conjunct1 [OF q]]
          changes_trans [OF changes_nat [OF j(1)] changes_list [OF l(1)]]]])
      (use lb in \<open>auto simp: service_rule_entry_def service_list_entry_def\<close>)
  ultimately show ?thesis by blast
qed

lemma lb_removed:
  assumes f: "f = IPv4 \<or> f = IPv6" and s: "good s" and B: "bk_api B = A" and lb: "\<not> has_lb_ip svc f"
    and run: "run_tasks (lb_tasks B svc f) s = (Inr u, s')"
  shows "changes f (service_rule_entry (bk_sha B) svc f rules) (service_list_entry (bk_sha B) svc f) s s' \<and>
    lb_state (bk_sha B) svc f (table s' (table_path f ''nat'')) (table s' (table_path f ''address-list''))"
proof -
  let ?R = "service_rule_entry (bk_sha B) svc f rules" and ?L = "service_list_entry (bk_sha B) svc f"
  obtain s1 where o1: "cleanup_lb_ips_list A f (svc_uid svc) s = (Inr (), s1)"
    and o2: "delete_lb_service_rules A f (svc_uid svc) s1 = (Inr (), s')"
    using run lb B by (auto simp: lb_tasks_def Let_def run_tasks_Cons simp del: run_tasks.simps(2))
  note l = ensuresD [OF removing_steps(1) [OF f] s o1]
  note j = ensuresD [OF removing_steps(2) [OF f] l(3) o2]
  have "has_exactly ignored_list (\<lambda>e. on ''list'' lb_ips_list e \<and> owned (svc_uid svc) e) []
      (table s' (table_path f ''address-list''))"
    by (rule touches_keeps [OF j(1) l(2)]) (use nat_not_list [of f] in auto)
  then have "lb_state (bk_sha B) svc f (table s' (table_path f ''nat'')) (table s' (table_path f ''address-list''))"
    using lb j(2) by (auto simp: lb_state_def elim: has_exactly_weaken)
  moreover have "changes f ?R ?L s s'"
    by (rule changes_trans [OF changes_list [OF l(1)] changes_nat [OF j(1)]])
      (use lb in \<open>auto simp: service_rule_entry_def service_list_entry_def\<close>)
  ultimately show ?thesis by blast
qed

end


text \<open>The hypothesis of the operation on one family: no rule in the chain of the service jumps back to it.\<close>

definition no_loop :: "(string \<Rightarrow> byte list) \<Rightarrow> service \<Rightarrow> ip_family \<Rightarrow> entry list \<Rightarrow> bool" where
  "no_loop sha svc f rules \<longleftrightarrow>
     (has_lb_ip svc f \<longrightarrow> lb_service_chain sha (svc_uid svc) \<notin> stale_chains sha svc rules)"

context atomic_store begin

lemma lb_state_keeps:
  assumes "touches (table_path f ''nat'') (snat_entry sha svc) s s' \<or>
      touches (table_path f ''address-list'') (on ''list'' (snat_ips_list sha (svc_uid svc))) s s'"
    and "lb_state sha svc f (table s (table_path f ''nat'')) (table s (table_path f ''address-list''))"
  shows "lb_state sha svc f (table s' (table_path f ''nat'')) (table s' (table_path f ''address-list''))"
proof -
  let ?r = "table_path f ''nat''" and ?l = "table_path f ''address-list''"
  have N: "has_exactly ignored sel reqs (table s' ?r)"
    if "has_exactly ignored sel reqs (table s ?r)" "\<And>e. sel e \<Longrightarrow> \<not> on ''chain'' snat_chain e" for ignored sel reqs
    using assms(1) touches_keeps [OF _ that(1)] that(2) nat_not_list [of f] unfolding snat_entry_def by blast
  have L: "has_exactly ignored (\<lambda>e. on ''list'' lb_ips_list e \<and> P e) reqs (table s' ?l)"
    if "has_exactly ignored (\<lambda>e. on ''list'' lb_ips_list e \<and> P e) reqs (table s ?l)" for ignored P reqs
    using assms(1)
  proof (elim disjE)
    assume "touches ?l (on ''list'' (snat_ips_list sha (svc_uid svc))) s s'"
    then show ?thesis by (rule touches_keeps [OF _ that]) (auto simp: on_def)
  next
    assume "touches ?r (snat_entry sha svc) s s'"
    then show ?thesis by (rule touches_keeps [OF _ that]) (use nat_not_list [of f] in auto)
  qed
  have u: "c \<noteq> snat_chain \<Longrightarrow> on ''chain'' c e \<Longrightarrow> \<not> on ''chain'' snat_chain e" for c e by (simp add: on_unique)
  show ?thesis
  proof (cases "has_lb_ip svc f")
    case True
    note h = assms(2) [unfolded lb_state_def if_P [OF True]]
    show ?thesis
      unfolding lb_state_def if_P [OF True]
    proof (intro conjI ballI)
      fix c assume c: "c \<in> dnat_chains sha f svc"
      show "has_exactly ignored_firewall (on ''chain'' c) (chain_rules sha f (mask_of f) svc c) (table s' ?r)"
        using N [OF bspec [OF conjunct1 [OF h] c]] u [of c] c by (auto simp: dnat_chains_def)
    next
      show "has_exactly ignored_firewall (on ''chain'' (lb_service_chain sha (svc_uid svc)))
          (map snd (fst (port_rules sha svc))) (table s' ?r)"
        by (rule N) (use h in \<open>auto simp: on_unique\<close>)
      show "has_exactly ignored_firewall (service_jump sha svc) (service_rules sha f (mask_of f) svc) (table s' ?r)"
        by (rule N) (use h in \<open>auto simp: service_jump_def on_unique\<close>)
    qed (use h L in blast)
  next
    case False
    show ?thesis
      using assms(2) N [of _ "\<lambda>e. owned (svc_uid svc) e \<and> \<not> on ''chain'' snat_chain e"] L
      unfolding lb_state_def if_not_P [OF False] by blast
  qed
qed

lemma snat_ensured:
  assumes f: "f = IPv4 \<or> f = IPv6" and s: "good s" and B: "bk_api B = A"
    and lb: "lb_state (bk_sha B) svc f (table s (table_path f ''nat'')) (table s (table_path f ''address-list''))"
    and run: "run_tasks (snat_tasks B svc f) s = (Inr u, s')"
  shows "changes f (snat_entry (bk_sha B) svc) (on ''list'' (snat_ips_list (bk_sha B) (svc_uid svc))) s s' \<and>
    lb_state (bk_sha B) svc f (table s' (table_path f ''nat'')) (table s' (table_path f ''address-list'')) \<and>
    snat_state (bk_sha B) svc f (table s' (table_path f ''nat'')) (table s' (table_path f ''address-list''))"
proof (cases "has_snat_ip svc f")
  case True
  then have v: "is_valid (snat_ip f svc)" using f by (auto simp: has_snat_ip_def snat_ip_def)
  obtain s1 where o1: "ensure_snat_ips_list A (bk_sha B) f svc s = (Inr (), s1)"
    and o2: "ensure_snat_service_rule A (bk_sha B) f svc s1 = (Inr (), s')"
    using run True B by (auto simp: snat_tasks_def Let_def run_tasks_Cons simp del: run_tasks.simps(2))
  note l = ensuresD [OF service_steps(3) [OF f] s o1]
  note j = ensuresD [OF service_steps(4) [OF f v] l(3) o2]
  note k = touches_keeps [OF j(1) l(2)]
  show ?thesis
    using changes_trans [OF changes_list [OF l(1)] changes_nat [OF j(1)]] j(2) k nat_not_list [of f] True
      lb_state_keeps [OF disjI1 [OF j(1)] lb_state_keeps [OF disjI2 [OF l(1)] lb]]
    by (auto simp: snat_state_def)
next
  case False
  obtain s1 where o1: "delete_snat_service_rule A (bk_sha B) f (svc_uid svc) s = (Inr (), s1)"
    and o2: "delete_snat_ips_list A (bk_sha B) f (svc_uid svc) s1 = (Inr (), s')"
    using run False B by (auto simp: snat_tasks_def Let_def run_tasks_Cons simp del: run_tasks.simps(2))
  note j = ensuresD [OF removing_steps(3) [OF f] s o1]
  note l = ensuresD [OF removing_steps(4) [OF f] j(3) o2]
  note k = touches_keeps [OF l(1) j(2)]
  show ?thesis
    using changes_trans [OF changes_nat [OF j(1)] changes_list [OF l(1)]] l(2) k nat_not_list [of f] False
      lb_state_keeps [OF disjI2 [OF l(1)] lb_state_keeps [OF disjI1 [OF j(1)] lb]]
    by (auto simp: snat_state_def)
qed

lemma changes_weaken:
  "changes f R L s s' \<Longrightarrow> (\<And>e. R e \<Longrightarrow> R' e) \<Longrightarrow> (\<And>e. L e \<Longrightarrow> L' e) \<Longrightarrow> changes f R' L' s s'"
  by (simp add: changes_def)

lemma family_ensured:
  assumes f: "f = IPv4 \<or> f = IPv6" and s: "good s" and ord: "\<And>l. mset (bk_order B l) = mset l"
    and B: "bk_api B = A" and loop: "no_loop (bk_sha B) svc f (table s (table_path f ''nat''))"
    and run: "run_tasks (lb_tasks B svc f @ snat_tasks B svc f) s = (Inr u, s')"
  shows "changes f (service_rule_entry (bk_sha B) svc f (table s (table_path f ''nat'')))
      (service_list_entry (bk_sha B) svc f) s s' \<and>
    lb_state (bk_sha B) svc f (table s' (table_path f ''nat'')) (table s' (table_path f ''address-list'')) \<and>
    snat_state (bk_sha B) svc f (table s' (table_path f ''nat'')) (table s' (table_path f ''address-list''))"
proof -
  obtain s1 where o: "run_tasks (lb_tasks B svc f) s = (Inr (), s1)" "run_tasks (snat_tasks B svc f) s1 = (Inr u, s')"
    using run by (auto simp: run_tasks_append)
  have l: "changes f (service_rule_entry (bk_sha B) svc f (table s (table_path f ''nat'')))
      (service_list_entry (bk_sha B) svc f) s s1 \<and>
    lb_state (bk_sha B) svc f (table s1 (table_path f ''nat'')) (table s1 (table_path f ''address-list''))"
    using lb_ensured [OF f s ord B _ _ o(1)] lb_removed [OF f s B _ o(1)] loop by (auto simp: no_loop_def)
  then have "good s1" by (simp add: changes_def)
  note n = snat_ensured [OF f this B conjunct2 [OF l] o(2)]
  then show ?thesis
    using changes_trans [OF conjunct1 [OF l] changes_weaken [OF conjunct1 [OF n]]]
    by (auto simp: service_rule_entry_def service_list_entry_def)
qed

end

end
