(* ===== verification/Router_Props.thy ===== *)
theory Router_Props
  imports Router_Shapes Sync_Props
begin

text \<open>Properties of the operations of the backend on a router that keeps the laws of its REST
  interface, and on the mock router.\<close>

section \<open>Deleting\<close>

context rest_store begin

text \<open>Operations that remove the entries of one path for which a predicate holds.\<close>

definition removes :: "('s \<Rightarrow> (unit, 's) reply) \<Rightarrow> string \<Rightarrow> (entry \<Rightarrow> bool) \<Rightarrow> bool" where
  "removes op p P \<longleftrightarrow> (\<forall>s s' u. good s \<longrightarrow> op s = (Inr u, s') \<longrightarrow>
     good s' \<and> (\<forall>p'. p' \<noteq> p \<longrightarrow> table s' p' = table s p') \<and>
     mset (table s' p) = mset (filter (\<lambda>e. \<not> P e) (table s p)))"

lemma removes_sync:
  assumes "plain_path p" "distinct (map fst q)"
    and "\<And>s e. good s \<Longrightarrow> e \<in> set (table s p) \<Longrightarrow> selects q (keeps filt) e = P e"
  shows "removes (sync_rules A p [] q filt idf ignored) p P"
  unfolding removes_def
proof (intro allI impI)
  fix s s' u assume s: "good s" and r: "sync_rules A p [] q filt idf ignored s = (Inr u, s')"
  have o: "step_ok p [] q filt ignored s s'"
    using sync_rules_ok [OF s assms(1,2) _ _ r] by simp
  have "filter (\<lambda>e. \<not> selects q (keeps filt) e) (table s p) = filter (\<lambda>e. \<not> P e) (table s p)"
    using assms(3) [OF s] by (intro filter_cong) auto
  then show "good s' \<and> (\<forall>p'. p' \<noteq> p \<longrightarrow> table s' p' = table s p') \<and>
      mset (table s' p) = mset (filter (\<lambda>e. \<not> P e) (table s p))"
    using o step_removes [OF o] by (simp add: step_ok_def)
qed

lemma collect_removes:
  assumes "list_all (\<lambda>(op, p, P). removes op p P) ops" "good s"
    and "collect_tasks (map fst ops) s = ([], s')"
  shows "good s' \<and> (\<forall>p. mset (table s' p) =
    mset (filter (\<lambda>e. list_all (\<lambda>(op, p', P). p' = p \<longrightarrow> \<not> P e) ops) (table s p)) \<and>
    (list_all (\<lambda>(op, p', P). p' \<noteq> p) ops \<longrightarrow> table s' p = table s p))"
  using assms
proof (induction ops arbitrary: s)
  case (Cons x ops)
  obtain op p P where x: "x = (op, p, P)" by (cases x)
  obtain u s1 where o: "op s = (Inr u, s1)" "collect_tasks (map fst ops) s1 = ([], s')"
    using Cons.prems(3) x by (auto split: prod.splits sum.splits)
  have r: "good s1" "\<forall>p'. p' \<noteq> p \<longrightarrow> table s1 p' = table s p'"
      "mset (table s1 p) = mset (filter (\<lambda>e. \<not> P e) (table s p))"
    using Cons.prems(1,2) o(1) x by (auto simp: removes_def)
  have m: "mset (table s1 p') = mset (filter (\<lambda>e. p = p' \<longrightarrow> \<not> P e) (table s p'))" for p'
    using r(2,3) by (cases "p = p'") auto
  have "good s' \<and> (\<forall>p. mset (table s' p) =
      mset (filter (\<lambda>e. list_all (\<lambda>(op, p', P). p' = p \<longrightarrow> \<not> P e) ops) (table s1 p)) \<and>
      (list_all (\<lambda>(op, p', P). p' \<noteq> p) ops \<longrightarrow> table s' p = table s1 p))"
    using Cons.IH [OF _ r(1) o(2)] Cons.prems(1) by simp
  then show ?case using r(2) m x by (simp add: mset_filter filter_filter_mset conj_commute) metis
qed simp

lemma delete_ops:
  assumes "f = IPv4 \<or> f = IPv6"
  shows "removes (cleanup_lb_ips_list A f uid) (table_path f ''address-list'')
      (\<lambda>e. field_text (snd e) ''list'' = lb_ips_list \<and> owned uid e)"
    "removes (delete_lb_service_rules A f uid) (table_path f ''nat'') (owned uid)"
    "removes (delete_snat_service_rule A sha f uid) (table_path f ''nat'')
      (\<lambda>e. field_text (snd e) ''chain'' = snat_chain \<and>
        field_text (snd e) ''src-address-list'' = snat_ips_list sha uid)"
    "removes (delete_snat_ips_list A sha f uid) (table_path f ''address-list'')
      (\<lambda>e. field_text (snd e) ''list'' = snat_ips_list sha uid)"
  unfolding cleanup_lb_ips_list_def delete_lb_service_rules_def delete_snat_service_rule_def delete_snat_ips_list_def
  by (rule removes_sync; use table_paths [OF assms] managed_owned in
      \<open>auto simp: selects_def keeps_def query_matches_def\<close>)+

end

text \<open>C10: When \<open>DeleteService\<close> succeeds, the NAT table of each family has lost exactly the rules whose
  comment is the controller's and contains the uid and the source NAT rules of the service, the
  address lists exactly the service's entries of the load balancer list and its source list; every
  other entry of the router is as before.\<close>

theorem delete_service_exact:
  assumes "rest_store (bk_api B) table good" "good s" "delete_service B name uid s = (Inr u, s')"
  shows "(\<forall>f \<in> {IPv4, IPv6}.
      mset (table s' (table_path f ''nat'')) = mset (filter (\<lambda>e. \<not> owned uid e \<and>
        \<not> (field_text (snd e) ''chain'' = snat_chain \<and>
           field_text (snd e) ''src-address-list'' = snat_ips_list (bk_sha B) uid))
        (table s (table_path f ''nat''))) \<and>
      mset (table s' (table_path f ''address-list'')) = mset (filter (\<lambda>e.
        \<not> (field_text (snd e) ''list'' = lb_ips_list \<and> owned uid e) \<and>
        field_text (snd e) ''list'' \<noteq> snat_ips_list (bk_sha B) uid)
        (table s (table_path f ''address-list'')))) \<and>
    (\<forall>p. p \<notin> {table_path IPv4 ''nat'', table_path IPv4 ''address-list'', table_path IPv6 ''nat'',
        table_path IPv6 ''address-list''} \<longrightarrow> table s' p = table s p)"
proof -
  let ?A = "bk_api B" and ?sha = "bk_sha B"
  define ops where "ops f =
    [(cleanup_lb_ips_list ?A f uid, table_path f ''address-list'',
        \<lambda>e. field_text (snd e) ''list'' = lb_ips_list \<and> owned uid e),
     (delete_lb_service_rules ?A f uid, table_path f ''nat'', owned uid),
     (delete_snat_service_rule ?A ?sha f uid, table_path f ''nat'',
        \<lambda>e. field_text (snd e) ''chain'' = snat_chain \<and>
          field_text (snd e) ''src-address-list'' = snat_ips_list ?sha uid),
     (delete_snat_ips_list ?A ?sha f uid, table_path f ''address-list'',
        \<lambda>e. field_text (snd e) ''list'' = snat_ips_list ?sha uid)]" for f
  let ?ops = "ops IPv4 @ ops IPv6"
  note d4 = rest_store.delete_ops [OF assms(1), of IPv4] and d6 = rest_store.delete_ops [OF assms(1), of IPv6]
  have r: "list_all (\<lambda>(op, p, P). rest_store.removes table good op p P) ?ops"
    using d4 d6 by (simp add: ops_def)
  have c: "collect_tasks (map fst ?ops) s = ([], s')"
    using assms(3) by (auto simp: delete_service_def join_errors_def ops_def Let_def split: prod.splits if_splits)
  note res = conjunct2 [OF rest_store.collect_removes [OF assms(1) r assms(2) c], rule_format]
  note dist = paths_distinct
  show ?thesis
  proof (intro conjI ballI allI impI)
    fix f assume f: "f \<in> {IPv4, IPv6}"
    show "mset (table s' (table_path f ''nat'')) = mset (filter (\<lambda>e. \<not> owned uid e \<and>
        \<not> (field_text (snd e) ''chain'' = snat_chain \<and>
           field_text (snd e) ''src-address-list'' = snat_ips_list ?sha uid)) (table s (table_path f ''nat'')))"
      using res [of "table_path f ''nat''"] dist f by (auto simp: ops_def)
    show "mset (table s' (table_path f ''address-list'')) = mset (filter (\<lambda>e.
        \<not> (field_text (snd e) ''list'' = lb_ips_list \<and> owned uid e) \<and>
        field_text (snd e) ''list'' \<noteq> snat_ips_list ?sha uid) (table s (table_path f ''address-list'')))"
      using res [of "table_path f ''address-list''"] dist f by (auto simp: ops_def)
  next
    fix p assume "p \<notin> {table_path IPv4 ''nat'', table_path IPv4 ''address-list'', table_path IPv6 ''nat'',
        table_path IPv6 ''address-list''}"
    then show "table s' p = table s p" using res [of p] by (auto simp: ops_def)
  qed
qed


section \<open>A sample backend\<close>

context reliable_store begin

lemma is_atomic: "atomic_store A table good"
  by (rule atomic.atomic_store_axioms)

lemma delete_service_succeeds:
  assumes "bk_api B = A" "good s"
  shows "\<exists>s'. delete_service B name uid s = (Inr (), s') \<and> good s'"
proof -
  have "succeeds (cleanup_lb_ips_list A f uid)" "succeeds (delete_lb_service_rules A f uid)"
    "succeeds (delete_snat_service_rule A sha f uid)" "succeeds (delete_snat_ips_list A sha f uid)"
    if "f = IPv4 \<or> f = IPv6" for f sha
    unfolding cleanup_lb_ips_list_def delete_lb_service_rules_def delete_snat_service_rule_def
      delete_snat_ips_list_def
    by (rule sync_rules_succeeds; use table_paths [OF that] in simp)+
  then show ?thesis
    using collect_succeeds [OF _ assms(2), of "concat (map (\<lambda>f.
          [cleanup_lb_ips_list A f uid, delete_lb_service_rules A f uid,
           delete_snat_service_rule A (bk_sha B) f uid, delete_snat_ips_list A (bk_sha B) f uid]) [IPv4, IPv6])"]
    by (auto simp: delete_service_def join_errors_def assms(1))
qed

end

definition sample_env :: "mock backend_env" where
  "sample_env = \<lparr>bk_api = mock_api plain_gjson local_client, bk_sha = (\<lambda>s. [1, 2, 3, 4, 5, 6, 7, 8]),
     bk_order = id, bk_serialize = (\<lambda>ls. Inr (eth_src (hd ls))), bk_timeout = 0, bk_now = 0, bk_later = 0\<rparr>"

definition commented_rule :: "string \<Rightarrow> string \<Rightarrow> jobject" where
  "commented_rule chain cmt = texts [(''chain'', chain), (''comment'', cmt)]"

definition shared_router :: mock where
  "shared_router = seed (table_path IPv4 ''nat'') [commented_rule ''dstnat'' ''port forwarding'',
     commented_rule ''mikrolb-dnat'' ''mikrolb: LB for service a/x (u1)'',
     commented_rule ''mikrolb-dnat'' ''mikrolb: LB for service a/y (u2)''] new_mock"

lemma shared_router_good: "mock_good shared_router"
proof -
  have "\<forall>r \<in> set [commented_rule ''dstnat'' ''port forwarding'',
     commented_rule ''mikrolb-dnat'' ''mikrolb: LB for service a/x (u1)'',
     commented_rule ''mikrolb-dnat'' ''mikrolb: LB for service a/y (u2)'']. request_ok r" by code_simp
  then show ?thesis unfolding shared_router_def by (intro mock_good_seed mock_good_new)
qed

lemma sample_env_api [simp]: "bk_api sample_env = mock_api plain_gjson local_client"
  by (simp add: sample_env_def)

theorem delete_service_exact_witness:
  "\<exists>m'. delete_service sample_env ''a/x'' ''u1'' shared_router = (Inr (), m') \<and>
    mset (mock_table m' (table_path IPv4 ''nat'')) = mset
     [(''*1'', commented_rule ''dstnat'' ''port forwarding'' @ [(id_key, JStr ''*1'')]),
      (''*3'', commented_rule ''mikrolb-dnat'' ''mikrolb: LB for service a/y (u2)'' @ [(id_key, JStr ''*3'')])]"
proof -
  obtain m' where r: "delete_service sample_env ''a/x'' ''u1'' shared_router = (Inr (), m')"
    using mock.delete_service_succeeds [OF sample_env_api shared_router_good] by blast
  have e: "filter (\<lambda>e. \<not> owned ''u1'' e \<and> \<not> (field_text (snd e) ''chain'' = snat_chain \<and>
      field_text (snd e) ''src-address-list'' = snat_ips_list (bk_sha sample_env) ''u1''))
      (mock_table shared_router (table_path IPv4 ''nat'')) =
    [(''*1'', commented_rule ''dstnat'' ''port forwarding'' @ [(id_key, JStr ''*1'')]),
      (''*3'', commented_rule ''mikrolb-dnat'' ''mikrolb: LB for service a/y (u2)'' @ [(id_key, JStr ''*3'')])]"
    by code_simp
  have "rest_store (bk_api sample_env) mock_table mock_good" using mock.rest_store_axioms by simp
  from conjunct1 [OF bspec [OF conjunct1 [OF delete_service_exact [OF this shared_router_good r]] insertI1]]
  show ?thesis unfolding e using r by blast
qed

end
