(* ===== verification/Router_Service.thy ===== *)
theory Router_Service
  imports Router_Ensure Router_Props
begin

text \<open>
  \<open>EnsureService\<close> as a whole: what it leaves on a router, that it ends successfully on one that
  answers, and where its result falls short of what the service needs.
\<close>

section \<open>What it leaves\<close>

context atomic_store begin

lemma ensured_families:
  assumes s: "good s" and ord: "\<And>l. mset (bk_order B l) = mset l" and B: "bk_api B = A"
    and loop: "\<forall>f \<in> {IPv4, IPv6}. no_loop (bk_sha B) svc f (table s (table_path f ''nat''))"
    and run: "ensure_service B svc s = (Inr u, s')" and f: "f = IPv4 \<or> f = IPv6"
  shows "lb_state (bk_sha B) svc f (table s' (table_path f ''nat'')) (table s' (table_path f ''address-list''))"
    "snat_state (bk_sha B) svc f (table s' (table_path f ''nat'')) (table s' (table_path f ''address-list''))"
    "(\<And>e. sel e \<Longrightarrow> \<not> service_rule_entry (bk_sha B) svc f (table s (table_path f ''nat'')) e) \<Longrightarrow>
      mset (filter sel (table s' (table_path f ''nat''))) = mset (filter sel (table s (table_path f ''nat'')))"
    "(\<And>e. sel e \<Longrightarrow> \<not> service_list_entry (bk_sha B) svc f e) \<Longrightarrow>
      mset (filter sel (table s' (table_path f ''address-list''))) =
      mset (filter sel (table s (table_path f ''address-list'')))"
    "p \<notin> {table_path IPv4 ''nat'', table_path IPv4 ''address-list'', table_path IPv6 ''nat'',
        table_path IPv6 ''address-list''} \<Longrightarrow> table s' p = table s p"
proof -
  obtain s1 where o: "run_tasks (lb_tasks B svc IPv4 @ snat_tasks B svc IPv4) s = (Inr (), s1)"
      "run_tasks (lb_tasks B svc IPv6 @ snat_tasks B svc IPv6) s1 = (Inr u, s')"
    using run by (auto simp: ensure_service_def run_tasks_append)
  have l4: "no_loop (bk_sha B) svc IPv4 (table s (table_path IPv4 ''nat''))"
    and l6: "no_loop (bk_sha B) svc IPv6 (table s (table_path IPv6 ''nat''))" using loop by simp_all
  note 4 = family_ensured [OF disjI1 [OF refl] s ord B l4 o(1)]
  have g1: "good s1" using 4 by (simp add: changes_def)
  have s1: "table s1 (table_path IPv6 t) = table s (table_path IPv6 t)" if "t = ''nat'' \<or> t = ''address-list''" for t
    using 4 paths_distinct that by (auto simp: changes_def)
  note 6 = family_ensured [OF disjI2 [OF refl] g1 ord B _ o(2), unfolded s1 [OF disjI1 [OF refl]], OF l6]
  have t4: "table s' (table_path IPv4 t) = table s1 (table_path IPv4 t)" if "t = ''nat'' \<or> t = ''address-list''" for t
    using 6 paths_distinct that by (auto simp: changes_def)
  show "lb_state (bk_sha B) svc f (table s' (table_path f ''nat'')) (table s' (table_path f ''address-list''))"
    "snat_state (bk_sha B) svc f (table s' (table_path f ''nat'')) (table s' (table_path f ''address-list''))"
    using f 4 6 t4 by auto
  show "table s' p = table s p" if "p \<notin> {table_path IPv4 ''nat'', table_path IPv4 ''address-list'',
      table_path IPv6 ''nat'', table_path IPv6 ''address-list''}"
    using 4 6 that by (simp add: changes_def)
  show "mset (filter sel (table s' (table_path f ''nat''))) = mset (filter sel (table s (table_path f ''nat'')))"
    if "\<And>e. sel e \<Longrightarrow> \<not> service_rule_entry (bk_sha B) svc f (table s (table_path f ''nat'')) e"
    using f
  proof
    assume "f = IPv4"
    then show ?thesis using conjunct1 [OF 4] t4 that unfolding changes_def by (metis (no_types, lifting))
  next
    assume "f = IPv6"
    then show ?thesis using conjunct1 [OF 6] s1 that unfolding changes_def by (metis (no_types, lifting))
  qed
  show "mset (filter sel (table s' (table_path f ''address-list''))) =
      mset (filter sel (table s (table_path f ''address-list'')))"
    if "\<And>e. sel e \<Longrightarrow> \<not> service_list_entry (bk_sha B) svc f e"
    using f
  proof
    assume "f = IPv4"
    then show ?thesis using conjunct1 [OF 4] t4 that unfolding changes_def by (metis (no_types, lifting))
  next
    assume "f = IPv6"
    then show ?thesis using conjunct1 [OF 6] s1 that unfolding changes_def by (metis (no_types, lifting))
  qed
qed

end

text \<open>A service with addresses that is switched on. The switches are set by annotations; the backend
  does not read them (\<open>switches_ignored\<close> below).\<close>

definition switched_on :: "service \<Rightarrow> bool" where
  "switched_on svc \<longleftrightarrow>
     (has_lb_ip svc IPv4 \<or> has_lb_ip svc IPv6 \<longrightarrow> lb_enabled svc) \<and>
     (has_snat_ip svc IPv4 \<or> has_snat_ip svc IPv6 \<longrightarrow> snat_enabled svc)"

text \<open>C8: When \<open>EnsureService\<close> succeeds for a service that is switched on, both families of the router are
  as it wants them. With load balancer addresses of the family: the chain of each port that has
  endpoints of the family has exactly one destination rule per endpoint address, the chain of the
  service one jump per port, the connection chain one jump per address, and the address list
  exactly the addresses; without: no rule outside the source NAT chain and no such entry bears its
  UID. The source NAT rule and its address list are there exactly when there is a source NAT
  address. All rules and entries but those of the service, and those in chains that only its old
  jumps led to, are as before. The chain of a port without endpoints of the family is not
  among those made exact. No jump in the service's own chain may lead back to that chain. The calls
  of the router may fail as long as a failed call has had its whole effect or none; the order
  of map iteration is arbitrary.\<close>

theorem ensure_service_exact:
  assumes "atomic_store (bk_api B) table good" "good s" "\<And>l. mset (bk_order B l) = mset l"
    and "\<forall>f \<in> {IPv4, IPv6}. no_loop (bk_sha B) svc f (table s (table_path f ''nat''))"
    and "switched_on svc" "ensure_service B svc s = (Inr u, s')"
  shows "(\<forall>f \<in> {IPv4, IPv6}.
      lb_state (bk_sha B) svc f (table s' (table_path f ''nat'')) (table s' (table_path f ''address-list'')) \<and>
      snat_state (bk_sha B) svc f (table s' (table_path f ''nat'')) (table s' (table_path f ''address-list'')) \<and>
      mset (filter (\<lambda>e. \<not> service_rule_entry (bk_sha B) svc f (table s (table_path f ''nat'')) e)
          (table s' (table_path f ''nat''))) =
        mset (filter (\<lambda>e. \<not> service_rule_entry (bk_sha B) svc f (table s (table_path f ''nat'')) e)
          (table s (table_path f ''nat''))) \<and>
      mset (filter (\<lambda>e. \<not> service_list_entry (bk_sha B) svc f e) (table s' (table_path f ''address-list''))) =
        mset (filter (\<lambda>e. \<not> service_list_entry (bk_sha B) svc f e) (table s (table_path f ''address-list'')))) \<and>
    (\<forall>p. p \<notin> {table_path IPv4 ''nat'', table_path IPv4 ''address-list'', table_path IPv6 ''nat'',
        table_path IPv6 ''address-list''} \<longrightarrow> table s' p = table s p)"
proof (intro conjI ballI allI impI)
  note ens = atomic_store.ensured_families [OF assms(1-3) refl assms(4,6)]
  show "table s' p = table s p" if "p \<notin> {table_path IPv4 ''nat'', table_path IPv4 ''address-list'',
      table_path IPv6 ''nat'', table_path IPv6 ''address-list''}" for p
    by (rule ens(5) [OF disjI1 [OF refl] that])
qed (rule atomic_store.ensured_families [OF assms(1-3) refl assms(4,6)]; simp)+

text \<open>C37: A port that still has endpoints, but none of a family any more, keeps its destination rules of
  that family: \<open>EnsureService\<close> leaves them on the router although the endpoints are gone.\<close>

theorem dnat_rules_of_gone_family_stay:
  assumes "atomic_store (bk_api B) table good" "good s" "\<And>l. mset (bk_order B l) = mset l"
    and "\<forall>f \<in> {IPv4, IPv6}. no_loop (bk_sha B) svc f (table s (table_path f ''nat''))"
    and "ensure_service B svc s = (Inr u, s')"
    and "f = IPv4 \<or> f = IPv6" "has_lb_ip svc f" "p \<in> set (served_ports svc)"
    and "\<forall>q ip. (q, ip) \<in> set (dnat_pairs f svc) \<longrightarrow>
      lb_port_chain (bk_sha B) (svc_uid svc) q \<noteq> lb_port_chain (bk_sha B) (svc_uid svc) p"
  shows "mset (filter (on ''chain'' (lb_port_chain (bk_sha B) (svc_uid svc) p)) (table s' (table_path f ''nat''))) =
    mset (filter (on ''chain'' (lb_port_chain (bk_sha B) (svc_uid svc) p)) (table s (table_path f ''nat'')))"
proof (rule atomic_store.ensured_families(3) [OF assms(1-3) refl assms(4-6)])
  fix e assume "on ''chain'' (lb_port_chain (bk_sha B) (svc_uid svc) p) e"
  then show "\<not> service_rule_entry (bk_sha B) svc f (table s (table_path f ''nat'')) e"
    using assms(7-9) by (auto simp: service_rule_entry_def on_unique snat_entry_def service_jump_def
        dnat_chains_def stale_chains_def)
qed

section \<open>That it succeeds\<close>

context reliable_store begin

lemma succeeds_collect: "\<forall>op \<in> set ops. succeeds op \<Longrightarrow> succeeds (\<lambda>s. case collect_tasks ops s of (errs, s') \<Rightarrow> (join_errors errs, s'))"
  using collect_succeeds unfolding succeeds_def by (fastforce simp: join_errors_def)

lemma dnat_succeeds:
  assumes f: "f = IPv4 \<or> f = IPv6" and ord: "\<And>l. mset (order l) = mset l"
  shows "succeeds (ensure_lb_dnat_rules A sha order f svc)"
  unfolding ensure_lb_dnat_rules_def with_mask_of [OF f] Let_def
proof (rule succeeds_collect, intro ballI)
  let ?m = "dnat_requests sha f (mask_of f) svc"
  note d = dnat_requests_shape [where sha = sha and f = f and msk = "mask_of f" and svc = svc]
  fix op assume "op \<in> set (map (\<lambda>c. sync_rules A (table_path f ''nat'') (the (map_of ?m c)) [(''chain'', c)]
          None (Some (dnat_id A f)) ignored_firewall) (order (map fst ?m)))"
  then obtain c where c: "op = sync_rules A (table_path f ''nat'') (the (map_of ?m c)) [(''chain'', c)]
          None (Some (dnat_id A f)) ignored_firewall" "c \<in> dnat_chains sha f svc"
    using d(2) mset_eq_setD [OF ord [of "map fst ?m"]] by auto
  show "succeeds op"
    unfolding c(1) d(3) [OF c(2)]
    by (rule sync_rules_succeeds) (auto simp: table_paths [OF f] chain_rules_ok ignored_facts)
qed

lemma port_succeeds:
  assumes f: "f = IPv4 \<or> f = IPv6" and ord: "\<And>l. mset (order l) = mset l"
  shows "succeeds (ensure_lb_port_rules A sha order f svc)"
  unfolding succeeds_def
proof (intro allI impI)
  let ?p = "table_path f ''nat''" and ?c = "lb_service_chain sha (svc_uid svc)"
  let ?rules = "fst (port_rules sha svc)" and ?targets = "snd (port_rules sha svc)"
  note sh = port_rules_shape [where sha = sha and svc = svc]
  fix s assume s: "good s"
  have "mset (in_order order ?rules) = mset (map snd ?rules)" using ord sh(1) by (rule mset_in_order)
  then have reqs: "\<forall>r \<in> set (in_order order ?rules). request_ok r"
    using mset_eq_setD sh(3) port_rule_ok(1) by fastforce
  have q: "distinct (map fst [(''chain'', ?c)])" by simp
  have i: "in_order order ?rules = [] \<or> id_key \<in> set ignored_firewall" by (simp add: ignored_facts)
  obtain js stale s1 where o: "sync A ?p (in_order order ?rules) [(''chain'', ?c)] (stale_filter A ?targets)
      (Some (port_id A)) ignored_firewall [] s = (Inr js, stale, s1)"
    using sync_succeeds [OF s table_paths(1) [OF f] q reqs i atomic.stale_decides] by blast
  have "good s1" using sync_contract [OF s table_paths(1) [OF f] q reqs i atomic.stale_decides o] by blast
  then have "good (clean_chains A f (order stale) s1)"
    using atomic.clean_chains_touches [OF f] by (simp add: touches_def)
  then show "\<exists>s'. ensure_lb_port_rules A sha order f svc s = (Inr (), s') \<and> good s'"
    using o by (auto simp: ensure_lb_port_rules_def split: prod.splits)
qed

lemma sync_steps_succeed:
  assumes f: "f = IPv4 \<or> f = IPv6"
  shows "succeeds (ensure_lb_service_rule A sha f svc)" "succeeds (ensure_lb_ips_list A f svc)"
    "succeeds (ensure_snat_ips_list A sha f svc)" "succeeds (ensure_snat_service_rule A sha f svc)"
    "succeeds (cleanup_lb_ips_list A f uid)" "succeeds (delete_lb_service_rules A f uid)"
    "succeeds (delete_snat_service_rule A sha f uid)" "succeeds (delete_snat_ips_list A sha f uid)"
  unfolding ensure_lb_service_rule_def ensure_lb_ips_list_def ensure_snat_ips_list_def ensure_snat_service_rule_def
    cleanup_lb_ips_list_def delete_lb_service_rules_def delete_snat_service_rule_def delete_snat_ips_list_def
    with_mask_of [OF f]
  by (rule sync_rules_succeeds; auto simp: table_paths [OF f] service_rule_ok lb_list_entries_def
      snat_list_entries_def list_entry_ok snat_rule_ok ignored_facts)+

lemma ensure_service_succeeds:
  assumes B: "bk_api B = A" and ord: "\<And>l. mset (bk_order B l) = mset l" and s: "good s"
  shows "\<exists>s'. ensure_service B svc s = (Inr (), s') \<and> good s'"
proof -
  have "\<forall>t \<in> set (lb_tasks B svc f @ snat_tasks B svc f). succeeds (snd t)" if f: "f = IPv4 \<or> f = IPv6" for f
    using dnat_succeeds [OF f ord] port_succeeds [OF f ord] sync_steps_succeed [OF f] B
    by (auto simp: lb_tasks_def snat_tasks_def Let_def)
  then show ?thesis
    unfolding ensure_service_def by (intro run_succeeds [OF _ s]) auto
qed

end

text \<open>C11: On a router that answers every call, \<open>EnsureService\<close> and \<open>DeleteService\<close> end without an error,
  for every service and from every state of the router.\<close>

theorem service_operations_succeed:
  assumes "reliable_store (bk_api B) table good" "\<And>l. mset (bk_order B l) = mset l" "good s"
  shows "(\<exists>s'. ensure_service B svc s = (Inr (), s') \<and> good s') \<and>
    (\<exists>s'. delete_service B name uid s = (Inr (), s') \<and> good s')"
  using reliable_store.ensure_service_succeeds [OF assms(1) refl assms(2,3)]
    reliable_store.delete_service_succeeds [OF assms(1) refl assms(3)] by blast

lemma sample_env_order: "mset (bk_order sample_env l) = mset l"
  by (simp add: sample_env_def)

theorem service_operations_succeed_witness:
  "\<exists>m'. delete_service sample_env ''a/x'' ''u1'' shared_router = (Inr (), m') \<and> mock_good m'"
proof -
  have "reliable_store (bk_api sample_env) mock_table mock_good" using mock.reliable_store_axioms by simp
  from service_operations_succeed [OF this sample_env_order shared_router_good] show ?thesis by blast
qed

definition sample_service :: service where
  "sample_service = \<lparr>svc_uid = ''u1'', svc_name = ''a/x'', lb_enabled = True, lb_ips = [Addr4 0xC6336401],
     snat_enabled = True, snat_ipv4 = Addr4 0xC6336401, snat_ipv6 = AddrNone,
     svc_endpoints = [\<lparr>ep_ips = [Addr4 0x0A000002, Addr4 0x0A000003],
       ep_ports = [\<lparr>ep_port = 80, ep_target = 8080, ep_protocol = ''TCP''\<rparr>]\<rparr>]\<rparr>"

theorem ensure_service_exact_witness:
  "\<exists>m'. ensure_service sample_env sample_service shared_router = (Inr (), m') \<and>
    lb_state (bk_sha sample_env) sample_service IPv4 (mock_table m' (table_path IPv4 ''nat''))
      (mock_table m' (table_path IPv4 ''address-list'')) \<and>
    snat_state (bk_sha sample_env) sample_service IPv4 (mock_table m' (table_path IPv4 ''nat''))
      (mock_table m' (table_path IPv4 ''address-list'')) \<and>
    {e \<in> set (mock_table shared_router (table_path IPv4 ''nat'')).
       on ''chain'' ''dstnat'' e} \<subseteq> set (mock_table m' (table_path IPv4 ''nat''))"
proof -
  have a: "atomic_store (bk_api sample_env) mock_table mock_good" using mock.is_atomic by simp
  obtain m' where r: "ensure_service sample_env sample_service shared_router = (Inr (), m')"
    using mock.ensure_service_succeeds [OF sample_env_api sample_env_order shared_router_good] by blast
  have n: "\<forall>f \<in> {IPv4, IPv6}. no_loop (bk_sha sample_env) sample_service f
      (mock_table shared_router (table_path f ''nat''))"
    by code_simp
  let ?P = "service_rule_entry (bk_sha sample_env) sample_service IPv4
      (mock_table shared_router (table_path IPv4 ''nat''))"
  have k: "\<forall>e \<in> set (mock_table shared_router (table_path IPv4 ''nat'')). on ''chain'' ''dstnat'' e \<longrightarrow> \<not> ?P e"
    by code_simp
  have on: "switched_on sample_service" by (simp add: switched_on_def sample_service_def)
  note t = bspec [OF conjunct1 [OF ensure_service_exact [OF a shared_router_good sample_env_order n on r]] insertI1]
  then have "set (filter (\<lambda>e. \<not> ?P e) (mock_table m' (table_path IPv4 ''nat''))) =
      set (filter (\<lambda>e. \<not> ?P e) (mock_table shared_router (table_path IPv4 ''nat'')))"
    by (metis mset_eq_setD)
  then have "{e \<in> set (mock_table shared_router (table_path IPv4 ''nat'')). on ''chain'' ''dstnat'' e} \<subseteq>
      set (mock_table m' (table_path IPv4 ''nat''))"
    using k by auto
  then show ?thesis using t r by blast
qed

section \<open>Where the result falls short\<close>

definition port80 :: endpoint_port where
  "port80 = \<lparr>ep_port = 80, ep_target = 8080, ep_protocol = ''TCP''\<rparr>"

definition service_at :: "addr list \<Rightarrow> service" where
  "service_at ips = sample_service\<lparr>svc_endpoints := [\<lparr>ep_ips = ips, ep_ports = [port80]\<rparr>]\<rparr>"

definition chain80 :: string where "chain80 = lb_port_chain (bk_sha sample_env) ''u1'' port80"

text \<open>The router with the destination rules of the endpoints given, as the operation creates them.\<close>

definition router_at :: "addr list \<Rightarrow> mock" where
  "router_at ips = seed (table_path IPv4 ''nat'')
     (chain_rules (bk_sha sample_env) IPv4 '''' (service_at ips) chain80) new_mock"

lemma router_at_good: "mock_good (router_at ips)"
  unfolding router_at_def by (intro mock_good_seed mock_good_new) (simp add: chain_rules_ok)

theorem dnat_rules_of_gone_family_stay_witness:
  "\<exists>m'. ensure_service sample_env (service_at [Addr6 1 []]) (router_at [Addr4 0x0A000002]) = (Inr (), m') \<and>
    map (\<lambda>e. field_text (snd e) ''to-addresses'')
      (filter (on ''chain'' chain80) (mock_table m' (table_path IPv4 ''nat''))) = [''10.0.0.2'']"
proof -
  let ?svc = "service_at [Addr6 1 []]" and ?m = "router_at [Addr4 0x0A000002]"
  have a: "atomic_store (bk_api sample_env) mock_table mock_good" using mock.is_atomic by simp
  obtain m' where r: "ensure_service sample_env ?svc ?m = (Inr (), m')"
    using mock.ensure_service_succeeds [OF sample_env_api sample_env_order router_at_good] by blast
  have n: "\<forall>f \<in> {IPv4, IPv6}. no_loop (bk_sha sample_env) ?svc f (mock_table ?m (table_path f ''nat''))"
    by code_simp
  have lb: "has_lb_ip ?svc IPv4" and p: "port80 \<in> set (served_ports ?svc)" and d: "dnat_pairs IPv4 ?svc = []"
    by code_simp+
  have u: "lb_port_chain (bk_sha sample_env) (svc_uid ?svc) port80 = chain80" by (simp add: chain80_def service_at_def sample_service_def)
  have "mset (filter (on ''chain'' chain80) (mock_table m' (table_path IPv4 ''nat''))) =
      mset (filter (on ''chain'' chain80) (mock_table ?m (table_path IPv4 ''nat'')))"
    using dnat_rules_of_gone_family_stay [OF a router_at_good sample_env_order n r disjI1 [OF refl] lb p] d
    unfolding u by simp
  then have "mset (map (\<lambda>e. field_text (snd e) ''to-addresses'')
        (filter (on ''chain'' chain80) (mock_table m' (table_path IPv4 ''nat'')))) =
      mset (map (\<lambda>e. field_text (snd e) ''to-addresses'')
        (filter (on ''chain'' chain80) (mock_table ?m (table_path IPv4 ''nat''))))"
    unfolding mset_map by simp
  moreover have "map (\<lambda>e. field_text (snd e) ''to-addresses'')
      (filter (on ''chain'' chain80) (mock_table ?m (table_path IPv4 ''nat''))) = [''10.0.0.2'']"
    by code_simp
  ultimately show ?thesis using r by (metis mset_single_iff_right mset.simps(1) mset.simps(2) add_mset_add_single)
qed

text \<open>A new endpoint listed before the old ones gets no traffic: its rule is created at the end of
  the chain, behind the rule without the round-robin parameter, which matches every connection.\<close>

theorem dnat_fallback_not_last:
  "map (\<lambda>e. (field_text (snd e) ''to-addresses'', field_text (snd e) ''nth''))
      (mock_table (snd (ensure_lb_dnat_rules (bk_api sample_env) (bk_sha sample_env) id IPv4
          (service_at [Addr4 0x0A000004, Addr4 0x0A000002, Addr4 0x0A000003])
          (router_at [Addr4 0x0A000002, Addr4 0x0A000003])))
        (table_path IPv4 ''nat'')) =
    [(''10.0.0.2'', ''3,2''), (''10.0.0.3'', ''''), (''10.0.0.4'', ''3,1'')]"
  by code_simp

text \<open>The switches of a service change nothing of what is programmed, although a service that is
  switched off should get no rules.\<close>

lemma switches_unread:
  "has_lb_ip (svc\<lparr>lb_enabled := b, snat_enabled := c\<rparr>) = has_lb_ip svc"
  "has_snat_ip (svc\<lparr>lb_enabled := b, snat_enabled := c\<rparr>) = has_snat_ip svc"
  "snat_ip f (svc\<lparr>lb_enabled := b, snat_enabled := c\<rparr>) = snat_ip f svc"
  "lb_list_entries f msk (svc\<lparr>lb_enabled := b, snat_enabled := c\<rparr>) = lb_list_entries f msk svc"
  "snat_list_entries sha f msk (svc\<lparr>lb_enabled := b, snat_enabled := c\<rparr>) = snat_list_entries sha f msk svc"
  "service_rules sha f msk (svc\<lparr>lb_enabled := b, snat_enabled := c\<rparr>) = service_rules sha f msk svc"
  "snat_rule sha f (svc\<lparr>lb_enabled := b, snat_enabled := c\<rparr>) = snat_rule sha f svc"
  "lb_list_filter A (svc\<lparr>lb_enabled := b, snat_enabled := c\<rparr>) = lb_list_filter A svc"
  "dnat_requests sha f msk (svc\<lparr>lb_enabled := b, snat_enabled := c\<rparr>) = dnat_requests sha f msk svc"
  "port_rules sha (svc\<lparr>lb_enabled := b, snat_enabled := c\<rparr>) = port_rules sha svc"
proof -
  let ?off = "svc\<lparr>lb_enabled := b, snat_enabled := c\<rparr>"
  have t: "service_tag ?off = service_tag svc" by (simp add: service_tag_def)
  then have e: "list_entry l msk ?off = list_entry l msk svc" for l msk by (simp add: fun_eq_iff list_entry_def)
  show "has_lb_ip ?off = has_lb_ip svc" "has_snat_ip ?off = has_snat_ip svc" "snat_ip f ?off = snat_ip f svc"
    "lb_list_filter A ?off = lb_list_filter A svc"
    by (simp_all add: fun_eq_iff has_lb_ip_def has_snat_ip_def snat_ip_def lb_list_filter_def split: option.split)
  show "lb_list_entries f msk ?off = lb_list_entries f msk svc"
    "snat_list_entries sha f msk ?off = snat_list_entries sha f msk svc"
    "service_rules sha f msk ?off = service_rules sha f msk svc" "snat_rule sha f ?off = snat_rule sha f svc"
    by (simp_all add: fun_eq_iff lb_list_entries_def snat_list_entries_def service_rules_def snat_rule_def e t)
  have "dnat_rule sha f msk ?off = dnat_rule sha f msk svc" "dnat_pairs f ?off = dnat_pairs f svc"
    by (simp_all add: fun_eq_iff dnat_rule_def dnat_pairs_def t)
  then show "dnat_requests sha f msk ?off = dnat_requests sha f msk svc"
    by (simp add: dnat_requests_def dnat_by_chain_def)
  have "add_port sha ?off = add_port sha svc" by (simp add: fun_eq_iff add_port_def port_rule_def t)
  then show "port_rules sha ?off = port_rules sha svc" by (simp add: port_rules_def)
qed

theorem switches_ignored:
  "ensure_service B (svc\<lparr>lb_enabled := b, snat_enabled := c\<rparr>) = ensure_service B svc"
proof -
  let ?off = "svc\<lparr>lb_enabled := b, snat_enabled := c\<rparr>"
  have "lb_tasks B ?off f = lb_tasks B svc f" "snat_tasks B ?off f = snat_tasks B svc f" for f
    by (simp_all add: lb_tasks_def snat_tasks_def Let_def fun_eq_iff ensure_lb_dnat_rules_def ensure_lb_port_rules_def
        ensure_lb_service_rule_def ensure_lb_ips_list_def ensure_snat_ips_list_def ensure_snat_service_rule_def
        switches_unread)
  then show ?thesis by (simp add: ensure_service_def)
qed

definition snat_only :: service where
  "snat_only = sample_service\<lparr>lb_ips := []\<rparr>"

definition snat_router :: mock where
  "snat_router = seed (table_path IPv4 ''nat'')
     [snat_rule (bk_sha sample_env) IPv4 snat_only (snat_ipv4 snat_only)] new_mock"

text \<open>For a service with source NAT but no load balancer address, every run deletes the source NAT
  rule and creates it anew, although it is the requested one: the clean-up of its load balancer
  rules matches every rule with the uid in its comment.\<close>

theorem snat_rule_recreated:
  "(case run_tasks (lb_tasks sample_env snat_only IPv4 @ snat_tasks sample_env snat_only IPv4) snat_router of
     (r, m') \<Rightarrow> r = Inr () \<and>
       map (\<lambda>e. (fst e, del_field id_key (snd e))) (mock_table snat_router (table_path IPv4 ''nat'')) =
         [(''*1'', snat_rule (bk_sha sample_env) IPv4 snat_only (snat_ipv4 snat_only))] \<and>
       map (\<lambda>e. (fst e, del_field id_key (snd e))) (mock_table m' (table_path IPv4 ''nat'')) =
         [(''*4'', snat_rule (bk_sha sample_env) IPv4 snat_only (snat_ipv4 snat_only))])"
  by code_simp

end
