(* ===== verification/Router_Isolation.thy ===== *)
theory Router_Isolation
  imports Router_Ensure Router_Props
begin

text \<open>
  Isolation under failure: whatever call fails and wherever an operation stops, it has touched no other
  table and has not lost an entry that is not its own. Here an operation owns entries of the tables
  at several paths.
\<close>

type_synonym owns = "string \<Rightarrow> entry \<Rightarrow> bool"

context atomic_store begin

definition loses :: "string set \<Rightarrow> owns \<Rightarrow> 's \<Rightarrow> 's \<Rightarrow> bool" where
  "loses P own s s' \<longleftrightarrow> good s' \<and> (\<forall>p. p \<notin> P \<longrightarrow> table s' p = table s p) \<and>
     (\<forall>p \<in> P. \<forall>sel. (\<forall>e. own p e \<longrightarrow> \<not> sel e) \<longrightarrow> mset (filter sel (table s p)) \<subseteq># mset (table s' p))"

lemma loses_same: "good s \<Longrightarrow> loses P own s s"
  by (simp add: loses_def)

lemma loses_trans:
  assumes "loses P own s s1" "loses P own s1 s2"
  shows "loses P own s s2"
proof -
  have "mset (filter sel (table s p)) \<subseteq># mset (table s2 p)"
    if p: "p \<in> P" and sel: "\<forall>e. own p e \<longrightarrow> \<not> sel e" for p sel
  proof -
    have "mset (filter sel (table s p)) \<subseteq># mset (table s1 p)" using assms(1) p sel unfolding loses_def by blast
    then have "filter_mset sel (mset (filter sel (table s p))) \<subseteq># filter_mset sel (mset (table s1 p))"
      by (rule multiset_filter_mono)
    then have "mset (filter sel (table s p)) \<subseteq># mset (filter sel (table s1 p))"
      by (simp add: filter_filter_mset)
    moreover have "mset (filter sel (table s1 p)) \<subseteq># mset (table s2 p)"
      using assms(2) p sel unfolding loses_def by blast
    ultimately show ?thesis by (rule subset_mset.order_trans)
  qed
  then show ?thesis using assms by (simp add: loses_def)
qed

lemma loses_mono:
  assumes "loses P own s s'" "P \<subseteq> Q" "\<And>p e. p \<in> P \<Longrightarrow> own p e \<Longrightarrow> own' p e"
  shows "loses Q own' s s'"
  unfolding loses_def
proof (intro conjI allI impI ballI)
  fix p sel assume p: "p \<in> Q" and sel: "\<forall>e. own' p e \<longrightarrow> \<not> sel e"
  show "mset (filter sel (table s p)) \<subseteq># mset (table s' p)"
  proof (cases "p \<in> P")
    case True
    then show ?thesis using assms(1,3) sel unfolding loses_def by blast
  next
    case False
    then have "table s' p = table s p" using assms(1) by (simp add: loses_def)
    then show ?thesis by simp
  qed
qed (use assms in \<open>auto simp: loses_def\<close>)

lemma touches_loses:
  assumes "touches p (own p) s s'"
  shows "loses {p} own s s'"
  unfolding loses_def
proof (intro conjI allI impI ballI)
  fix p' sel assume "p' \<in> {p}" "\<forall>e. own p' e \<longrightarrow> \<not> sel e"
  then have "mset (filter sel (table s' p')) = mset (filter sel (table s p'))"
    using assms by (auto simp: touches_def)
  then show "mset (filter sel (table s p')) \<subseteq># mset (table s' p')"
    by (metis mset_filter multiset_filter_subset)
qed (use assms in \<open>auto simp: touches_def\<close>)

text \<open>A safe operation, whatever its result.\<close>

definition safe :: "('s \<Rightarrow> ('r, 's) reply) \<Rightarrow> string set \<Rightarrow> owns \<Rightarrow> bool" where
  "safe op P own \<longleftrightarrow> (\<forall>s r s'. good s \<longrightarrow> op s = (r, s') \<longrightarrow> loses P own s s')"

lemma safe_mono:
  "safe op P own \<Longrightarrow> P \<subseteq> Q \<Longrightarrow> (\<And>p e. p \<in> P \<Longrightarrow> own p e \<Longrightarrow> own' p e) \<Longrightarrow> safe op Q own'"
  using loses_mono unfolding safe_def by blast

lemma sync_loses:
  assumes "good s" "plain_path p" "distinct (map fst q)" "\<forall>r \<in> set reqs. request_ok r"
    and "reqs = [] \<or> id_key \<in> set ignored" "decides filt keep"
    and "sync A p reqs q filt idf ignored f s = (r, f', s')"
    and "\<And>e. e \<in> set (table s p) \<Longrightarrow> selects q keep e \<Longrightarrow> own p e"
  shows "loses {p} own s s'"
proof -
  have sp: "good s'" "\<forall>p'. p' \<noteq> p \<longrightarrow> table s' p' = table s p'"
    "mset (filter (\<lambda>e. \<not> selects q keep e) (table s p)) \<subseteq># mset (table s' p)"
    using sync_spares [OF assms(1-7)] by auto
  have "mset (filter sel (table s p)) \<subseteq># mset (table s' p)" if sel: "\<forall>e. own p e \<longrightarrow> \<not> sel e" for sel
  proof -
    have "filter sel (table s p) = filter sel (filter (\<lambda>e. \<not> selects q keep e) (table s p))"
      using assms(8) sel by (auto intro!: filter_cong)
    then have "mset (filter sel (table s p)) \<subseteq># mset (filter (\<lambda>e. \<not> selects q keep e) (table s p))"
      by (metis mset_filter multiset_filter_subset)
    then show ?thesis using sp(3) by (rule subset_mset.order_trans)
  qed
  then show ?thesis using sp by (auto simp: loses_def)
qed

lemma safe_sync:
  assumes "plain_path p" "distinct (map fst q)" "\<forall>r \<in> set reqs. request_ok r"
    and "reqs = [] \<or> id_key \<in> set ignored"
    and "\<And>s e. good s \<Longrightarrow> e \<in> set (table s p) \<Longrightarrow> selects q (keeps filt) e \<Longrightarrow> own p e"
  shows "safe (sync_rules A p reqs q filt idf ignored) {p} own"
  unfolding safe_def
proof (intro allI impI)
  fix s r s' assume s: "good s" and o: "sync_rules A p reqs q filt idf ignored s = (r, s')"
  obtain r1 f' where "sync A p reqs q (pure_filter filt) idf ignored () s = (r1, f', s')"
    using o by (auto simp: sync_rules_def split: prod.splits sum.splits)
  from sync_loses [OF s assms(1-4) decides_pure this] assms(5) [OF s] show "loses {p} own s s'" by blast
qed

lemma safe_collect:
  assumes "\<forall>op \<in> set ops. safe op P own" "good s" "collect_tasks ops s = (errs, s')"
  shows "loses P own s s'"
  using assms
proof (induction ops arbitrary: s errs)
  case Nil
  then show ?case by (simp add: loses_same)
next
  case (Cons op ops)
  obtain r s1 where o: "op s = (r, s1)" by fastforce
  then obtain errs1 where c: "collect_tasks ops s1 = (errs1, s')" using Cons.prems(3) by (auto split: prod.splits)
  have l: "loses P own s s1" using Cons.prems(1,2) o unfolding safe_def by auto
  then have "good s1" by (simp add: loses_def)
  from loses_trans [OF l Cons.IH [OF _ this c]] show ?case using Cons.prems(1) by simp
qed

lemma safe_run_Cons:
  assumes "op s = (r, s1)" "loses P own s s1" "run_tasks ((msg, op) # ts) s = (r', s')"
    and "r = Inr () \<Longrightarrow> run_tasks ts s1 = (r', s') \<Longrightarrow> loses P own s1 s'"
  shows "loses P own s s'"
proof (cases r)
  case (Inl e)
  then show ?thesis using assms(1-3) by (auto simp: and_then_def wrap_def)
next
  case (Inr u)
  then have "run_tasks ts s1 = (r', s')" using assms(1,3) by (auto simp: and_then_def wrap_def)
  then show ?thesis using loses_trans [OF assms(2)] assms(4) Inr by simp
qed

lemma safe_run:
  assumes "\<forall>t \<in> set ts. safe (snd t) P own" "good s" "run_tasks ts s = (r, s')"
  shows "loses P own s s'"
  using assms
proof (induction ts arbitrary: s)
  case Nil
  then show ?case by (simp add: loses_same)
next
  case (Cons t ts)
  obtain msg op r1 s1 where t: "t = (msg, op)" and o: "op s = (r1, s1)" by (metis surj_pair)
  have l: "loses P own s s1" using Cons.prems(1,2) o t unfolding safe_def by auto
  show ?case
    using Cons.prems(3) unfolding t
    by (rule safe_run_Cons [where op = op and ts = ts and r = r1, OF o l]) (use Cons.IH Cons.prems(1) l in \<open>auto simp: loses_def\<close>)
qed

end

lemma run_append_any:
  "run_tasks (ts @ us) s = (case run_tasks ts s of (Inl e, s1) \<Rightarrow> (Inl e, s1) | (Inr _, s1) \<Rightarrow> run_tasks us s1)"
proof (induction ts arbitrary: s)
  case (Cons t ts)
  then show ?case by (cases t) (auto simp: and_then_def wrap_def split: prod.splits sum.splits)
qed simp

section \<open>Services\<close>

text \<open>The entries of a service, given the NAT tables an operation starts from.\<close>

definition family_paths :: "ip_family \<Rightarrow> string set" where
  "family_paths f = {table_path f ''nat'', table_path f ''address-list''}"

definition service_owns ::
  "(string \<Rightarrow> byte list) \<Rightarrow> service \<Rightarrow> ip_family \<Rightarrow> entry list \<Rightarrow> owns" where
  "service_owns sha svc f rules p e \<longleftrightarrow>
     (if p = table_path f ''nat'' then service_rule_entry sha svc f rules e else service_list_entry sha svc f e)"

lemma service_owns_paths:
  "service_owns sha svc f rules (table_path f ''nat'') e = service_rule_entry sha svc f rules e"
  "service_owns sha svc f rules (table_path f ''address-list'') e = service_list_entry sha svc f e"
  by (simp_all add: service_owns_def nat_not_list [symmetric])

context atomic_store begin

lemma ensures_safe_steps:
  assumes f: "f = IPv4 \<or> f = IPv6"
  shows "has_lb_ip svc f \<Longrightarrow> safe (ensure_lb_service_rule A sha f svc) (family_paths f) (service_owns sha svc f rules)"
    "has_lb_ip svc f \<Longrightarrow> safe (ensure_lb_ips_list A f svc) (family_paths f) (service_owns sha svc f rules)"
    "safe (ensure_snat_ips_list A sha f svc) (family_paths f) (service_owns sha svc f rules)"
    "safe (ensure_snat_service_rule A sha f svc) (family_paths f) (service_owns sha svc f rules)"
    "\<not> has_lb_ip svc f \<Longrightarrow> safe (cleanup_lb_ips_list A f (svc_uid svc)) (family_paths f) (service_owns sha svc f rules)"
    "\<not> has_lb_ip svc f \<Longrightarrow> safe (delete_lb_service_rules A f (svc_uid svc)) (family_paths f) (service_owns sha svc f rules)"
    "safe (delete_snat_service_rule A sha f (svc_uid svc)) (family_paths f) (service_owns sha svc f rules)"
    "safe (delete_snat_ips_list A sha f (svc_uid svc)) (family_paths f) (service_owns sha svc f rules)"
  unfolding ensure_lb_service_rule_def ensure_lb_ips_list_def ensure_snat_ips_list_def ensure_snat_service_rule_def
    cleanup_lb_ips_list_def delete_lb_service_rules_def delete_snat_service_rule_def delete_snat_ips_list_def
    with_mask_of [OF f]
  by (rule safe_mono [OF safe_sync [where own = "service_owns sha svc f rules"]];
      auto simp: family_paths_def table_paths [OF f] service_rule_ok lb_list_entries_def snat_list_entries_def
        list_entry_ok snat_rule_ok ignored_facts service_owns_paths service_rule_entry_def service_list_entry_def
        selects_none selects_some claims_filter managed_owned snat_entry_def service_jump_def)+

lemma dnat_safe:
  assumes f: "f = IPv4 \<or> f = IPv6" and "good s" and ord: "\<And>l. mset (order l) = mset l" and lb: "has_lb_ip svc f"
    and "ensure_lb_dnat_rules A sha order f svc s = (r, s')"
  shows "loses (family_paths f) (service_owns sha svc f rules) s s'"
proof -
  let ?p = "table_path f ''nat''" and ?m = "dnat_requests sha f (mask_of f) svc"
  let ?op = "\<lambda>c. sync_rules A ?p (the (map_of ?m c)) [(''chain'', c)] None (Some (dnat_id A f)) ignored_firewall"
  note d = dnat_requests_shape [where sha = sha and f = f and msk = "mask_of f" and svc = svc]
  have k: "set (order (map fst ?m)) = dnat_chains sha f svc"
    using d(2) ord [of "map fst ?m"] mset_eq_setD by (metis set_map)
  obtain errs where c: "collect_tasks (map ?op (order (map fst ?m))) s = (errs, s')"
    using assms(5) unfolding ensure_lb_dnat_rules_def with_mask_of [OF f]
    by (auto simp: Let_def split: prod.splits)
  have "safe (?op c) (family_paths f) (service_owns sha svc f rules)" if c: "c \<in> dnat_chains sha f svc" for c
    unfolding d(3) [OF c]
    by (rule safe_mono [OF safe_sync [where own = "service_owns sha svc f rules"]])
      (use c lb in \<open>auto simp: family_paths_def table_paths [OF f] chain_rules_ok ignored_facts service_owns_paths
        selects_none service_rule_entry_def\<close>)
  then show ?thesis using safe_collect [OF _ assms(2) c] k by auto
qed

lemma port_safe:
  assumes f: "f = IPv4 \<or> f = IPv6" and s: "good s" and ord: "\<And>l. mset (order l) = mset l" and lb: "has_lb_ip svc f"
    and "ensure_lb_port_rules A sha order f svc s = (r, s')"
  shows "loses (family_paths f) (service_owns sha svc f (table s (table_path f ''nat''))) s s'"
proof -
  let ?p = "table_path f ''nat''" and ?c = "lb_service_chain sha (svc_uid svc)"
  let ?rules = "fst (port_rules sha svc)" and ?targets = "snd (port_rules sha svc)"
  let ?own = "service_owns sha svc f (table s ?p)"
  note sh = port_rules_shape [where sha = sha and svc = svc]
  obtain r1 stale s1 where o: "sync A ?p (in_order order ?rules) [(''chain'', ?c)] (stale_filter A ?targets)
      (Some (port_id A)) ignored_firewall [] s = (r1, stale, s1)" by (metis prod_cases3)
  have "mset (in_order order ?rules) = mset (map snd ?rules)" using ord sh(1) by (rule mset_in_order)
  then have reqs: "\<forall>r \<in> set (in_order order ?rules). request_ok r"
    using mset_eq_setD sh(3) port_rule_ok(1) by fastforce
  have "loses {?p} ?own s s1"
    by (rule sync_loses [OF s table_paths(1) [OF f] _ reqs _ stale_decides o])
      (use lb in \<open>auto simp: ignored_facts selects_def query_matches_def on_def service_owns_paths service_rule_entry_def\<close>)
  then have l: "loses (family_paths f) ?own s s1" by (rule loses_mono) (auto simp: family_paths_def)
  show ?thesis
  proof (cases r1)
    case (Inl e)
    then have "s' = s1" using assms(5) o by (auto simp: ensure_lb_port_rules_def split: prod.splits)
    then show ?thesis using l by simp
  next
    case (Inr js)
    then have s': "s' = clean_chains A f (order stale) s1"
      using assms(5) o by (auto simp: ensure_lb_port_rules_def split: prod.splits)
    have sub: "set stale \<subseteq> stale_chains sha svc (table s ?p)"
      by (rule stale_subset [OF f s o [unfolded Inr]])
    have "good s1" using l by (simp add: loses_def)
    then have "touches ?p (\<lambda>e. \<exists>c \<in> set (order stale). on ''chain'' c e) s1 s'"
      unfolding s' by (rule clean_chains_touches [OF f])
    then have "touches ?p (?own ?p) s1 s'"
      by (rule touches_mono)
        (use sub lb mset_eq_setD [OF ord [of stale]] in \<open>auto simp: service_owns_paths service_rule_entry_def\<close>)
    then have "loses {?p} ?own s1 s'" by (rule touches_loses)
    then have "loses (family_paths f) ?own s1 s'" by (rule loses_mono) (auto simp: family_paths_def)
    then show ?thesis by (rule loses_trans [OF l])
  qed
qed

lemma family_safe:
  assumes f: "f = IPv4 \<or> f = IPv6" and s: "good s" and ord: "\<And>l. mset (bk_order B l) = mset l" and B: "bk_api B = A"
    and run: "run_tasks (lb_tasks B svc f @ snat_tasks B svc f) s = (r, s')"
  shows "loses (family_paths f) (service_owns (bk_sha B) svc f (table s (table_path f ''nat''))) s s'"
proof -
  let ?p = "table_path f ''nat''" and ?sha = "bk_sha B"
  let ?own = "service_owns ?sha svc f (table s ?p)" and ?P = "family_paths f"
  note steps = ensures_safe_steps [OF f, where svc = svc and sha = ?sha and rules = "table s ?p"]
  have snat: "\<forall>t \<in> set (snat_tasks B svc f). safe (snd t) ?P ?own"
    using steps B by (auto simp: snat_tasks_def Let_def)
  show ?thesis
  proof (cases "has_lb_ip svc f")
    case False
    then have "\<forall>t \<in> set (lb_tasks B svc f @ snat_tasks B svc f). safe (snd t) ?P ?own"
      using steps B snat by (auto simp: lb_tasks_def Let_def)
    then show ?thesis using s run by (rule safe_run)
  next
    case True
    obtain r1 s1 where o1: "ensure_lb_dnat_rules A ?sha (bk_order B) f svc s = (r1, s1)" by fastforce
    obtain r2 s2 where o2: "ensure_lb_port_rules A ?sha (bk_order B) f svc s1 = (r2, s2)" by fastforce
    have l1: "loses ?P ?own s s1" by (rule dnat_safe [OF f s ord True o1])
    obtain m1 m2 rest where t: "lb_tasks B svc f @ snat_tasks B svc f =
        (m1, ensure_lb_dnat_rules A ?sha (bk_order B) f svc) # (m2, ensure_lb_port_rules A ?sha (bk_order B) f svc) # rest"
      "\<forall>t \<in> set rest. safe (snd t) ?P ?own"
      using True steps snat B by (simp add: lb_tasks_def Let_def)
    show ?thesis
      using run unfolding t(1)
    proof (rule safe_run_Cons [where op = "ensure_lb_dnat_rules A ?sha (bk_order B) f svc" and r = r1, OF o1 l1])
      assume ok: "r1 = Inr ()"
        and run1: "run_tasks ((m2, ensure_lb_port_rules A ?sha (bk_order B) f svc) # rest) s1 = (r, s')"
      have tt: "touches ?p (\<lambda>e. \<exists>c \<in> dnat_chains ?sha f svc. on ''chain'' c e) s s1"
        using dnat_step [OF f s ord o1 [unfolded ok]] by blast
      have st: "stale_chains ?sha svc (table s1 ?p) = stale_chains ?sha svc (table s ?p)"
        by (rule stale_chains_cong [OF tt]) (auto simp: on_def dnat_chains_def)
      have g1: "good s1" using tt by (simp add: touches_def)
      have "service_owns ?sha svc f (table s1 ?p) = ?own"
        using st by (simp add: service_owns_def [abs_def] service_rule_entry_def [abs_def])
      with port_safe [OF f g1 ord True o2] have l2: "loses ?P ?own s1 s2" by simp
      show "loses ?P ?own s1 s'"
        using run1
        by (rule safe_run_Cons [where op = "ensure_lb_port_rules A ?sha (bk_order B) f svc" and r = r2, OF o2 l2])
          (use safe_run [OF t(2)] l2 in \<open>auto simp: loses_def\<close>)
    qed
  qed
qed

end

text \<open>C9: Whatever call fails and wherever \<open>EnsureService\<close> stops, with or without an error: no NAT rule and
  no address list entry is lost but the service's own and those in chains that only its old
  rules jumped to, and no other table is touched. So one service's trouble leaves the others and
  the rules of the administrator alone.\<close>

theorem ensure_service_isolated:
  assumes "atomic_store (bk_api B) table good" "good s" "\<And>l. mset (bk_order B l) = mset l"
    and "ensure_service B svc s = (r, s')"
  shows "good s' \<and> (\<forall>f \<in> {IPv4, IPv6}.
      mset (filter (\<lambda>e. \<not> service_rule_entry (bk_sha B) svc f (table s (table_path f ''nat'')) e)
        (table s (table_path f ''nat''))) \<subseteq># mset (table s' (table_path f ''nat'')) \<and>
      mset (filter (\<lambda>e. \<not> service_list_entry (bk_sha B) svc f e) (table s (table_path f ''address-list'')))
        \<subseteq># mset (table s' (table_path f ''address-list''))) \<and>
    (\<forall>p. p \<notin> family_paths IPv4 \<union> family_paths IPv6 \<longrightarrow> table s' p = table s p)"
proof -
  note at = assms(1)
  define own where "own p e \<longleftrightarrow> (\<exists>f \<in> {IPv4, IPv6}. p \<in> family_paths f \<and>
    service_owns (bk_sha B) svc f (table s (table_path f ''nat'')) p e)" for p e
  let ?P = "family_paths IPv4 \<union> family_paths IPv6" and ?loses = "atomic_store.loses table good"
  note fam = atomic_store.family_safe [OF at _ _ assms(3) refl] and mono = atomic_store.loses_mono [OF at]
  obtain r1 s1 where o: "run_tasks (lb_tasks B svc IPv4 @ snat_tasks B svc IPv4) s = (r1, s1)" by fastforce
  have l4: "?loses (family_paths IPv4) (service_owns (bk_sha B) svc IPv4 (table s (table_path IPv4 ''nat''))) s s1"
    by (rule fam [OF disjI1 [OF refl] assms(2) o])
  have both: "(r, s') = (case r1 of Inl e \<Rightarrow> (Inl e, s1)
      | Inr _ \<Rightarrow> run_tasks (lb_tasks B svc IPv6 @ snat_tasks B svc IPv6) s1)"
    using run_append_any [of "lb_tasks B svc IPv4 @ snat_tasks B svc IPv4" "lb_tasks B svc IPv6 @ snat_tasks B svc IPv6" s]
      o assms(4) by (simp add: ensure_service_def)
  have l4': "?loses ?P own s s1" by (rule mono [OF l4]) (auto simp: own_def)
  have l: "?loses ?P own s s'"
  proof (cases r1)
    case (Inl e)
    then have "s' = s1" using both by simp
    then show ?thesis using l4' by simp
  next
    case (Inr u)
    have g1: "good s1" using l4 by (simp add: atomic_store.loses_def [OF at])
    have t: "table s1 (table_path IPv6 ''nat'') = table s (table_path IPv6 ''nat'')"
      using l4 paths_distinct by (auto simp: atomic_store.loses_def [OF at] family_paths_def)
    have o6: "run_tasks (lb_tasks B svc IPv6 @ snat_tasks B svc IPv6) s1 = (r, s')"
      using both Inr by simp
    have "?loses ?P own s1 s'"
      by (rule mono [OF fam [OF disjI2 [OF refl] g1 o6, unfolded t]]) (auto simp: own_def)
    then show ?thesis by (rule atomic_store.loses_trans [OF at l4'])
  qed
  have ownI: "own (table_path f ''nat'') e \<Longrightarrow> service_rule_entry (bk_sha B) svc f (table s (table_path f ''nat'')) e"
    "own (table_path f ''address-list'') e \<Longrightarrow> service_list_entry (bk_sha B) svc f e" if "f \<in> {IPv4, IPv6}" for f e
    using that paths_distinct by (auto simp: own_def family_paths_def service_owns_paths)
  show ?thesis
    using l ownI unfolding atomic_store.loses_def [OF at] by (auto simp: family_paths_def)
qed

text \<open>A mock router that refuses to delete: its calls fail without an effect.\<close>

definition refusing :: "mock api" where
  "refusing = (mock_api plain_gjson local_client)\<lparr>api_http := (\<lambda>r m.
     if rq_method r = ''DELETE'' then (Inl ''connection reset'', m) else mock_http r m)\<rparr>"

lemma refusing_calls:
  "api_get refusing p q m = api_get (mock_api plain_gjson local_client) p q m"
  "api_put refusing p r m = api_put (mock_api plain_gjson local_client) p r m"
  "api_patch refusing p r m = api_patch (mock_api plain_gjson local_client) p r m"
  "\<exists>e. api_delete refusing p m = (Inl e, m)"
  by (auto simp: api_get_def api_put_def api_patch_def api_delete_def do_request_def call_def refusing_def
      mock_api_def new_request_def split: option.splits prod.splits sum.splits)

lemma refusing_gjson: "api_gjson refusing = plain_gjson"
  by (simp add: refusing_def mock_api_def)

lemma refusing_store: "rest_store refusing mock_table mock_good"
proof (unfold_locales, unfold refusing_calls refusing_gjson)
  show "gjson_ok plain_gjson" by (rule gjson_ok_plain)
  fix s p i m u s'
  assume "api_delete refusing (p @ ''/'' @ i) s = (Inr u, s')"
  then show "mock_good s' \<and> mock_table s' = (mock_table s)(p := filter (\<lambda>e. fst e \<noteq> i) (mock_table s p))"
    using refusing_calls(4) [of "p @ ''/'' @ i" s] by auto
qed (rule mock.good_table mock.get_law mock.put_law mock.patch_law; assumption)+

lemma refusing_atomic: "atomic_store refusing mock_table mock_good"
proof (rule atomic_store.intro [OF refusing_store], unfold_locales, unfold refusing_calls)
  fix s p i m e s'
  assume "mock_good s" "api_delete refusing (p @ ''/'' @ i) s = (Inl e, s')"
  then show "mock_good s' \<and> (mock_table s' = mock_table s \<or>
      mock_table s' = (mock_table s)(p := filter (\<lambda>e. fst e \<noteq> i) (mock_table s p)))"
    using refusing_calls(4) [of "p @ ''/'' @ i" s] by auto
qed (rule atomic_store.get_fails [OF mock.is_atomic] atomic_store.put_fails [OF mock.is_atomic]
    atomic_store.patch_fails [OF mock.is_atomic]; assumption)+

definition idle_service :: service where
  "idle_service = \<lparr>svc_uid = ''u1'', svc_name = ''a/x'', lb_enabled = False, lb_ips = [], snat_enabled = False,
     snat_ipv4 = AddrNone, snat_ipv6 = AddrNone, svc_endpoints = []\<rparr>"

theorem ensure_service_isolated_witness:
  "\<exists>e m'. ensure_service (sample_env\<lparr>bk_api := refusing\<rparr>) idle_service shared_router = (Inl e, m') \<and>
    mset [(''*1'', commented_rule ''dstnat'' ''port forwarding'' @ [(id_key, JStr ''*1'')]),
      (''*3'', commented_rule ''mikrolb-dnat'' ''mikrolb: LB for service a/y (u2)'' @ [(id_key, JStr ''*3'')])]
      \<subseteq># mset (mock_table m' (table_path IPv4 ''nat''))"
proof -
  let ?B = "sample_env\<lparr>bk_api := refusing\<rparr>" and ?r = "ensure_service (sample_env\<lparr>bk_api := refusing\<rparr>) idle_service shared_router"
  have "case fst ?r of Inl e \<Rightarrow> True | Inr u \<Rightarrow> False" by code_simp
  then obtain e m' where r: "?r = (Inl e, m')" by (cases ?r) (auto split: sum.splits)
  have a: "atomic_store (bk_api ?B) mock_table mock_good" using refusing_atomic by simp
  have o: "mset (bk_order ?B l) = mset l" for l by (simp add: sample_env_def)
  have f: "filter (\<lambda>e. \<not> service_rule_entry (bk_sha ?B) idle_service IPv4 (mock_table shared_router (table_path IPv4 ''nat'')) e)
      (mock_table shared_router (table_path IPv4 ''nat'')) =
    [(''*1'', commented_rule ''dstnat'' ''port forwarding'' @ [(id_key, JStr ''*1'')]),
      (''*3'', commented_rule ''mikrolb-dnat'' ''mikrolb: LB for service a/y (u2)'' @ [(id_key, JStr ''*3'')])]"
    by code_simp
  from conjunct1 [OF bspec [OF conjunct1 [OF conjunct2 [OF ensure_service_isolated [OF a shared_router_good o r]]] insertI1]]
  show ?thesis unfolding f using r by blast
qed

end
