(* ===== verification/Router_Setup.thy ===== *)
theory Router_Setup
  imports Router_Ensure Router_Props
begin

text \<open>
  \<open>Setup\<close>: the five rules of each family. A sequence of operations that own different entries
  establishes what each of them establishes.
\<close>

section \<open>Sequences of owners\<close>

record 's owner =
  ow_text :: string
  ow_op :: "'s \<Rightarrow> (unit, 's) reply"
  ow_path :: string
  ow_ignored :: "string list"
  ow_sel :: "entry \<Rightarrow> bool"
  ow_reqs :: "jobject list"

definition apart :: "'s owner \<Rightarrow> 's owner \<Rightarrow> bool" where
  "apart x y \<longleftrightarrow> ow_path x = ow_path y \<longrightarrow> (\<forall>e. ow_sel y e \<longrightarrow> \<not> ow_sel x e)"

context rest_store begin

lemma run_owners:
  assumes "\<forall>x \<in> set xs. ensures (ow_op x) (ow_path x) (ow_ignored x) (ow_sel x) (ow_reqs x)" "sorted_wrt apart xs"
    and "good s" "run_tasks (map (\<lambda>x. (ow_text x, ow_op x)) xs) s = (Inr u, s')"
  shows "good s' \<and>
    (\<forall>x \<in> set xs. has_exactly (ow_ignored x) (ow_sel x) (ow_reqs x) (table s' (ow_path x))) \<and>
    (\<forall>p sel. (\<forall>x \<in> set xs. ow_path x = p \<longrightarrow> (\<forall>e. ow_sel x e \<longrightarrow> \<not> sel e)) \<longrightarrow>
       mset (filter sel (table s' p)) = mset (filter sel (table s p)))"
  using assms
proof (induction xs arbitrary: s)
  case (Cons x xs)
  obtain s1 where o: "ow_op x s = (Inr (), s1)" "run_tasks (map (\<lambda>x. (ow_text x, ow_op x)) xs) s1 = (Inr u, s')"
    using Cons.prems(4) by (auto simp: run_tasks_Cons simp del: run_tasks.simps(2))
  have t: "touches (ow_path x) (ow_sel x) s s1" and h: "has_exactly (ow_ignored x) (ow_sel x) (ow_reqs x) (table s1 (ow_path x))"
    using Cons.prems(1,3) o(1) by (auto simp: ensures_def)
  have g: "good s1" using t by (simp add: touches_def)
  note ih = Cons.IH [OF _ _ g o(2)]
  have i: "good s'" "\<forall>x \<in> set xs. has_exactly (ow_ignored x) (ow_sel x) (ow_reqs x) (table s' (ow_path x))"
    "\<And>p sel. (\<forall>x \<in> set xs. ow_path x = p \<longrightarrow> (\<forall>e. ow_sel x e \<longrightarrow> \<not> sel e)) \<Longrightarrow>
       mset (filter sel (table s' p)) = mset (filter sel (table s1 p))"
    using ih Cons.prems(1,2) by auto
  have k: "mset (filter (ow_sel x) (table s' (ow_path x))) = mset (filter (ow_sel x) (table s1 (ow_path x)))"
    using Cons.prems(2) by (intro i(3)) (auto simp: apart_def)
  have "mset (filter sel (table s1 p)) = mset (filter sel (table s p))"
    if "ow_path x = p \<longrightarrow> (\<forall>e. ow_sel x e \<longrightarrow> \<not> sel e)" for p sel
    using t that by (cases "ow_path x = p") (auto simp: touches_def)
  then show ?case using i has_exactly_cong [OF k] h by simp
qed simp

end

section \<open>The rules\<close>

text \<open>The five rules of a family with the table, the selection and the rule.\<close>

definition setup_owners :: "'s api \<Rightarrow> ip_family \<Rightarrow> 's owner list" where
  "setup_owners A f =
     (let own = (\<lambda>msg op tab sel rule. \<lparr>ow_text = msg @ '' for family '' @ f, ow_op = op, ow_path = table_path f tab,
           ow_ignored = ignored_firewall, ow_sel = sel, ow_reqs = [rule]\<rparr>) in
      [own ''failed to ensure LB reject rule'' (ensure_lb_reject_rule A f) ''filter''
         (\<lambda>e. on ''chain'' ''input'' e \<and> on ''action'' ''reject'' e \<and> on ''dst-address-list'' lb_ips_list e)
         (reject_rule (the (icmp_protocol f))),
       own ''failed to ensure LB accept rule'' (ensure_lb_accept_rule A f) ''filter''
         (\<lambda>e. on ''chain'' ''forward'' e \<and> on ''action'' ''accept'' e \<and>
            on ''connection-mark'' ''mikrolb-lb-connection'' e) accept_rule,
       own ''failed to ensure LB mangle rule'' (ensure_lb_mangle_rule A f) ''mangle''
         (\<lambda>e. on ''chain'' ''prerouting'' e \<and> on ''action'' ''mark-connection'' e \<and>
            on ''new-connection-mark'' ''mikrolb-lb-connection'' e) mangle_rule,
       own ''failed to ensure LB connection chain rule'' (ensure_lb_connection_rule A f) ''nat''
         (\<lambda>e. on ''chain'' ''dstnat'' e \<and> on ''action'' ''jump'' e \<and> on ''jump-target'' lb_connection_chain e)
         connection_rule,
       own ''failed to ensure SNAT rule'' (ensure_snat_jump A f) ''nat''
         (\<lambda>e. on ''chain'' ''srcnat'' e \<and> on ''jump-target'' snat_chain e) snat_jump_rule])"

lemma setup_rules_ok:
  "request_ok mangle_rule" "request_ok accept_rule" "request_ok connection_rule" "request_ok snat_jump_rule"
  "f = IPv4 \<or> f = IPv6 \<Longrightarrow> request_ok (reject_rule (the (icmp_protocol f)))"
  by (auto simp: mangle_rule_def accept_rule_def connection_rule_def snat_jump_rule_def reject_rule_def
      icmp_protocol_def request_simps)

lemma not_ignored:
  "''dst-address-list'' \<notin> set ignored_firewall" "''connection-mark'' \<notin> set ignored_firewall"
  "''new-connection-mark'' \<notin> set ignored_firewall"
  by (simp_all add: ignored_firewall_def)

context rest_store begin

lemma setup_ensures:
  assumes f: "f = IPv4 \<or> f = IPv6" and x: "x \<in> set (setup_owners A f)"
  shows "ensures (ow_op x) (ow_path x) (ow_ignored x) (ow_sel x) (ow_reqs x)"
proof -
  have r: "ensure_lb_reject_rule A f = sync_rules A (table_path f ''filter'') [reject_rule (the (icmp_protocol f))]
      [(''chain'', ''input''), (''action'', ''reject''), (''dst-address-list'', lb_ips_list)] None None ignored_firewall"
    using f by (auto simp: ensure_lb_reject_rule_def icmp_protocol_def IPv4_def IPv6_def fun_eq_iff)
  show ?thesis
    using x unfolding setup_owners_def Let_def r ensure_lb_accept_rule_def ensure_lb_mangle_rule_def
      ensure_lb_connection_rule_def ensure_snat_jump_def
    by (auto; intro ensures_sync; use f in \<open>auto simp: table_paths setup_rules_ok exact_on ignored_facts not_ignored
        selects_none mangle_rule_def accept_rule_def connection_rule_def snat_jump_rule_def reject_rule_def
        request_simps\<close>)
qed

end

lemma setup_apart: "sorted_wrt apart (setup_owners A IPv4 @ setup_owners A IPv6)"
proof -
  have "sorted_wrt apart (setup_owners A f)" for f
    by (auto simp: setup_owners_def Let_def apart_def on_def)
  moreover have "ow_path x \<noteq> ow_path y" if "x \<in> set (setup_owners A IPv4)" "y \<in> set (setup_owners A IPv6)" for x y
    using that paths_distinct by (auto simp: setup_owners_def Let_def)
  ultimately show ?thesis by (auto simp: sorted_wrt_append apart_def)
qed

lemma setup_rules:
  assumes "rest_store (bk_api B) table good" "good s" "setup_router B s = (Inr u, s')"
  shows "(\<forall>f \<in> {IPv4, IPv6}. \<forall>x \<in> set (setup_owners (bk_api B) f).
      has_exactly ignored_firewall (ow_sel x) (ow_reqs x) (table s' (ow_path x))) \<and>
    (\<forall>p. mset (filter (\<lambda>e. \<forall>f \<in> {IPv4, IPv6}. \<forall>x \<in> set (setup_owners (bk_api B) f). ow_path x = p \<longrightarrow> \<not> ow_sel x e)
        (table s' p)) =
      mset (filter (\<lambda>e. \<forall>f \<in> {IPv4, IPv6}. \<forall>x \<in> set (setup_owners (bk_api B) f). ow_path x = p \<longrightarrow> \<not> ow_sel x e)
        (table s p)))"
proof -
  let ?xs = "setup_owners (bk_api B) IPv4 @ setup_owners (bk_api B) IPv6"
  have run: "run_tasks (map (\<lambda>x. (ow_text x, ow_op x)) ?xs) s = (Inr u, s')"
    using assms(3) by (simp add: setup_router_def setup_owners_def Let_def del: run_tasks.simps)
  have ens: "\<forall>x \<in> set ?xs. rest_store.ensures table good (ow_op x) (ow_path x) (ow_ignored x) (ow_sel x) (ow_reqs x)"
    using rest_store.setup_ensures [OF assms(1)] by auto
  note all = rest_store.run_owners [OF assms(1) ens setup_apart assms(2) run]
  have ign: "ow_ignored x = ignored_firewall" if "x \<in> set ?xs" for x
    using that by (auto simp: setup_owners_def Let_def)
  show ?thesis
  proof (intro conjI ballI allI)
    fix f x assume "f \<in> {IPv4, IPv6}" "x \<in> set (setup_owners (bk_api B) f)"
    then have x: "x \<in> set ?xs" by auto
    show "has_exactly ignored_firewall (ow_sel x) (ow_reqs x) (table s' (ow_path x))"
      using all x ign [OF x] by metis
  next
    fix p
    show "mset (filter (\<lambda>e. \<forall>f \<in> {IPv4, IPv6}. \<forall>x \<in> set (setup_owners (bk_api B) f). ow_path x = p \<longrightarrow> \<not> ow_sel x e)
          (table s' p)) =
        mset (filter (\<lambda>e. \<forall>f \<in> {IPv4, IPv6}. \<forall>x \<in> set (setup_owners (bk_api B) f). ow_path x = p \<longrightarrow> \<not> ow_sel x e)
          (table s p))"
      by (rule conjunct2 [OF conjunct2 [OF all], rule_format]) auto
  qed
qed

text \<open>C36: When \<open>Setup\<close> succeeds, each family has exactly one rule of each of the five kinds, the requested
  one, in its filter, mangle and NAT tables; every other rule and every other table is as before.\<close>

theorem setup_exact:
  assumes "rest_store (bk_api B) table good" "good s" "setup_router B s = (Inr u, s')"
  shows "(\<forall>f \<in> {IPv4, IPv6}. \<forall>x \<in> set (setup_owners (bk_api B) f).
      has_exactly ignored_firewall (ow_sel x) (ow_reqs x) (table s' (ow_path x))) \<and>
    (\<forall>p. mset (filter (\<lambda>e. \<forall>f \<in> {IPv4, IPv6}. \<forall>x \<in> set (setup_owners (bk_api B) f). ow_path x = p \<longrightarrow> \<not> ow_sel x e)
        (table s' p)) =
      mset (filter (\<lambda>e. \<forall>f \<in> {IPv4, IPv6}. \<forall>x \<in> set (setup_owners (bk_api B) f). ow_path x = p \<longrightarrow> \<not> ow_sel x e)
        (table s p)))"
  using assms by (rule setup_rules)

context reliable_store begin

lemma setup_succeeds:
  assumes B: "bk_api B = A" and s: "good s"
  shows "\<exists>s'. setup_router B s = (Inr (), s') \<and> good s'"
proof -
  have r: "ensure_lb_reject_rule A f = sync_rules A (table_path f ''filter'') [reject_rule (the (icmp_protocol f))]
      [(''chain'', ''input''), (''action'', ''reject''), (''dst-address-list'', lb_ips_list)] None None ignored_firewall"
    if "f = IPv4 \<or> f = IPv6" for f
    using that by (auto simp: ensure_lb_reject_rule_def icmp_protocol_def IPv4_def IPv6_def fun_eq_iff)
  have "succeeds (ensure_lb_reject_rule A f)" "succeeds (ensure_lb_accept_rule A f)" "succeeds (ensure_lb_mangle_rule A f)"
    "succeeds (ensure_lb_connection_rule A f)" "succeeds (ensure_snat_jump A f)" if f: "f = IPv4 \<or> f = IPv6" for f
    unfolding r [OF f] ensure_lb_accept_rule_def ensure_lb_mangle_rule_def ensure_lb_connection_rule_def
      ensure_snat_jump_def
    by (rule sync_rules_succeeds; simp add: table_paths [OF f] setup_rules_ok f ignored_facts)+
  then show ?thesis
    unfolding setup_router_def Let_def B by (intro run_succeeds [OF _ s]) auto
qed

end

theorem setup_exact_witness:
  "\<exists>m'. setup_router sample_env shared_router = (Inr (), m') \<and>
    has_exactly ignored_firewall (\<lambda>e. on ''chain'' ''srcnat'' e \<and> on ''jump-target'' snat_chain e) [snat_jump_rule]
      (mock_table m' (table_path IPv6 ''nat''))"
proof -
  have b: "rest_store (bk_api sample_env) mock_table mock_good" using mock.rest_store_axioms by simp
  obtain m' where r: "setup_router sample_env shared_router = (Inr (), m')"
    using mock.setup_succeeds [OF sample_env_api shared_router_good] by blast
  show ?thesis using conjunct1 [OF setup_exact [OF b shared_router_good r]] r by (auto simp: setup_owners_def Let_def)
qed

end
