(* ===== verification/Router_Address.thy ===== *)
theory Router_Address
  imports Router_Ensure Router_Props
begin

text \<open>
  The route search by which the interface of an address is found, the advertisement of addresses, and
  the rules that \<open>Setup\<close> installs.
\<close>

section \<open>The best route\<close>

text \<open>A route that may carry the address: active, with a destination that contains it and a gateway.\<close>

definition candidate :: "gjson \<Rightarrow> addr \<Rightarrow> json \<Rightarrow> route_match option" where
  "candidate G ip route =
     (case parse_prefix (get_string G route ''dst-address'') of
        None \<Rightarrow> None
      | Some dst \<Rightarrow>
          if get_string G route ''dst-address'' \<noteq> '''' \<and> get_bool G route ''active'' \<and>
             prefix_contains dst ip \<and> get_string G route ''immediate-gw'' \<noteq> ''''
          then Some \<lparr>rm_iface = gateway_interface (get_string G route ''immediate-gw''),
                 rm_metric = get_uint G route ''distance'', rm_dst = Some dst\<rparr>
          else None)"

definition candidates :: "gjson \<Rightarrow> addr \<Rightarrow> json list \<Rightarrow> route_match list" where
  "candidates G ip routes = List.map_filter (candidate G ip) routes"

text \<open>A longer prefix is preferred, then a lower distance.\<close>

definition match_bits :: "route_match \<Rightarrow> nat" where
  "match_bits m = (case rm_dst m of None \<Rightarrow> 0 | Some d \<Rightarrow> prefix_bits d)"

definition preferred :: "route_match \<Rightarrow> route_match \<Rightarrow> bool" where
  "preferred m n \<longleftrightarrow> match_bits n < match_bits m \<or> match_bits m = match_bits n \<and> rm_metric m < rm_metric n"

definition first_best :: "route_match list \<Rightarrow> route_match \<Rightarrow> bool" where
  "first_best ms m \<longleftrightarrow> (\<exists>i < length ms. m = ms ! i \<and> (\<forall>j < length ms. \<not> preferred (ms ! j) m) \<and>
     (\<forall>j < i. preferred m (ms ! j)))"

lemma try_route_candidate:
  "try_route G ip m route = (case candidate G ip route of
     None \<Rightarrow> m
   | Some c \<Rightarrow> if rm_dst m = None \<or> preferred c m then c else m)"
  by (auto simp: try_route_def candidate_def better_route_def preferred_def match_bits_def not_less
      split: option.splits)

lemma candidate_dst: "candidate G ip route = Some c \<Longrightarrow> rm_dst c \<noteq> None"
  by (auto simp: candidate_def split: option.splits if_splits)

lemma candidates_dst: "c \<in> set (candidates G ip routes) \<Longrightarrow> rm_dst c \<noteq> None"
  using candidate_dst by (auto simp: candidates_def List.map_filter_def)

lemma first_best_snoc:
  assumes "first_best ms m"
  shows "first_best (ms @ [c]) (if preferred c m then c else m)"
proof -
  obtain i where i: "i < length ms" "m = ms ! i" "\<forall>j < length ms. \<not> preferred (ms ! j) m"
    "\<forall>j < i. preferred m (ms ! j)" using assms by (auto simp: first_best_def)
  have trans: "preferred c m \<Longrightarrow> \<not> preferred x m \<Longrightarrow> preferred c x" for x
    by (auto simp: preferred_def)
  have irr: "\<not> preferred c c" by (simp add: preferred_def)
  show ?thesis
  proof (cases "preferred c m")
    case True
    have all: "preferred c (ms ! j)" if "j < length ms" for j using trans [OF True] i(3) that by blast
    have asym: "preferred c x \<Longrightarrow> \<not> preferred x c" for x by (auto simp: preferred_def)
    show ?thesis
      using True all asym irr unfolding first_best_def
      by (auto intro!: exI [of _ "length ms"] simp: nth_append less_Suc_eq)
  next
    case False
    then show ?thesis
      using i unfolding first_best_def by (auto intro!: exI [of _ i] simp: nth_append less_Suc_eq)
  qed
qed

lemma route_search:
  "let cs = candidates G ip routes; m = foldl (try_route G ip) no_match routes in
     if cs = [] then m = no_match else first_best cs m"
proof (induction routes rule: rev_induct)
  case Nil
  then show ?case by (simp add: candidates_def map_filter_simps Let_def)
next
  case (snoc r routes)
  let ?cs = "candidates G ip routes" and ?m = "foldl (try_route G ip) no_match routes"
  have step: "candidates G ip (routes @ [r]) = ?cs @ (case candidate G ip r of None \<Rightarrow> [] | Some c \<Rightarrow> [c])"
    by (auto simp: candidates_def List.map_filter_def split: option.splits)
  have last: "foldl (try_route G ip) no_match (routes @ [r]) = (case candidate G ip r of None \<Rightarrow> ?m
      | Some c \<Rightarrow> if rm_dst ?m = None \<or> preferred c ?m then c else ?m)"
    using try_route_candidate [of G ip ?m r] by simp
  show ?case
  proof (cases "candidate G ip r")
    case None
    then show ?thesis using snoc by (simp add: step last Let_def del: foldl_append)
  next
    case (Some c)
    show ?thesis
    proof (cases "?cs = []")
      case True
      then have "rm_dst ?m = None" using snoc by (simp add: Let_def no_match_def)
      then show ?thesis
        using True Some by (simp add: step last first_best_def preferred_def Let_def del: foldl_append)
    next
      case False
      then have b: "first_best ?cs ?m" using snoc by (simp add: Let_def)
      then have "rm_dst ?m \<noteq> None" using candidates_dst [of ?m G ip routes] by (auto simp: first_best_def)
      then show ?thesis using first_best_snoc [OF b, of c] Some by (auto simp: step last Let_def simp del: foldl_append split: if_splits)
    qed
  qed
qed

text \<open>C34: The interface of an address is the one of the first best route: among the active routes with a
  gateway whose destination contains the address none has a longer prefix, or the same prefix length and
  a lower distance, and it is the first of its kind. When there is none the search fails, and it
  changes nothing.\<close>

theorem determine_interface_best:
  assumes "api_get A ''/routing/route'' [] s = (Inr resp, s')"
  shows "(let cs = candidates (api_gjson A) ip (gj_array (api_gjson A) resp) in
    if cs = [] then determine_interface A ip s = (Inl (Plain ''no matching route found''), s')
    else \<exists>m. first_best cs m \<and> determine_interface A ip s =
      (if rm_iface m = '''' then (Inl (Plain ''no matching route found''), s') else (Inr (rm_iface m), s')))"
  using route_search [of "api_gjson A" ip "gj_array (api_gjson A) resp"] assms
  by (auto simp: determine_interface_def and_then_def wrap_def Let_def no_match_def split: if_splits)

definition route :: "string \<Rightarrow> string \<Rightarrow> nat \<Rightarrow> jobject" where
  "route dst gw dist = [(''dst-address'', JStr dst), (''active'', JStr ''true''), (''immediate-gw'', JStr gw),
     (''distance'', JStr (dec dist))]"

definition routed :: mock where
  "routed = seed ''/routing/route'' [route ''0.0.0.0/0'' ''192.168.1.1%ether1'' 1, route ''10.0.0.0/8'' ''vlan1'' 10,
     route ''10.0.0.0/8'' ''10.9.9.9%vlan2'' 5, route ''10.1.0.0/16'' ''vlan3'' 1] new_mock"

theorem determine_interface_best_witness:
  "\<exists>m'. determine_interface (mock_api plain_gjson local_client) (Addr4 0x0A000001) routed = (Inr ''vlan2'', m')"
proof -
  let ?A = "mock_api plain_gjson local_client" and ?ip = "Addr4 0x0A000001"
  have "\<forall>r \<in> set [route ''0.0.0.0/0'' ''192.168.1.1%ether1'' 1, route ''10.0.0.0/8'' ''vlan1'' 10,
     route ''10.0.0.0/8'' ''10.9.9.9%vlan2'' 5, route ''10.1.0.0/16'' ''vlan3'' 1]. request_ok r" by code_simp
  then have good: "mock_good routed" unfolding routed_def by (intro mock_good_seed mock_good_new)
  have p: "plain_path ''/routing/route''" by code_simp
  obtain resp m' where g: "api_get ?A ''/routing/route'' [] routed = (Inr resp, m')"
    using mock.get_succeeds [OF good p] by fastforce
  then have "gj_array plain_gjson resp = map (\<lambda>e. JObj (snd e)) (mock_table routed ''/routing/route'')"
    using mock.get_law [OF good p _ g] gjson_okD [OF gjson_ok_plain] by (simp add: query_matches_def)
  moreover have "candidates plain_gjson ?ip (map (\<lambda>e. JObj (snd e)) (mock_table routed ''/routing/route'')) =
      [\<lparr>rm_iface = ''ether1'', rm_metric = 1, rm_dst = Some (Prefix (Addr4 0) 0)\<rparr>,
       \<lparr>rm_iface = ''vlan1'', rm_metric = 10, rm_dst = Some (Prefix (Addr4 0x0A000000) 8)\<rparr>,
       \<lparr>rm_iface = ''vlan2'', rm_metric = 5, rm_dst = Some (Prefix (Addr4 0x0A000000) 8)\<rparr>]" (is "_ = ?cs")
    by code_simp
  ultimately obtain m where m: "first_best ?cs m" "determine_interface ?A ?ip routed =
      (if rm_iface m = '''' then (Inl (Plain ''no matching route found''), m') else (Inr (rm_iface m), m'))"
    using determine_interface_best [OF g, of ?ip] by (auto simp: mock_api_def Let_def)
  have "\<forall>i < 3. (\<forall>j < 3. \<not> preferred (?cs ! j) (?cs ! i)) \<longrightarrow> rm_iface (?cs ! i) = ''vlan2''"
    by code_simp
  then have "rm_iface m = ''vlan2''" using m(1) by (auto simp: first_best_def simp del: nth_Cons_Suc nth_Cons_0)
  then show ?thesis using m(2) by simp
qed

section \<open>Advertising\<close>

lemma plain_paths:
  "plain_path ''/user''" "plain_path ''/user/group''" "plain_path ''/system/device-mode''" "plain_path ''/interface''"
  "plain_path ''/routing/route''" "plain_path ''/ip/address''" "plain_path ''/ipv6/address''"
  by code_simp+

lemma address_path_plain: "plain_path (address_path ip)"
  by (simp add: address_path_def plain_paths)

definition address_entry :: "addr \<Rightarrow> entry \<Rightarrow> bool" where
  "address_entry ip = on ''address'' (addr_string ip @ address_mask ip)"

text \<open>The entries that the removal of an advertisement removes.\<close>

definition advertises :: "addr \<Rightarrow> entry \<Rightarrow> bool" where
  "advertises ip e \<longleftrightarrow> has_prefix ''mikrolb:'' (shown (snd e) ''comment'') \<and>
     has_prefix (addr_string ip @ ''/'') (shown (snd e) ''address'')"

lemma advertisement_ok:
  "request_ok (advertisement ip msk iface)" "field_text (advertisement ip msk iface) ''address'' = addr_string ip @ msk"
  by (auto simp: advertisement_def request_simps)

lemma ignored_address_facts: "id_key \<in> set ignored_address" "''address'' \<notin> set ignored_address"
  by (simp_all add: ignored_address_def id_key_def)

context rest_store begin

lemma advertise_ensures:
  "ensures (advertise A ip iface) (address_path ip) ignored_address (address_entry ip)
     [advertisement ip (address_mask ip) iface]"
  unfolding advertise_def
  by (rule ensures_sync)
    (auto simp: address_path_plain advertisement_ok exact_on ignored_address_facts address_entry_def
      selects_none)

lemma get_frame:
  "good s \<Longrightarrow> plain_path p \<Longrightarrow> distinct (map fst q) \<Longrightarrow> api_get A p q s = (Inr j, s') \<Longrightarrow> good s' \<and> table s' = table s"
  using get_law by blast

lemma and_then_Inr: "and_then r f = (Inr b, s') \<longleftrightarrow> (\<exists>a s1. r = (Inr a, s1) \<and> f a s1 = (Inr b, s'))"
  by (auto simp: and_then_def split: prod.splits sum.splits)

lemma policies_frame:
  assumes "good s" "policies A timeout now later pc s = (Inr ps, pc', s')"
  shows "good s' \<and> table s' = table s"
proof (cases "now - pc_at pc < timeout \<and> pc_value pc \<noteq> None")
  case True
  then show ?thesis using assms by (auto simp: policies_def)
next
  case False
  then obtain resp s1 resp2 where g: "api_get A ''/user'' [(''name'', cl_username (api_client A))] s = (Inr resp, s1)"
    "api_get A ''/user/group'' [(''name'', get_string (api_gjson A) resp ''0.group'')] s1 = (Inr resp2, s')"
    using assms(2) by (auto simp: policies_def wrap_def Let_def split: prod.splits sum.splits if_splits)
  have "good s1 \<and> table s1 = table s" using get_frame [OF assms(1) plain_paths(1) _ g(1)] by simp
  then show ?thesis using get_frame [OF _ plain_paths(2) _ g(2)] by simp
qed

text \<open>The injection of a packet is a command and leaves the tables alone.\<close>

definition post_quiet :: bool where
  "post_quiet \<longleftrightarrow> (\<forall>s req r s'. good s \<longrightarrow>
     api_post A ''/tool/traffic-generator/inject'' req [] [] s = (r, s') \<longrightarrow> good s' \<and> table s' = table s)"

lemma inject_frame:
  assumes "post_quiet" "good s" "bk_api B = A" "inject B ip iface s = (Inr u, s')"
  shows "good s' \<and> table s' = table s"
proof -
  obtain mode s1 where g: "api_get A ''/system/device-mode'' [] s = (Inr mode, s1)"
    using assms(3,4) by (auto simp: inject_def Let_def and_then_Inr wrap_Inr)
  have s1: "good s1 \<and> table s1 = table s" using get_frame [OF assms(2) plain_paths(3) _ g] by simp
  show ?thesis
  proof (cases "get_bool (api_gjson A) mode ''traffic-gen''")
    case False
    then show ?thesis using assms(3,4) g s1 by (auto simp: inject_def Let_def and_then_def wrap_def)
  next
    case True
    then obtain resp s2 req j where i: "api_get A ''/interface'' [(''name'', iface)] s1 = (Inr resp, s2)"
      "api_post A ''/tool/traffic-generator/inject'' req [] [] s2 = (Inr j, s')"
      using assms(3,4) g by (auto simp: inject_def Let_def and_then_Inr wrap_Inr split: if_splits option.splits sum.splits)
    have "good s2 \<and> table s2 = table s" using get_frame [OF conjunct1 [OF s1] plain_paths(4) _ i(1)] s1 by simp
    then show ?thesis using assms(1) i(2) unfolding post_quiet_def by metis
  qed
qed

lemma trigger_frame:
  assumes "post_quiet" "good s" "bk_api B = A" "trigger_gratuitous B ip iface pc s = (Inr u, pc', s')"
  shows "good s' \<and> table s' = table s"
proof -
  obtain ps pc1 s1 where p: "policies A (bk_timeout B) (bk_now B) (bk_later B) pc s = (Inr ps, pc1, s1)"
    using assms(3,4) by (auto simp: trigger_gratuitous_def split: prod.splits sum.splits)
  have s1: "good s1 \<and> table s1 = table s" using policies_frame [OF assms(2) p] .
  show ?thesis
  proof (cases "''sniff'' \<in> set ps \<and> ''test'' \<in> set ps")
    case False
    then show ?thesis using assms(3,4) p s1 by (auto simp: trigger_gratuitous_def)
  next
    case True
    then have "inject B ip iface s1 = (Inr u, s')"
      using assms(3,4) p by (auto simp: trigger_gratuitous_def split: prod.splits)
    then show ?thesis using inject_frame [OF assms(1) conjunct1 [OF s1] assms(3)] s1 by simp
  qed
qed

lemma advertisement_ensured:
  assumes "post_quiet" "good s" "bk_api B = A" "ensure_ip_advertisement B ip wanted pc s = (Inr iface, pc', s')"
  shows "touches (address_path ip) (address_entry ip) s s' \<and>
    has_exactly ignored_address (address_entry ip) [advertisement ip (address_mask ip) iface]
      (table s' (address_path ip)) \<and>
    (if wanted = '''' then \<exists>s1. determine_interface A ip s = (Inr iface, s1) else iface = wanted)"
proof -
  obtain s1 s2 where d: "(if wanted = '''' then wrap ''failed to automatically determine interface''
      (determine_interface A ip s) else (Inr wanted, s)) = (Inr iface, s1)"
    and a: "advertise A ip iface s1 = (Inr (), s2)" and t: "trigger_gratuitous B ip iface pc s2 = (Inr (), pc', s')"
    using assms(3,4) by (auto simp: ensure_ip_advertisement_def split: prod.splits sum.splits)
  have s1: "good s1 \<and> table s1 = table s"
  proof (cases "wanted = ''''")
    case True
    then obtain resp where g: "api_get A ''/routing/route'' [] s = (Inr resp, s1)"
      using d by (auto simp: wrap_Inr determine_interface_def and_then_Inr Let_def split: if_splits)
    show ?thesis using get_frame [OF assms(2) plain_paths(5) _ g] by simp
  next
    case False
    then show ?thesis using d assms(2) by simp
  qed
  have e: "touches (address_path ip) (address_entry ip) s1 s2 \<and>
      has_exactly ignored_address (address_entry ip) [advertisement ip (address_mask ip) iface]
        (table s2 (address_path ip))"
    using advertise_ensures s1 a unfolding ensures_def by blast
  have "good s' \<and> table s' = table s2"
    using trigger_frame [OF assms(1) _ assms(3) t] e by (simp add: touches_def)
  then show ?thesis using e s1 d by (auto simp: touches_def wrap_Inr split: if_splits)
qed

lemma advertisement_removed:
  assumes "good s" "bk_api B = A" "delete_ip_advertisement B ip s = (Inr u, s')"
  shows "touches (address_path ip) (advertises ip) s s' \<and> (\<forall>e \<in> set (table s' (address_path ip)). \<not> advertises ip e)"
proof -
  have "ensures (sync_rules A (address_path ip) [] [] (Some (\<lambda>j. has_prefix ''mikrolb:'' (text_of A ''comment'' j) \<and>
          has_prefix (addr_string ip @ ''/'') (text_of A ''address'' j))) None []) (address_path ip) [] (advertises ip) []"
    if "True"
  proof (rule ensures_sync)
    fix s e assume e: "good s" "e \<in> set (table s (address_path ip))"
    have "keys_ok (snd e)" using entry_ok [OF e(1), of "fst e" "snd e"] e(2) by (simp add: entry_ok_def)
    then show "selects [] (keeps (Some (\<lambda>j. has_prefix ''mikrolb:'' (text_of A ''comment'' j) \<and>
          has_prefix (addr_string ip @ ''/'') (text_of A ''address'' j)))) e = advertises ip e"
      by (simp add: selects_def keeps_def query_matches_def advertises_def get_string_shown [OF gjson])
  qed (simp_all add: address_path_plain)
  then show ?thesis
    using assms unfolding delete_ip_advertisement_def ensures_def Let_def has_exactly_Nil by blast
qed

end

text \<open>C35: When \<open>EnsureIPAdvertisement\<close> succeeds, the address table has exactly one entry for the address,
  the requested one on the interface that the caller named or the route search found; every other
  entry is as before. The injection of the packet, a command, is supposed to change no table.\<close>

theorem advertisement_exact:
  assumes "rest_store (bk_api B) table good" "good s"
    and "\<And>s req r s'. good s \<Longrightarrow> api_post (bk_api B) ''/tool/traffic-generator/inject'' req [] [] s = (r, s') \<Longrightarrow>
      good s' \<and> table s' = table s"
    and "ensure_ip_advertisement B ip wanted pc s = (Inr iface, pc', s')"
  shows "has_exactly ignored_address (address_entry ip) [advertisement ip (address_mask ip) iface]
      (table s' (address_path ip)) \<and>
    mset (filter (\<lambda>e. \<not> address_entry ip e) (table s' (address_path ip))) =
      mset (filter (\<lambda>e. \<not> address_entry ip e) (table s (address_path ip))) \<and>
    (\<forall>p. p \<noteq> address_path ip \<longrightarrow> table s' p = table s p) \<and>
    (if wanted = '''' then \<exists>s1. determine_interface (bk_api B) ip s = (Inr iface, s1) else iface = wanted)"
proof -
  have "rest_store.post_quiet (bk_api B) table good"
    unfolding rest_store.post_quiet_def [OF assms(1)] using assms(3) by blast
  from rest_store.advertisement_ensured [OF assms(1) this assms(2) refl assms(4)] show ?thesis
    by (simp add: rest_store.touches_def [OF assms(1)])
qed

lemma mock_post_quiet:
  assumes "mock_good m" "api_post (mock_api plain_gjson local_client) ''/tool/traffic-generator/inject'' req [] [] m = (r, m')"
  shows "mock_good m' \<and> mock_table m' = mock_table m"
proof -
  have t: "target_ok ''/tool/traffic-generator/inject''" by code_simp
  have q: "mock_good (snd (handle_post path b m)) \<and> mock_table (snd (handle_post path b m)) = mock_table m" for path b
    using assms(1) by (cases "decode_body b") (auto simp: handle_post_def Let_def)
  have "m' = snd (handler (request_of local_client ''POST'' ''/tool/traffic-generator/inject'' (Some (JObj req)) []) m)"
    using assms(2) do_request_mock [OF local_client_ok t] by (auto simp: api_post_def Let_def split: prod.splits)
  then show ?thesis using q by (simp add: handler_def request_of_def Let_def)
qed

theorem advertisement_exact_witness:
  "\<exists>pc' m'. ensure_ip_advertisement (sample_env\<lparr>bk_timeout := 1\<rparr>) (Addr4 0xC6336401) ''ether1''
      \<lparr>pc_value = Some [''read'', ''write''], pc_at = 0\<rparr> shared_router = (Inr ''ether1'', pc', m') \<and>
    has_exactly ignored_address (address_entry (Addr4 0xC6336401))
      [texts [(''interface'', ''ether1''), (''address'', ''198.51.100.1/32''),
         (''comment'', ''mikrolb: IP advertisement'')] @ [(''disabled'', JBool False)]]
      (mock_table m' ''/ip/address'')"
proof -
  let ?B = "sample_env\<lparr>bk_timeout := 1\<rparr>" and ?ip = "Addr4 0xC6336401"
  let ?r = "ensure_ip_advertisement ?B ?ip ''ether1'' \<lparr>pc_value = Some [''read'', ''write''], pc_at = 0\<rparr> shared_router"
  have "fst ?r = Inr ''ether1''" by code_simp
  then obtain pc' m' where r: "?r = (Inr ''ether1'', pc', m')" by (cases ?r) auto
  have b: "rest_store (bk_api ?B) mock_table mock_good" using mock.rest_store_axioms by simp
  have a: "address_path ?ip = ''/ip/address''" "advertisement ?ip (address_mask ?ip) ''ether1'' =
      texts [(''interface'', ''ether1''), (''address'', ''198.51.100.1/32''),
         (''comment'', ''mikrolb: IP advertisement'')] @ [(''disabled'', JBool False)]"
    by code_simp+
  have q: "\<And>s req r s'. mock_good s \<Longrightarrow> api_post (bk_api ?B) ''/tool/traffic-generator/inject'' req [] [] s = (r, s') \<Longrightarrow>
      mock_good s' \<and> mock_table s' = mock_table s"
    using mock_post_quiet by simp
  from conjunct1 [OF advertisement_exact [OF b shared_router_good q r], unfolded a] r show ?thesis
    by (intro exI conjI)
qed

text \<open>When \<open>DeleteIPAdvertisement\<close> succeeds, the entries of the controller for the address are gone
  and nothing else has changed.\<close>

theorem advertisement_removed_exact:
  assumes "rest_store (bk_api B) table good" "good s" "delete_ip_advertisement B ip s = (Inr u, s')"
  shows "mset (table s' (address_path ip)) =
      mset (filter (\<lambda>e. \<not> advertises ip e) (table s (address_path ip))) \<and>
    (\<forall>p. p \<noteq> address_path ip \<longrightarrow> table s' p = table s p)"
proof -
  note t = rest_store.advertisement_removed [OF assms(1,2) refl assms(3)]
  then have "filter (\<lambda>e. \<not> advertises ip e) (table s' (address_path ip)) = table s' (address_path ip)"
    by (auto simp: filter_id_conv)
  then show ?thesis using t unfolding rest_store.touches_def [OF assms(1)] by metis
qed

theorem advertisement_removed_exact_witness:
  "\<exists>m'. delete_ip_advertisement sample_env (Addr4 0xC6336401) shared_router = (Inr (), m') \<and>
    mock_table m' (table_path IPv4 ''nat'') = mock_table shared_router (table_path IPv4 ''nat'')"
proof -
  have b: "rest_store (bk_api sample_env) mock_table mock_good" using mock.rest_store_axioms by simp
  have "fst (delete_ip_advertisement sample_env (Addr4 0xC6336401) shared_router) = Inr ()" by code_simp
  then obtain m' where r: "delete_ip_advertisement sample_env (Addr4 0xC6336401) shared_router = (Inr (), m')"
    by (metis prod.collapse)
  have "table_path IPv4 ''nat'' \<noteq> address_path (Addr4 0xC6336401)" by code_simp
  then show ?thesis using advertisement_removed_exact [OF b shared_router_good r] r by blast
qed

end
