(* ===== verification/Service_Cluster.thy ===== *)
theory Service_Cluster
  imports Service_Props Allocation_Protocol
begin

text \<open>
  The service reconciler on top of the allocations: it reads the allocations of its service
  from the API server itself, by label, so what holds of the stored allocations of a reachable
  cluster holds of the addresses it has the router programmed with.
\<close>

section \<open>Addresses of services\<close>

text \<open>The addresses of a service handed to the backend.\<close>

definition service_holds :: "service \<Rightarrow> addr set" where
  "service_holds t = {ip. is_valid ip \<and> (ip \<in> set (lb_ips t) \<or> ip = snat_ipv4 t \<or> ip = snat_ipv6 t)}"

text \<open>A list with a label selector, as documented: the stored objects that carry the label.\<close>

definition direct_list :: "cluster \<Rightarrow> k8s_service \<Rightarrow> ip_allocation list \<Rightarrow> bool" where
  "direct_list s svc allocs \<longleftrightarrow>
     set allocs = {a \<in> ran (cl_api s). obj_labels (alloc_meta a) label_uid = Some (obj_uid (ks_meta svc))}"

lemma usable_parses: "usable_address K expected a = Some ip \<Longrightarrow> parse_addr (st_address (alloc_status a)) = Some ip"
  by (auto simp: usable_address_def split: if_splits option.splits)

lemma greatest_snat_mem: "greatest_snat P ips a \<Longrightarrow> is_valid a \<Longrightarrow> a \<in> set ips"
  by (auto simp: greatest_snat_def is_valid_def split: if_splits)

lemma in_map_filter: "y \<in> set (List.map_filter f xs) \<Longrightarrow> \<exists>x \<in> set xs. f x = Some y"
  by (induction xs) (auto simp: List.map_filter_def split: if_splits)

lemma ensured_from_allocation:
  assumes "EnsureService t \<in> set (snd (reconcile_configured K cfg sha dns_ok env svc))"
    and "sv_allocs env = Inr allocs" "ip \<in> service_holds t"
  shows "\<exists>a \<in> set allocs. parse_addr (st_address (alloc_status a)) = Some ip"
proof -
  let ?ips = "List.map_filter (usable_address K (expected_by sha dns_ok cfg svc)) allocs"
  obtain slices where t: "t = core_service svc (wanted_by dns_ok cfg svc) (collected_by K cfg sha dns_ok svc allocs)
      (concat (map (slice_endpoints (ports_by_name (ks_ports svc))) slices))"
    using configured_ensure [OF assms(1)] assms(2) by (metis Inr_inject)
  have "collected cfg (wanted_by dns_ok cfg svc) (ks_families svc) ?ips (collected_by K cfg sha dns_ok svc allocs)"
    by (rule collect_from_none)
  then have "ip \<in> set ?ips"
    using assms(3) greatest_snat_mem by (auto simp: t service_holds_def core_service_def collected_def)
  from in_map_filter [OF this] show ?thesis using usable_parses by fast
qed

lemma parsed_once:
  assumes "cluster_inv fc s" "cl_api s n = Some a" "cl_api s m = Some b" "active a" "active b"
    and "parse_addr (st_address (alloc_status a)) = Some ip" "parse_addr (st_address (alloc_status b)) = Some ip"
  shows "n = m"
proof -
  have "claims fc c ip" if "seen s l c" "parse_addr (st_address (alloc_status c)) = Some ip" for l c
  proof -
    have "sound fc (cl_clock s) c" "st_address (alloc_status c) \<noteq> ''''"
      using cluster_invD(3) [OF assms(1) that(1)] that(2) by auto
    then obtain x t where "alloc_time_of fc c = Some (x, t)" by (auto simp: sound_def)
    then show ?thesis using claim_parse [of fc c x t] that(2) by simp
  qed
  then have "holder fc s n ip" "holder fc s m ip"
    using assms(2-7) unfolding holder_def by (auto simp: seen_def)
  then show ?thesis using cluster_invD(7) [OF assms(1)] by blast
qed

text \<open>C2: One address, one service: in every reachable cluster where each allocation reconcile sees
  its own object as stored and no finally released allocation lingers, the services that two
  service reconciles hand to the backend share no load balancer and no source NAT address.\<close>

theorem one_service_per_address:
  assumes "reachable fc True s" "\<forall>a \<in> ran (cl_api s). active a"
    and "sv_allocs env1 = Inr as1" "direct_list s svc1 as1" "sv_allocs env2 = Inr as2" "direct_list s svc2 as2"
    and "obj_uid (ks_meta svc1) \<noteq> obj_uid (ks_meta svc2)"
    and "EnsureService t1 \<in> set (snd (reconcile_configured K cfg sha dns_ok env1 svc1))"
    and "EnsureService t2 \<in> set (snd (reconcile_configured K cfg sha dns_ok env2 svc2))"
  shows "service_holds t1 \<inter> service_holds t2 = {}"
proof (rule ccontr)
  assume "service_holds t1 \<inter> service_holds t2 \<noteq> {}"
  then obtain ip where ip: "ip \<in> service_holds t1" "ip \<in> service_holds t2" by blast
  obtain a b where a: "a \<in> set as1" "parse_addr (st_address (alloc_status a)) = Some ip"
    and b: "b \<in> set as2" "parse_addr (st_address (alloc_status b)) = Some ip"
    using ensured_from_allocation [OF assms(8,3) ip(1)] ensured_from_allocation [OF assms(9,5) ip(2)] by blast
  have ran: "a \<in> ran (cl_api s)" "b \<in> ran (cl_api s)"
    and labels: "obj_labels (alloc_meta a) label_uid \<noteq> obj_labels (alloc_meta b) label_uid"
    using a(1) b(1) assms(4,6,7) by (simp_all add: direct_list_def)
  obtain n m where nm: "cl_api s n = Some a" "cl_api s m = Some b" using ran by (auto simp: ran_def)
  have "n = m"
    using parsed_once [OF reachable_inv [OF assms(1)] nm _ _ a(2) b(2)] assms(2) ran by blast
  then show False using nm labels by simp
qed

section \<open>Two services\<close>

definition second_service :: k8s_service where
  "second_service = (sample_service Map.empty)\<lparr>ks_meta :=
     (ks_meta (sample_service Map.empty))\<lparr>obj_name := ''shop'', obj_uid := ''u2''\<rparr>\<rparr>"

definition text_hash :: "string \<Rightarrow> byte list" where
  "text_hash t = map (\<lambda>c. of_nat (of_char c)) (take 6 t)"

text \<open>The stored allocation that a service creates first.\<close>

definition created_alloc :: "k8s_service \<Rightarrow> ip_allocation" where
  "created_alloc svc =
     (let a = new_allocation (ks_meta svc) (hd (expected_by text_hash (\<lambda>_. True) sample_config svc)) in
      a\<lparr>alloc_meta := (alloc_meta a)\<lparr>obj_uid := obj_uid (ks_meta svc), obj_finalizers := [finalizer_name]\<rparr>\<rparr>)"

definition two_services :: cluster where
  "two_services = two_run (created_alloc (sample_service Map.empty)) (created_alloc second_service)"

definition held_by :: "k8s_service \<Rightarrow> ip_allocation" where
  "held_by svc = the (cl_api two_services (alloc_name (created_alloc svc)))"

lemma two_services_new: "two_new (created_alloc (sample_service Map.empty)) (created_alloc second_service)"
  by code_simp

lemma two_services_state:
  "list_all (\<lambda>svc. case cl_api two_services (alloc_name (created_alloc svc)) of None \<Rightarrow> False
     | Some a \<Rightarrow> active a \<and> obj_labels (alloc_meta a) label_uid = Some (obj_uid (ks_meta svc)))
   [sample_service Map.empty, second_service]"
  by code_simp

lemma two_run_names:
  "cl_api (two_run x y) m \<noteq> None \<Longrightarrow> m = alloc_name x \<or> m = alloc_name y"
proof (rule ccontr)
  assume some: "cl_api (two_run x y) m \<noteq> None" and "\<not> (m = alloc_name x \<or> m = alloc_name y)"
  then have "m \<noteq> alloc_name x" "m \<noteq> alloc_name y" by simp_all
  then have "cl_api (two_run x y) m = None"
    by (simp add: two_run_def Let_def after_reconcile_other(3) start_with_def stored_two)
  then show False using some by simp
qed

abbreviation first_service :: k8s_service where "first_service \<equiv> sample_service Map.empty"

lemma two_services_ran: "ran (cl_api two_services) = {held_by first_service, held_by second_service}"
proof -
  have some: "cl_api two_services (alloc_name (created_alloc svc)) = Some (held_by svc)"
    if "svc \<in> {first_service, second_service}" for svc
    using two_services_state that by (auto simp: held_by_def split: option.splits)
  have "a \<in> {held_by first_service, held_by second_service}" if a: "cl_api two_services m = Some a" for m a
  proof -
    have "m = alloc_name (created_alloc first_service) \<or> m = alloc_name (created_alloc second_service)"
      using a two_run_names [of "created_alloc first_service" "created_alloc second_service" m]
      by (simp add: two_services_def)
    then show ?thesis using a some [of first_service] some [of second_service] by fastforce
  qed
  then have "ran (cl_api two_services) \<subseteq> {held_by first_service, held_by second_service}"
    by (auto simp: ran_def)
  moreover have "{held_by first_service, held_by second_service} \<subseteq> ran (cl_api two_services)"
    using some [of first_service] some [of second_service] by (auto intro: ranI)
  ultimately show ?thesis by (rule subset_antisym)
qed

lemma held_by_facts:
  assumes "svc \<in> {first_service, second_service}"
  shows "active (held_by svc)" "obj_labels (alloc_meta (held_by svc)) label_uid = Some (obj_uid (ks_meta svc))"
  using two_services_state assms by (auto simp: held_by_def split: option.splits)

lemma services_apart: "obj_uid (ks_meta first_service) \<noteq> obj_uid (ks_meta second_service)"
  by (simp add: second_service_def sample_service_def)

lemma held_listed:
  assumes "svc \<in> {first_service, second_service}"
  shows "direct_list two_services svc [held_by svc]"
  using held_by_facts [of first_service] held_by_facts [of second_service] services_apart assms
  by (auto simp: direct_list_def two_services_ran)

definition services_run :: "k8s_service \<Rightarrow> svc_call list" where
  "services_run svc = snd (reconcile_configured (stamped_kube 3) sample_config text_hash (\<lambda>_. True)
     (quiet_svc_env svc [held_by svc] []) svc)"

definition ensured_ips :: "svc_call list \<Rightarrow> addr list option" where
  "ensured_ips calls = (case calls of [PatchIngress i, EnsureService t] \<Rightarrow> Some (lb_ips t) | _ \<Rightarrow> None)"

lemma services_run_ips:
  "ensured_ips (services_run first_service) = Some [Addr4 0x0a000001]"
  "ensured_ips (services_run second_service) = Some [Addr4 0x0a000002]"
  by code_simp+

lemma ensured_ips_call: "ensured_ips calls = Some ips \<Longrightarrow> \<exists>t. EnsureService t \<in> set calls \<and> lb_ips t = ips"
  by (auto simp: ensured_ips_def split: list.splits svc_call.splits)

theorem one_service_per_address_witness:
  "\<exists>t1 t2. EnsureService t1 \<in> set (services_run first_service) \<and>
     EnsureService t2 \<in> set (services_run second_service) \<and>
     lb_ips t1 = [Addr4 0x0a000001] \<and> lb_ips t2 = [Addr4 0x0a000002] \<and>
     service_holds t1 \<inter> service_holds t2 = {}"
proof -
  obtain t1 t2 where t: "EnsureService t1 \<in> set (services_run first_service)" "lb_ips t1 = [Addr4 0x0a000001]"
    "EnsureService t2 \<in> set (services_run second_service)" "lb_ips t2 = [Addr4 0x0a000002]"
    using ensured_ips_call services_run_ips by metis
  have "reachable first_of_type True two_services"
    unfolding two_services_def by (rule two_run_reachable [OF two_services_new])
  moreover have "\<forall>a \<in> ran (cl_api two_services). active a"
    unfolding two_services_ran using held_by_facts(1) by simp
  moreover have "sv_allocs (quiet_svc_env first_service [held_by first_service] []) = Inr [held_by first_service]"
    "sv_allocs (quiet_svc_env second_service [held_by second_service] []) = Inr [held_by second_service]"
    by (simp_all add: quiet_svc_env_def)
  moreover have "direct_list two_services first_service [held_by first_service]"
    "direct_list two_services second_service [held_by second_service]"
    by (simp_all add: held_listed)
  ultimately have "service_holds t1 \<inter> service_holds t2 = {}"
    using one_service_per_address [OF _ _ _ _ _ _ services_apart
        t(1) [unfolded services_run_def] t(3) [unfolded services_run_def]] by blast
  then show ?thesis using t by blast
qed

end
