(* ===== verification/Main_Program.thy ===== *)
theory Main_Program
  imports Router_Setup Service_Reconciler
begin

text \<open>
  \<open>cmd/mikrolb-controller/main.go\<close>, \<open>internal/core/config.go\<close> and the functions that attach the
  controllers: the configuration, the client and backend built from it, the check and the setup
  of the router, and the manager with its webhook and controllers. What the libraries do
  (reading the environment, certificates, the manager) is answered by the record \<open>process\<close>. The
  result is the exit with its message and the steps attempted, in order.
\<close>

section \<open>Configuration\<close>

record config =
  metrics_addr :: string
  probe_addr :: string
  webhook_port :: int
  webhook_cert_dir :: string
  router_scheme :: string
  router_host :: string
  router_path :: string
  router_username :: string
  router_password :: string
  router_ca_cert :: string
  router_cache_timeout :: int
  load_balancer_class :: string
  default_load_balancer :: bool
  config_alloc_timeout :: int

record manager_options =
  mo_metrics :: string
  mo_probe :: string
  mo_webhook_port :: int
  mo_webhook_dir :: string
  mo_leader_election :: bool
  mo_leader_id :: string

text \<open>The four attachments; the reconcilers are given by what they keep of the configuration.\<close>

datatype attachment =
    PoolWebhook
  | PoolController
  | AllocationController expectations
  | ServiceController svc_config

datatype main_step =
    RouterChecked
  | RouterSetUp
  | ManagerCreated manager_options
  | Attached attachment
  | HealthCheckAdded
  | ReadyCheckAdded
  | ManagerStarted

datatype main_exit = ExitOk | ExitFailure string

record 's process =
  load_config :: "string + config"
  accepts_pem :: "string \<Rightarrow> bool"
  connect :: "string option \<Rightarrow> 's backend_env"
  manager_error :: "manager_options \<Rightarrow> string option"
  attach_error :: "attachment \<Rightarrow> string option"
  health_error :: "string option"
  ready_error :: "string option"
  start_error :: "string option"

definition allocation_controller :: "config \<Rightarrow> attachment" where
  "allocation_controller cfg = AllocationController (new_expectations (config_alloc_timeout cfg))"

definition service_controller :: "config \<Rightarrow> attachment" where
  "service_controller cfg = ServiceController
     \<lparr>cfg_class = load_balancer_class cfg, cfg_default = default_load_balancer cfg, cfg_ip_mode = True\<rparr>"

definition manager_options_of :: "config \<Rightarrow> manager_options" where
  "manager_options_of cfg =
     \<lparr>mo_metrics = metrics_addr cfg, mo_probe = probe_addr cfg, mo_webhook_port = webhook_port cfg,
      mo_webhook_dir = webhook_cert_dir cfg, mo_leader_election = True, mo_leader_id = ''mikrolb-controller''\<rparr>"

section \<open>Start\<close>

definition client_of :: "config \<Rightarrow> client" where
  "client_of cfg = set_credentials (router_username cfg) (router_password cfg)
     (new_client (router_scheme cfg) (router_host cfg) (router_path cfg))"

definition backend_of :: "'s process \<Rightarrow> config \<Rightarrow> 's backend_env" where
  "backend_of P cfg =
     (let B = connect P (if router_ca_cert cfg \<noteq> '''' then Some (router_ca_cert cfg) else None)
      in B\<lparr>bk_api := (bk_api B)\<lparr>api_client := client_of cfg\<rparr>, bk_timeout := router_cache_timeout cfg\<rparr>)"

text \<open>Steps in a row, each with the message that is logged before \<open>os.Exit(1)\<close>.\<close>

fun run_startup :: "(string \<times> main_step \<times> string option) list \<Rightarrow> main_exit \<times> main_step list" where
  "run_startup [] = (ExitOk, [])"
| "run_startup ((msg, st, err) # rest) =
     (case err of
        Some e \<Rightarrow> (ExitFailure msg, [st])
      | None \<Rightarrow> (case run_startup rest of (out, steps) \<Rightarrow> (out, st # steps)))"

definition manager_startup :: "'s process \<Rightarrow> config \<Rightarrow> (string \<times> main_step \<times> string option) list" where
  "manager_startup P cfg =
     [(''unable to create manager'', ManagerCreated (manager_options_of cfg), manager_error P (manager_options_of cfg)),
      (''unable to attach IPPool validating webhook'', Attached PoolWebhook, attach_error P PoolWebhook),
      (''unable to attach IPPool controller'', Attached PoolController, attach_error P PoolController),
      (''unable to attach IPAllocation controller'', Attached (allocation_controller cfg),
        attach_error P (allocation_controller cfg)),
      (''unable to attach Service controller'', Attached (service_controller cfg),
        attach_error P (service_controller cfg)),
      (''unable to set up health check'', HealthCheckAdded, health_error P),
      (''unable to set up ready check'', ReadyCheckAdded, ready_error P),
      (''problem running manager'', ManagerStarted, start_error P)]"

definition empty_policies :: policy_cache where
  "empty_policies = \<lparr>pc_value = None, pc_at = 0\<rparr>"

definition main_program :: "'s process \<Rightarrow> 's \<Rightarrow> main_exit \<times> main_step list \<times> 's" where
  "main_program P s =
     (case load_config P of
        Inl e \<Rightarrow> (ExitFailure ''failed to load configuration'', [], s)
      | Inr cfg \<Rightarrow>
          if router_ca_cert cfg \<noteq> '''' \<and> \<not> accepts_pem P (router_ca_cert cfg)
          then (ExitFailure ''invalid CA certificate'', [], s)
          else
            (case check_router (backend_of P cfg) empty_policies s of
               (Inl e, pc, s1) \<Rightarrow>
                 (ExitFailure (if is_unauthorized e \<or> is_forbidden e
                    then ''authentication failed, check credentials''
                    else ''failed to check RouterOS version''), [RouterChecked], s1)
             | (Inr version, pc, s1) \<Rightarrow>
                 (case setup_router (backend_of P cfg) s1 of
                    (Inl e, s2) \<Rightarrow> (ExitFailure ''failed to setup service manager'', [RouterChecked, RouterSetUp], s2)
                  | (Inr u, s2) \<Rightarrow>
                      (case run_startup (manager_startup P cfg) of
                         (out, steps) \<Rightarrow> (out, [RouterChecked, RouterSetUp] @ steps, s2)))))"

section \<open>Lemmas\<close>

text \<open>The check only reads, so it keeps a router's tables.\<close>

context rest_store begin

lemma policies_reads:
  assumes "good s" "policies A timeout now later pc s = (Inr ps, pc', s')"
  shows "good s' \<and> table s' = table s"
proof -
  have p: "plain_path ''/user''" "plain_path ''/user/group''" by code_simp+
  have get: "good s2 \<and> table s2 = table s1"
    if "good s1" "p = ''/user'' \<or> p = ''/user/group''" "api_get A p [(''name'', x)] s1 = (Inr j, s2)" for s1 s2 p x j
    using get_law [of s1 p "[(''name'', x)]" j s2] that p by auto
  show ?thesis
  proof (cases "now - pc_at pc < timeout \<and> pc_value pc \<noteq> None")
    case True
    then show ?thesis using assms by (simp add: policies_def)
  next
    case False
    have "\<exists>u resp s1 g resp2. api_get A ''/user'' [(''name'', u)] s = (Inr resp, s1) \<and>
        api_get A ''/user/group'' [(''name'', g)] s1 = (Inr resp2, s')"
      using assms(2) False
      by (auto simp: policies_def Let_def wrap_Inr split: if_splits prod.splits sum.splits) blast+
    then obtain u resp s1 g resp2 where "api_get A ''/user'' [(''name'', u)] s = (Inr resp, s1)"
      "api_get A ''/user/group'' [(''name'', g)] s1 = (Inr resp2, s')" by blast
    then show ?thesis using get [OF assms(1) disjI1 [OF refl]] get [OF _ disjI2 [OF refl]] by metis
  qed
qed

lemma check_reads:
  assumes "bk_api B = A" "good s" "check_router B pc s = (Inr v, pc', s')"
  shows "good s' \<and> table s' = table s \<and> v \<noteq> ''''"
proof -
  have p: "plain_path ''/system/package''" by code_simp
  obtain ps pc1 s1 where pol: "policies A (bk_timeout B) (bk_now B) (bk_later B) pc s = (Inr ps, pc1, s1)"
    using assms(1,3) by (auto simp: check_router_def Let_def split: prod.splits sum.splits)
  obtain resp where "api_get A ''/system/package'' [] s1 = (Inr resp, s')" "v \<noteq> ''''"
    using assms(1,3) pol
    by (auto simp: check_router_def Let_def wrap_Inr split: prod.splits sum.splits if_splits option.splits)
  then show ?thesis
    using policies_reads [OF assms(2) pol] get_law [of s1 "''/system/package''" "[]" resp s'] p by auto
qed

end

definition startup_steps :: "config \<Rightarrow> main_step list" where
  "startup_steps cfg = [RouterChecked, RouterSetUp, ManagerCreated (manager_options_of cfg), Attached PoolWebhook,
     Attached PoolController, Attached (allocation_controller cfg), Attached (service_controller cfg),
     HealthCheckAdded, ReadyCheckAdded, ManagerStarted]"

lemma run_startup_prefix:
  assumes "run_startup xs = (out, steps)"
  shows "\<exists>rest. map (\<lambda>x. fst (snd x)) xs = steps @ rest \<and>
    (out = ExitOk \<longleftrightarrow> list_all (\<lambda>x. snd (snd x) = None) xs) \<and> (out = ExitOk \<longrightarrow> rest = [])"
  using assms
proof (induction xs arbitrary: out steps)
  case (Cons x xs)
  obtain msg st err where x: "x = (msg, st, err)" by (cases x)
  obtain out' steps' where r: "run_startup xs = (out', steps')" by (cases "run_startup xs")
  show ?case using Cons.IH [OF r] Cons.prems x r by (cases err) auto
qed simp

lemma main_program_run:
  assumes "main_program P s = (out, steps, s')" "load_config P = Inr cfg"
  obtains (early) rest where "startup_steps cfg = steps @ rest" "out \<noteq> ExitOk"
      "set steps \<subseteq> {RouterChecked, RouterSetUp}"
    | (started) v pc s1 u rest where "check_router (backend_of P cfg) empty_policies s = (Inr v, pc, s1)"
      "setup_router (backend_of P cfg) s1 = (Inr u, s')" "startup_steps cfg = steps @ rest"
      "out = ExitOk \<longrightarrow> rest = []"
      "router_ca_cert cfg = '''' \<or> accepts_pem P (router_ca_cert cfg)"
proof (cases "router_ca_cert cfg \<noteq> '''' \<and> \<not> accepts_pem P (router_ca_cert cfg)")
  case True
  then have "steps = []" "out \<noteq> ExitOk" using assms by (auto simp: main_program_def)
  then show ?thesis using early by simp
next
  case ca: False
  obtain c pc s1 where c: "check_router (backend_of P cfg) empty_policies s = (c, pc, s1)" by (metis prod_cases3)
  show ?thesis
  proof (cases c)
    case (Inl e)
    then have "steps = [RouterChecked]" "out \<noteq> ExitOk" using assms ca c by (auto simp: main_program_def)
    then show ?thesis using early by (simp add: startup_steps_def)
  next
    case v: (Inr v)
    obtain r s2 where r: "setup_router (backend_of P cfg) s1 = (r, s2)" by (cases "setup_router (backend_of P cfg) s1")
    show ?thesis
    proof (cases r)
      case (Inl e)
      then have "steps = [RouterChecked, RouterSetUp]" "out \<noteq> ExitOk"
        using assms ca c v r by (auto simp: main_program_def)
      then show ?thesis using early by (simp add: startup_steps_def)
    next
      case (Inr u)
      obtain out' steps' where m: "run_startup (manager_startup P cfg) = (out', steps')"
        by (cases "run_startup (manager_startup P cfg)")
      have e: "out = out'" "steps = [RouterChecked, RouterSetUp] @ steps'" "s' = s2"
        using assms ca c v r Inr m by (auto simp: main_program_def)
      obtain rest where "map (\<lambda>x. fst (snd x)) (manager_startup P cfg) = steps' @ rest" "out' = ExitOk \<longrightarrow> rest = []"
        using run_startup_prefix [OF m] by blast
      moreover have "startup_steps cfg = [RouterChecked, RouterSetUp] @
          map (\<lambda>x. fst (snd x)) (manager_startup P cfg)"
        by (simp add: startup_steps_def manager_startup_def)
      ultimately show ?thesis using started [of v pc s1 u rest] c v r Inr e ca by simp
    qed
  qed
qed

text \<open>C31: The program attempts its steps in one order and stops at the first that fails; it ends
  without an error only after all of them. Nothing of the manager (its webhook, its controllers
  and so any reconcile) exists before the router has been checked, with a version and without
  a change to its tables, and has exactly the rules of \<open>Setup\<close> for both families.\<close>

theorem manager_only_on_set_up_router:
  assumes "main_program P s = (out, steps, s')" "load_config P = Inr cfg"
    and "rest_store (bk_api (backend_of P cfg)) table good" "good s"
  shows "(\<exists>rest. startup_steps cfg = steps @ rest \<and> (out = ExitOk \<longrightarrow> rest = [])) \<and>
    (ManagerCreated (manager_options_of cfg) \<in> set steps \<longrightarrow>
      (\<exists>v pc s1. check_router (backend_of P cfg) empty_policies s = (Inr v, pc, s1) \<and> v \<noteq> '''' \<and> table s1 = table s) \<and>
      (\<forall>f \<in> {IPv4, IPv6}. \<forall>x \<in> set (setup_owners (bk_api (backend_of P cfg)) f).
        has_exactly ignored_firewall (ow_sel x) (ow_reqs x) (table s' (ow_path x))))"
  using assms(1,2)
proof (cases rule: main_program_run)
  case (early rest)
  then show ?thesis by auto
next
  case (started v pc s1 u rest)
  note checked = rest_store.check_reads [OF assms(3) refl assms(4) started(1)]
  show ?thesis
    using setup_rules [OF assms(3) conjunct1 [OF checked] started(2)] started checked by blast
qed

section \<open>A start\<close>

text \<open>gjson with the query that finds the package by its name.\<close>

definition querying_gjson :: gjson where
  "querying_gjson = plain_gjson\<lparr>gj_get := (\<lambda>j k.
     case j of
       JArr l \<Rightarrow> if k = routeros_path then List.find (\<lambda>e. plain_get e ''name'' = Some (JStr ''routeros'')) l
         else plain_get j k
     | _ \<Rightarrow> plain_get j k)\<rparr>"

lemma querying_gjson_ok: "gjson_ok querying_gjson"
  using gjson_ok_plain by (auto simp: gjson_ok_def querying_gjson_def plain_gjson_def)

definition new_router :: mock where
  "new_router = seed ''/system/package'' [texts [(''name'', ''routeros''), (''version'', ''7.16'')]]
     (seed ''/user/group'' [texts [(''name'', ''full''), (''policy'', ''read, write'')]]
       (seed ''/user'' [texts [(''name'', ''admin''), (''group'', ''full'')]] new_mock))"

definition sample_settings :: config where
  "sample_settings =
     \<lparr>metrics_addr = '':8080'', probe_addr = '':8081'', webhook_port = 9443, webhook_cert_dir = ''/certs'',
      router_scheme = ''http'', router_host = ''127.0.0.1:8080'', router_path = '''', router_username = ''admin'',
      router_password = ''secret'', router_ca_cert = '''', router_cache_timeout = 300,
      load_balancer_class = ''mikrolb.de/controller'', default_load_balancer = False, config_alloc_timeout = 300\<rparr>"

definition quiet_process :: "mock process" where
  "quiet_process =
     \<lparr>load_config = Inr sample_settings, accepts_pem = (\<lambda>_. False),
      connect = (\<lambda>_. sample_env\<lparr>bk_api := mock_api querying_gjson local_client\<rparr>),
      manager_error = (\<lambda>_. None), attach_error = (\<lambda>_. None), health_error = None, ready_error = None,
      start_error = None\<rparr>"

lemma quiet_backend:
  "bk_api (backend_of quiet_process sample_settings) = mock_api querying_gjson (client_of sample_settings)"
  by (simp add: backend_of_def quiet_process_def mock_api_def Let_def)

lemma new_router_checked:
  "case check_router (backend_of quiet_process sample_settings) empty_policies new_router of
     (Inr v, _, _) \<Rightarrow> v = ''7.16'' | _ \<Rightarrow> False"
  by code_simp

lemma new_router_good: "mock_good new_router"
proof -
  have "\<forall>r \<in> set [texts [(''name'', ''routeros''), (''version'', ''7.16'')]]. request_ok r"
    "\<forall>r \<in> set [texts [(''name'', ''full''), (''policy'', ''read, write'')]]. request_ok r"
    "\<forall>r \<in> set [texts [(''name'', ''admin''), (''group'', ''full'')]]. request_ok r"
    by code_simp+
  then show ?thesis unfolding new_router_def by (intro mock_good_seed mock_good_new)
qed

lemma sample_client_ok: "client_ok (client_of sample_settings)"
  by code_simp

theorem manager_only_on_set_up_router_witness:
  "\<exists>s'. main_program quiet_process new_router = (ExitOk, startup_steps sample_settings, s') \<and>
     has_exactly ignored_firewall (\<lambda>e. on ''chain'' ''srcnat'' e \<and> on ''jump-target'' snat_chain e) [snat_jump_rule]
       (mock_table s' (table_path IPv6 ''nat''))"
proof -
  let ?B = "backend_of quiet_process sample_settings"
  have store: "reliable_store (bk_api ?B) mock_table mock_good"
    unfolding quiet_backend by (rule mock_reliable [OF querying_gjson_ok sample_client_ok])
  have rest: "rest_store (bk_api ?B) mock_table mock_good"
    unfolding quiet_backend by (rule mock_store [OF querying_gjson_ok sample_client_ok])
  obtain v pc s1 where c: "check_router ?B empty_policies new_router = (Inr v, pc, s1)"
    using new_router_checked by (auto split: prod.splits sum.splits)
  have "mock_good s1" using rest_store.check_reads [OF rest refl new_router_good c] by blast
  then obtain s' where s: "setup_router ?B s1 = (Inr (), s')"
    using reliable_store.setup_succeeds [OF store refl] by blast
  have "load_config quiet_process = Inr sample_settings" "router_ca_cert sample_settings = ''''"
    by (simp_all add: quiet_process_def sample_settings_def)
  moreover have "run_startup (manager_startup quiet_process sample_settings) =
      (ExitOk, drop 2 (startup_steps sample_settings))"
    by (simp add: manager_startup_def startup_steps_def quiet_process_def)
  ultimately have run: "main_program quiet_process new_router = (ExitOk, startup_steps sample_settings, s')"
    using c s by (simp add: main_program_def startup_steps_def)
  have "load_config quiet_process = Inr sample_settings" by (simp add: quiet_process_def)
  from manager_only_on_set_up_router [OF run this rest new_router_good]
  have "\<forall>f \<in> {IPv4, IPv6}. \<forall>x \<in> set (setup_owners (bk_api ?B) f).
      has_exactly ignored_firewall (ow_sel x) (ow_reqs x) (mock_table s' (ow_path x))"
    by (simp add: startup_steps_def)
  then show ?thesis using run by (auto simp: setup_owners_def Let_def)
qed

end
