(* ===== verification/Watches.thy ===== *)
theory Watches
  imports Service_Props
begin

text \<open>
  Which objects wake which reconcilers: the functions that the \<open>Attach\<close> functions of
  \<open>service_reconciler.go\<close> and \<open>ip_pool_reconciler.go\<close> give to their watches. A request is the
  namespace and the name of the object to reconcile.
\<close>

type_synonym request = "string \<times> string"

definition slice_service_label :: string where
  "slice_service_label = ''kubernetes.io/service-name''"

definition slice_requests :: "object_meta \<Rightarrow> request list" where
  "slice_requests m =
     (case obj_labels m slice_service_label of
        None \<Rightarrow> []
      | Some name \<Rightarrow> if name = '''' then [] else [(obj_namespace m, name)])"

definition alloc_requests :: "object_meta \<Rightarrow> request list" where
  "alloc_requests m =
     (case obj_labels m label_name of
        None \<Rightarrow> []
      | Some name \<Rightarrow>
          if name = '''' then []
          else (case obj_labels m label_namespace of
            None \<Rightarrow> []
          | Some namespace \<Rightarrow> if namespace = '''' then [] else [(namespace, name)]))"

text \<open>Every event of an allocation wakes all pools that can be listed.\<close>

definition pool_requests :: "'e + ip_pool list \<Rightarrow> request list" where
  "pool_requests pools =
     (case pools of
        Inl err \<Rightarrow> []
      | Inr ps \<Rightarrow> map (\<lambda>p. (obj_namespace (pool_meta p), pool_name p)) ps)"

lemma created_in_calls:
  assumes "CreateAllocation a \<in> set (snd (reconcile_configured K cfg sha dns_ok env svc))"
  shows "\<exists>e \<in> set (expected_by sha dns_ok cfg svc). a = new_allocation (ks_meta svc) e"
proof -
  have no: "CreateAllocation a \<notin> set (w_calls (wanted_by dns_ok cfg svc))"
    using wanted_calls by blast
  obtain allocs where allocs: "sv_allocs env = Inr allocs"
    using assms no by (cases "sv_allocs env") (auto simp: reconcile_configured_def Let_def)
  show ?thesis
    using configured_calls [OF allocs, of K cfg sha dns_ok svc] assms no
    by (auto simp: delete_unexpected_def create_missing_def)
qed

text \<open>C27: Every allocation that a service reconcile creates is one of its expected allocations and
  comes back to it: it carries the labels by which each event of the allocation wakes exactly
  this service, and the one by which the service lists it.\<close>

theorem created_allocations_wake_their_service:
  assumes "CreateAllocation a \<in> set (snd (reconcile_configured K cfg sha dns_ok env svc))"
    and "obj_name (ks_meta svc) \<noteq> ''''" "obj_namespace (ks_meta svc) \<noteq> ''''"
  shows "is_expected (expected_by sha dns_ok cfg svc) a \<and>
    alloc_requests (alloc_meta a) = [(obj_namespace (ks_meta svc), obj_name (ks_meta svc))] \<and>
    obj_labels (alloc_meta a) label_uid = Some (obj_uid (ks_meta svc))"
proof -
  obtain e where e: "e \<in> set (expected_by sha dns_ok cfg svc)" "a = new_allocation (ks_meta svc) e"
    using created_in_calls [OF assms(1)] by blast
  have "label_uid \<noteq> label_name" "label_uid \<noteq> label_namespace" "label_name \<noteq> label_namespace"
    by (simp_all add: label_uid_def label_name_def label_namespace_def)
  then show ?thesis
    using e assms(2,3) by (auto simp: new_allocation_def alloc_requests_def is_expected_def list_ex_iff)
qed

theorem created_allocations_wake_their_service_witness:
  "\<exists>a. CreateAllocation a \<in> set (snd (reconcile_configured plain_kube sample_config (\<lambda>_. [1, 2, 3, 4, 5, 6]) (\<lambda>_. True)
      (quiet_svc_env (sample_service Map.empty) [] []) (sample_service Map.empty))) \<and>
    alloc_requests (alloc_meta a) = [(''ns'', ''web'')]"
proof -
  let ?cs = "snd (reconcile_configured plain_kube sample_config (\<lambda>_. [1, 2, 3, 4, 5, 6]) (\<lambda>_. True)
      (quiet_svc_env (sample_service Map.empty) [] []) (sample_service Map.empty))"
  have "case ?cs of CreateAllocation a # _ \<Rightarrow> True | _ \<Rightarrow> False" by code_simp
  then obtain a where a: "CreateAllocation a \<in> set ?cs" by (auto split: list.splits svc_call.splits)
  have "obj_name (ks_meta (sample_service Map.empty)) = ''web''"
    "obj_namespace (ks_meta (sample_service Map.empty)) = ''ns''"
    by (simp_all add: sample_service_def)
  then show ?thesis using created_allocations_wake_their_service [OF a] a by auto
qed

end
