(* ===== verification/Spec2Isabelle.thy ===== *)
theory Spec2Isabelle
  imports Allocation_Protocol Allocation_Leak Pool_Reconciler Service_Props Utils Sync_Props
    Router_Service Router_Isolation Router_Setup Router_Address Service_Cluster Main_Program Watches
begin

text \<open>
  MikroLB, a load balancer controller for Kubernetes that programs a MikroTik router. The theories of
  this library model the Go code of the controller and prove what it computes.

  \<^bold>\<open>Address ranges.\<close> \<open>Netip\<close> and \<open>Netip_Text\<close> are the parts of \<open>net/netip\<close> that the code uses, with
  an IPv4 address as a 32-bit and an IPv6 address as a 128-bit word. \<open>IP_Range\<close> is
  \<open>internal/core/ip_range.go\<close> and \<open>ip_family.go\<close>; the iterator is a \<open>partial_function\<close> and its
  termination is a theorem of \<open>IP_Range_Props\<close>. \<open>IP_Range_Set\<close> is \<open>ip_range_set.go\<close>;
  \<open>IP_Range_Set_Props\<close> relates merge, subtract and intersect to union, difference and intersection
  of the denoted sets of addresses and states where they differ. \<open>Range_Parse\<close> has the lemmas on
  parsing a range, \<open>Netip_Roundtrip\<close> shows that addresses and ranges survive their texts.

  \<^bold>\<open>Pools.\<close> \<open>Api_Types\<close> holds the resources of \<open>api/v1alpha1\<close>. \<open>IP_Pool\<close> is
  \<open>internal/controller/ip_pool.go\<close> and the webhook \<open>ip_pool_webhook.go\<close>; \<open>IP_Pool_Props\<close> shows what
  a pool denotes and that the pools admitted one after another are disjoint. \<open>Pool_Reconciler\<close> is
  \<open>ip_pool_reconciler.go\<close> with its properties.

  \<^bold>\<open>Allocations.\<close> \<open>Expectations\<close> is the tracker \<open>ip_allocation_expectations.go\<close>, which bridges the
  delay of the client's cache; \<open>Expectations_Props\<close> has its invariant over all sequences of operations.
  \<open>Allocation_Reconciler\<close> is \<open>ip_allocation_reconciler.go\<close>: a reconcile is a function from the
  answers of the API server and the router to the calls it makes, the new resource and the new
  tracker. \<open>Allocation_Decision\<close> and \<open>Allocation_Props\<close> show which address is chosen and in which order
  things happen. \<open>Allocation_Cluster\<close> puts the reconciler beside the API server and the informer
  cache, with a step for every action of users, server, informer and controller; it ends with a run
  that gives one address to two allocations. \<open>Allocation_Protocol\<close> has the invariant by which this
  cannot happen when every reconcile sees its own object as it is stored. \<open>Allocation_Leak\<close> shows
  that the reservation of an allocation that is gone stays for good, and a run that leaves one.

  \<^bold>\<open>Services.\<close> \<open>Service\<close> is \<open>internal/core/service.go\<close>, \<open>Service_Reconciler\<close> is
  \<open>service_reconciler.go\<close>, and \<open>Service_Props\<close> holds its properties. \<open>Watches\<close> has the functions by
  which events wake the reconcilers. \<open>Service_Cluster\<close> runs the service reconciler on the clusters
  of \<open>Allocation_Protocol\<close>: two services never get the same address there.

  \<^bold>\<open>REST client.\<close> \<open>Json\<close> has JSON values, the fields of an object in order, and what is used of gjson as a
  record of functions with their laws; \<open>Url\<close> has the query escaping of \<open>net/url\<close>. \<open>Rest_Client\<close> is
  \<open>internal/routeros/api\<close>: the calls and \<open>Sync\<close>, split into its phases. The locale \<open>rest_store\<close> of
  \<open>Rest_Sync\<close> states what \<open>Sync\<close> needs of a router, namely that the four calls are operations on tables of
  entries, and \<open>sync_contract\<close> shows the effect of \<open>Sync\<close> under it; \<open>reliable_store\<close> adds that
  calls succeed, \<open>atomic_store\<close> of \<open>Rest_Failure\<close> that a failed call has had its whole effect or
  none. \<open>Rest_Store\<close> has the comparison, the patch and the matching phase. \<open>Mock_Router\<close> is the
  in-memory router \<open>internal/routeros/mock/server.go\<close>; \<open>Mock_Props\<close> follows each call through the URL
  and the handler and interprets the locales on it. \<open>Sync_Props\<close> has the properties.

  \<^bold>\<open>Backend.\<close> \<open>Router_Rules\<close> has the names and the rules of \<open>internal/routeros/backend.go\<close>,
  \<open>Router_Backend\<close> its operations, \<open>Gratuitous\<close> the announcement packet of \<open>gratuitous.go\<close>.
  \<open>Router_Sync\<close> carries the contract of \<open>Sync\<close> over to one operation, which owns the entries it selects
  and leaves the requested ones; \<open>Router_Shapes\<close> has the shape of the requests. \<open>Router_Ensure\<close>
  composes the steps of a family, \<open>Router_Service\<close> has the result of \<open>EnsureService\<close> and that it
  ignores the switches of a service,
  \<open>Router_Isolation\<close> what it spares when calls fail, \<open>Router_Setup\<close> the rules of \<open>Setup\<close>,
  \<open>Router_Address\<close> the route search and the advertisements, \<open>Router_Props\<close> \<open>DeleteService\<close>.

  \<^bold>\<open>Program.\<close> \<open>Main_Program\<close> is \<open>cmd/mikrolb-controller/main.go\<close> with \<open>internal/core/config.go\<close>: from
  the configuration through the check and the setup of the router to the start of the manager,
  with the step at which it exits. No controller runs before the router is set up.

  \<open>Prelude\<close> has the lemmas and the Go library functions shared by all theories, \<open>Utils\<close> is
  \<open>internal/utils\<close>.

  \<^bold>\<open>Parameters.\<close> The Kubernetes client, the HTTP runtime, gjson, the packet serializer, SHA-256, the
  clock and the order in which Go iterates over a map are arguments of the definitions. Every
  operation under a mutex is one step. The laws of \<open>rest_store\<close> (an entry stored by PUT has the
  fields of the request and its identifier) are proved of the mock router; RouterOS itself adds and
  normalises fields. The law that gjson keeps the text of a number is one for the integers that are sent.
  \<open>trim_space\<close> trims ASCII white space. \<open>ctrl.GetConfigOrDie\<close>, which exits by itself, counts as a
  failure to create the manager.

  \<^bold>\<open>Termination.\<close> All loops are structural recursions but the iterator of a range, which is proved to
  end, and the printing of decimals. There is no fuel.

  \<^bold>\<open>Not modelled.\<close> The packages that read the environment, load certificates and run the manager (their
  answers are parameters of \<open>Main_Program\<close>), the generated deep copies, the registration of schemes, the
  predicate by which a pool's status updates are ignored, logging and its marshalling, TLS, and the
  state dump of the mock router. The texts of errors are modelled where code reads them; the index of a
  request and the identifier of an entry are left out of the errors of \<open>Sync\<close>.
\<close>

end
